(* ===== verification/Go_Prelude.thy ===== *)
theory Go_Prelude
  imports Main
begin

text \<open>
  Shared vocabulary of the development: Go's 64-bit integers, \<open>time.Time\<close> and
  \<open>time.Duration\<close>, the functions of the packages \<open>strings\<close> and \<open>bytes\<close> the
  program uses, and the lemmas on them that the components share.

  \<^item> A Go \<open>string\<close> or \<open>[]byte\<close> is a list of bytes, here \<open>string\<close> (a \<open>char\<close> is a byte).
  \<^item> \<open>int\<close>, \<open>int64\<close> and \<open>time.Duration\<close> are 64 bits wide: they are modelled as
    \<open>int\<close>, and every addition or multiplication that could leave the range goes
    through \<open>i64\<close>, which wraps as two's complement does.
  \<^item> \<open>time.Time\<close> is an \<open>int\<close>, nanoseconds on one clock. Every call of \<open>time.Now()\<close>
    is an argument of the operation that makes it, so two calls may differ.
\<close>

named_theorems go_time \<open>comparisons of durations that come from saturating subtraction\<close>
named_theorems go_string \<open>the string functions on concrete shapes\<close>

section \<open>Machine integers\<close>

definition i64 :: "int \<Rightarrow> int" where
  "i64 x = (x + 2 ^ 63) mod 2 ^ 64 - 2 ^ 63"

definition in_i64 :: "int \<Rightarrow> bool" where
  "in_i64 x \<longleftrightarrow> - (2 ^ 63) \<le> x \<and> x < 2 ^ 63"

lemma i64_in_range [simp, intro]: "in_i64 (i64 x)"
  by (simp add: i64_def in_i64_def)

lemma i64_id [simp]: "in_i64 x \<Longrightarrow> i64 x = x"
  by (simp add: i64_def in_i64_def)

lemma i64_idem [simp]: "i64 (i64 x) = i64 x"
  by simp

section \<open>Times and durations\<close>

type_synonym time = int
type_synonym duration = int

definition Second :: duration where "Second = 10 ^ 9"
definition Minute :: duration where "Minute = 60 * Second"
definition Hour :: duration where "Hour = 60 * Minute"

lemmas duration_units = Second_def Minute_def Hour_def

text \<open>\<open>t.Sub(u)\<close> and \<open>time.Since(u)\<close> saturate at the ends of the 64-bit range.\<close>

definition time_Sub :: "time \<Rightarrow> time \<Rightarrow> duration" where
  "time_Sub t u = max (- (2 ^ 63)) (min (2 ^ 63 - 1) (t - u))"

definition time_Add :: "time \<Rightarrow> duration \<Rightarrow> time" where
  "time_Add t d = t + d"

definition time_After :: "time \<Rightarrow> time \<Rightarrow> bool" where
  "time_After t u \<longleftrightarrow> t > u"

definition time_Before :: "time \<Rightarrow> time \<Rightarrow> bool" where
  "time_Before t u \<longleftrightarrow> t < u"

lemmas time_defs = time_Add_def time_After_def time_Before_def

lemma time_Sub_less [go_time]: "in_i64 d \<Longrightarrow> time_Sub t u < d \<longleftrightarrow> t - u < d \<and> d \<noteq> - (2 ^ 63)"
  by (auto simp: time_Sub_def in_i64_def)

lemma time_Sub_greater [go_time]: "in_i64 d \<Longrightarrow> d < time_Sub t u \<longleftrightarrow> d < t - u \<and> d \<noteq> 2 ^ 63 - 1"
  by (auto simp: time_Sub_def in_i64_def)

lemma time_Sub_exact: "in_i64 (t - u) \<Longrightarrow> time_Sub t u = t - u"
  by (auto simp: time_Sub_def in_i64_def)

section \<open>Strings\<close>

definition HasPrefix :: "string \<Rightarrow> string \<Rightarrow> bool" where
  "HasPrefix s p \<longleftrightarrow> take (length p) s = p"

definition TrimPrefix :: "string \<Rightarrow> string \<Rightarrow> string" where
  "TrimPrefix s p = (if HasPrefix s p then drop (length p) s else s)"

definition HasSuffix :: "string \<Rightarrow> string \<Rightarrow> bool" where
  "HasSuffix s p \<longleftrightarrow> length p \<le> length s \<and> drop (length s - length p) s = p"

definition TrimSuffix :: "string \<Rightarrow> string \<Rightarrow> string" where
  "TrimSuffix s p = (if HasSuffix s p then take (length s - length p) s else s)"

text \<open>\<open>strings.Index\<close> and \<open>bytes.Index\<close>: the first position, \<open>None\<close> for \<open>-1\<close>.\<close>

fun Index :: "string \<Rightarrow> string \<Rightarrow> nat option" where
  "Index s p = (if HasPrefix s p then Some 0
     else (case s of [] \<Rightarrow> None | c # t \<Rightarrow> map_option Suc (Index t p)))"

declare Index.simps [simp del]

definition Contains :: "string \<Rightarrow> string \<Rightarrow> bool" where
  "Contains s p \<longleftrightarrow> Index s p \<noteq> None"

lemma HasPrefix_append [simp, go_string]: "HasPrefix (p @ t) p"
  by (simp add: HasPrefix_def)

lemma HasPrefix_Nil [simp, go_string]: "HasPrefix s []"
  by (simp add: HasPrefix_def)

lemma HasPrefix_iff: "HasPrefix s p \<longleftrightarrow> (\<exists>t. s = p @ t)"
  by (metis HasPrefix_append HasPrefix_def append_take_drop_id)

lemma HasPrefix_length: "HasPrefix s p \<Longrightarrow> length p \<le> length s"
  by (auto simp: HasPrefix_iff)

lemma HasPrefix_antisym: "HasPrefix s p \<Longrightarrow> HasPrefix s q \<Longrightarrow> length p = length q \<Longrightarrow> p = q"
  by (simp add: HasPrefix_def)

lemma TrimPrefix_append [simp, go_string]: "TrimPrefix (p @ t) p = t"
  by (simp add: TrimPrefix_def)

lemma TrimPrefix_eq: "HasPrefix s p \<Longrightarrow> p @ TrimPrefix s p = s"
  by (auto simp: HasPrefix_iff)

lemma Index_bound: "Index s p = Some i \<Longrightarrow> i + length p \<le> length s"
proof (induction s p arbitrary: i rule: Index.induct)
  case (1 s p)
  then show ?case
    by (subst (asm) (2) Index.simps)
       (auto simp: HasPrefix_length split: if_splits list.splits)
qed

lemma Index_at: "Index s p = Some i \<Longrightarrow> HasPrefix (drop i s) p"
proof (induction s p arbitrary: i rule: Index.induct)
  case (1 s p)
  then show ?case
    by (subst (asm) (2) Index.simps) (auto split: if_splits list.splits)
qed

end
