(* ===== verification/Runes.thy ===== *)
theory Runes
  imports Go_Prelude
begin

text \<open>
  Bytes and runes: what the program uses of \<open>unicode/utf8\<close>, through \<open>filepath.Match\<close> and through
  \<open>encoding/json\<close>.
\<close>

definition byte :: "char \<Rightarrow> nat" where "byte c = of_char c"

definition cont_byte :: "nat \<Rightarrow> nat \<Rightarrow> char \<Rightarrow> bool" where
  "cont_byte lo hi c \<longleftrightarrow> lo \<le> byte c \<and> byte c \<le> hi"

definition RuneError :: nat where "RuneError = 0xFFFD"

text \<open>\<open>utf8.DecodeRune\<close>: the rune and its width; an invalid byte has width 1.\<close>

fun DecodeRune :: "string \<Rightarrow> nat \<times> nat" where
  "DecodeRune [] = (RuneError, 0)"
| "DecodeRune (a # s) =
    (let b = byte a in
     if b < 0x80 then (b, 1)
     else (case s of
       [] \<Rightarrow> (RuneError, 1)
     | c # s1 \<Rightarrow>
        if 0xC2 \<le> b \<and> b \<le> 0xDF then
          (if cont_byte 0x80 0xBF c then ((b - 0xC0) * 64 + (byte c - 0x80), 2) else (RuneError, 1))
        else if 0xE0 \<le> b \<and> b \<le> 0xEF then
          (case s1 of [] \<Rightarrow> (RuneError, 1) | d # s2 \<Rightarrow>
             if cont_byte (if b = 0xE0 then 0xA0 else 0x80) (if b = 0xED then 0x9F else 0xBF) c
                \<and> cont_byte 0x80 0xBF d
             then ((b - 0xE0) * 4096 + (byte c - 0x80) * 64 + (byte d - 0x80), 3)
             else (RuneError, 1))
        else if 0xF0 \<le> b \<and> b \<le> 0xF4 then
          (case s1 of d # e # s2 \<Rightarrow>
             if cont_byte (if b = 0xF0 then 0x90 else 0x80) (if b = 0xF4 then 0x8F else 0xBF) c
                \<and> cont_byte 0x80 0xBF d \<and> cont_byte 0x80 0xBF e
             then ((b - 0xF0) * 262144 + (byte c - 0x80) * 4096 + (byte d - 0x80) * 64 + (byte e - 0x80), 4)
             else (RuneError, 1)
           | _ \<Rightarrow> (RuneError, 1))
        else (RuneError, 1)))"

lemma DecodeRune_width: "s \<noteq> [] \<Longrightarrow> 0 < snd (DecodeRune s)"
  by (cases s) (auto simp: Let_def split: list.splits if_splits)

lemma DecodeRune_ascii: "byte a < 0x80 \<Longrightarrow> DecodeRune (a # s) = (byte a, 1)"
  by simp

declare DecodeRune.simps(2) [simp del]

text \<open>\<open>utf8.EncodeRune\<close>: surrogates and numbers beyond the last rune are written as \<open>RuneError\<close>.\<close>

definition EncodeRune :: "nat \<Rightarrow> string" where
  "EncodeRune r0 =
    (let r = (if 55296 \<le> r0 \<and> r0 \<le> 57343 \<or> 1114111 < r0 then RuneError else r0) in
     map char_of
      (if r \<le> 127 then [r]
       else if r \<le> 2047 then [192 + r div 64, 128 + r mod 64]
       else if r \<le> 65535 then [224 + r div 4096, 128 + r div 64 mod 64, 128 + r mod 64]
       else [240 + r div 262144, 128 + r div 4096 mod 64, 128 + r div 64 mod 64, 128 + r mod 64]))"

end
