(* ===== verification/Http.thy ===== *)
theory Http
  imports Runes
begin

text \<open>
  What the program uses of \<open>net/http\<close> and \<open>net/url\<close>: headers with canonical keys, query
  strings, requests and responses, and the round-tripper interface. Headers are maps from
  canonical keys to lists of values; the order of a header's keys is not observable.
\<close>

section \<open>Headers\<close>

type_synonym header = "string \<rightharpoonup> string list"

definition is_lower :: "char \<Rightarrow> bool" where
  "is_lower c \<longleftrightarrow> 97 \<le> byte c \<and> byte c \<le> 122"

definition is_upper :: "char \<Rightarrow> bool" where
  "is_upper c \<longleftrightarrow> 65 \<le> byte c \<and> byte c \<le> 90"

definition is_digit :: "char \<Rightarrow> bool" where
  "is_digit c \<longleftrightarrow> 48 \<le> byte c \<and> byte c \<le> 57"

definition to_upper :: "char \<Rightarrow> char" where
  "to_upper c = (if is_lower c then char_of (byte c - 32) else c)"

definition to_lower :: "char \<Rightarrow> char" where
  "to_lower c = (if is_upper c then char_of (byte c + 32) else c)"

text \<open>\<open>strings.ToLower\<close> on ASCII.\<close>

definition ToLower :: "string \<Rightarrow> string" where
  "ToLower s = map to_lower s"

definition is_token_char :: "char \<Rightarrow> bool" where
  "is_token_char c \<longleftrightarrow> is_lower c \<or> is_upper c \<or> is_digit c \<or> c \<in> set ''!#$%&*+-.^_`|~'' \<or> byte c = 39"

fun canonical :: "bool \<Rightarrow> string \<Rightarrow> string" where
  "canonical upper [] = []"
| "canonical upper (c # s) = (if upper then to_upper c else to_lower c) # canonical (c = CHR ''-'') s"

definition CanonicalHeaderKey :: "string \<Rightarrow> string" where
  "CanonicalHeaderKey k = (if list_all is_token_char k then canonical True k else k)"

definition header_Get :: "header \<Rightarrow> string \<Rightarrow> string" where
  "header_Get h k = (case h (CanonicalHeaderKey k) of Some (v # _) \<Rightarrow> v | _ \<Rightarrow> '''')"

definition header_Del :: "header \<Rightarrow> string \<Rightarrow> header" where
  "header_Del h k = h(CanonicalHeaderKey k := None)"

definition header_Set :: "header \<Rightarrow> string \<Rightarrow> string \<Rightarrow> header" where
  "header_Set h k v = h(CanonicalHeaderKey k \<mapsto> [v])"

definition header_Add :: "header \<Rightarrow> string \<Rightarrow> string \<Rightarrow> header" where
  "header_Add h k v = h(CanonicalHeaderKey k \<mapsto>
     (case h (CanonicalHeaderKey k) of None \<Rightarrow> [] | Some vs \<Rightarrow> vs) @ [v])"

text \<open>\<open>h["K"]\<close> with the key as written, not canonicalised.\<close>

definition header_has :: "header \<Rightarrow> string \<Rightarrow> bool" where
  "header_has h k \<longleftrightarrow> h k \<noteq> None"

section \<open>Query strings\<close>

text \<open>\<open>strings.Cut\<close> at one byte.\<close>

fun Cut :: "char \<Rightarrow> string \<Rightarrow> string \<times> string \<times> bool" where
  "Cut x [] = ([], [], False)"
| "Cut x (c # s) = (if c = x then ([], s, True)
     else case Cut x s of (a, b, f) \<Rightarrow> (c # a, b, f))"

definition unhex :: "char \<Rightarrow> nat option" where
  "unhex c = (if is_digit c then Some (byte c - 48)
     else if 97 \<le> byte c \<and> byte c \<le> 102 then Some (byte c - 87)
     else if 65 \<le> byte c \<and> byte c \<le> 70 then Some (byte c - 55) else None)"

text \<open>\<open>url.QueryUnescape\<close>; \<open>None\<close> is its error.\<close>

fun QueryUnescape :: "string \<Rightarrow> string option" where
  "QueryUnescape [] = Some []"
| "QueryUnescape (c # s) =
    (if c = CHR ''%'' then
       (case s of
          a # b # t \<Rightarrow>
            (case (unhex a, unhex b) of
               (Some x, Some y) \<Rightarrow> map_option ((#) (char_of (16 * x + y))) (QueryUnescape t)
             | _ \<Rightarrow> None)
        | _ \<Rightarrow> None)
     else map_option ((#) (if c = CHR ''+'' then CHR '' '' else c)) (QueryUnescape s))"

fun Split :: "char \<Rightarrow> string \<Rightarrow> string list" where
  "Split x [] = [[]]"
| "Split x (c # s) = (if c = x then [] # Split x s
     else case Split x s of [] \<Rightarrow> [[c]] | w # ws \<Rightarrow> (c # w) # ws)"

definition query_pair :: "string \<Rightarrow> (string \<times> string) option" where
  "query_pair seg =
    (if CHR '';'' \<in> set seg \<or> seg = [] then None
     else case Cut (CHR ''='') seg of (k, v, _) \<Rightarrow>
       (case (QueryUnescape k, QueryUnescape v) of
          (Some k', Some v') \<Rightarrow> Some (k', v')
        | _ \<Rightarrow> None))"

text \<open>\<open>r.URL.Query().Get(k)\<close>: the first value of \<open>k\<close>; segments that do not parse are left out.\<close>

definition ParseQuery :: "string \<Rightarrow> (string \<times> string) list" where
  "ParseQuery q = List.map_filter query_pair (Split (CHR ''&'') q)"

definition query_Get :: "string \<Rightarrow> string \<Rightarrow> string" where
  "query_Get q k = (case map_of (ParseQuery q) k of Some v \<Rightarrow> v | None \<Rightarrow> '''')"

section \<open>Requests and responses\<close>

record request =
  Method :: string
  Host :: string
  Path :: string
  RawQuery :: string
  ReqHeader :: header
  ReqBody :: string

record response =
  StatusCode :: int
  RespHeader :: header
  RespBody :: string

text \<open>\<open>http.RoundTripper\<close>: an error or a response.\<close>

type_synonym roundTripper = "request \<Rightarrow> string + response"

section \<open>Lemmas\<close>

lemma header_Get_Del [simp]:
  "header_Get (header_Del h k) k' = (if CanonicalHeaderKey k = CanonicalHeaderKey k' then '''' else header_Get h k')"
  by (simp add: header_Get_def header_Del_def)

lemma header_Get_Set [simp]:
  "header_Get (header_Set h k v) k' = (if CanonicalHeaderKey k = CanonicalHeaderKey k' then v else header_Get h k')"
  by (simp add: header_Get_def header_Set_def)

lemma byte_upper: "is_lower c \<Longrightarrow> byte (to_upper c) = byte c - 32"
  by (auto simp: to_upper_def is_lower_def byte_def of_char_of intro!: mod_less)

lemma byte_lower: "is_upper c \<Longrightarrow> byte (to_lower c) = byte c + 32"
  by (simp add: to_lower_def is_upper_def byte_def of_char_of)

lemma byte_inj: "byte c = byte d \<Longrightarrow> c = d"
  by (simp add: byte_def)

lemma to_upper_idem [simp]: "to_upper (to_upper c) = to_upper c"
  using byte_upper[of c] by (cases "is_lower c") (auto simp: to_upper_def is_lower_def byte_def of_char_of)

lemma to_lower_idem [simp]: "to_lower (to_lower c) = to_lower c"
  using byte_lower[of c] by (cases "is_upper c") (auto simp: to_lower_def is_upper_def byte_def of_char_of)

lemma case_dash [simp]: "to_upper c = CHR ''-'' \<longleftrightarrow> c = CHR ''-''" "to_lower c = CHR ''-'' \<longleftrightarrow> c = CHR ''-''"
proof -
  have dash: "byte (CHR ''-'') = 45" by (simp add: byte_def)
  have "byte (to_upper c) = 45 \<longleftrightarrow> byte c = 45"
    using byte_upper[of c] by (cases "is_lower c") (auto simp: is_lower_def to_upper_def)
  then show "to_upper c = CHR ''-'' \<longleftrightarrow> c = CHR ''-''" using dash byte_inj by metis
  have "byte (to_lower c) = 45 \<longleftrightarrow> byte c = 45"
    using byte_lower[of c] by (cases "is_upper c") (auto simp: is_upper_def to_lower_def)
  then show "to_lower c = CHR ''-'' \<longleftrightarrow> c = CHR ''-''" using dash byte_inj by metis
qed

lemma canonical_idem [simp]: "canonical u (canonical u k) = canonical u k"
  by (induction u k rule: canonical.induct) auto

lemma is_token_case [simp]: "is_token_char c \<Longrightarrow> is_token_char (to_upper c)"
  "is_token_char c \<Longrightarrow> is_token_char (to_lower c)"
proof -
  have "is_lower c \<Longrightarrow> is_upper (to_upper c)" "is_upper c \<Longrightarrow> is_lower (to_lower c)"
    using byte_upper[of c] byte_lower[of c] unfolding is_lower_def is_upper_def by linarith+
  then show "is_token_char c \<Longrightarrow> is_token_char (to_upper c)" "is_token_char c \<Longrightarrow> is_token_char (to_lower c)"
    unfolding is_token_char_def by (metis to_upper_def, metis to_lower_def)
qed

lemma canonical_token: "list_all is_token_char k \<Longrightarrow> list_all is_token_char (canonical u k)"
  by (induction u k rule: canonical.induct) auto

text \<open>Canonical keys are canonical, so a header can be read under the key as it is stored.\<close>

lemma CanonicalHeaderKey_idem [simp]: "CanonicalHeaderKey (CanonicalHeaderKey k) = CanonicalHeaderKey k"
  by (simp add: CanonicalHeaderKey_def canonical_token)

lemma Cut_found: "x \<notin> set a \<Longrightarrow> Cut x (a @ x # b) = (a, b, True)"
  by (induction a) auto

lemma Cut_missing: "x \<notin> set a \<Longrightarrow> Cut x a = (a, [], False)"
  by (induction a) auto

end
