(* ===== verification/Sha256.thy ===== *)
theory Sha256
  imports Go_Prelude "HOL-Library.Word"
begin

text \<open>
  The functions of \<open>crypto/sha256\<close> and \<open>encoding/hex\<close> that key hashing uses, on byte strings:
  SHA-256 with 32-bit words, and lower-case hexadecimal.
\<close>

unbundle bit_operations_syntax

type_synonym w32 = "32 word"

definition H0 :: "w32 list" where
  "H0 = [0x6A09E667, 0xBB67AE85, 0x3C6EF372, 0xA54FF53A, 0x510E527F, 0x9B05688C, 0x1F83D9AB, 0x5BE0CD19]"

definition K256 :: "w32 list" where
  "K256 =
    [0x428A2F98, 0x71374491, 0xB5C0FBCF, 0xE9B5DBA5, 0x3956C25B, 0x59F111F1, 0x923F82A4, 0xAB1C5ED5,
     0xD807AA98, 0x12835B01, 0x243185BE, 0x550C7DC3, 0x72BE5D74, 0x80DEB1FE, 0x9BDC06A7, 0xC19BF174,
     0xE49B69C1, 0xEFBE4786, 0x0FC19DC6, 0x240CA1CC, 0x2DE92C6F, 0x4A7484AA, 0x5CB0A9DC, 0x76F988DA,
     0x983E5152, 0xA831C66D, 0xB00327C8, 0xBF597FC7, 0xC6E00BF3, 0xD5A79147, 0x06CA6351, 0x14292967,
     0x27B70A85, 0x2E1B2138, 0x4D2C6DFC, 0x53380D13, 0x650A7354, 0x766A0ABB, 0x81C2C92E, 0x92722C85,
     0xA2BFE8A1, 0xA81A664B, 0xC24B8B70, 0xC76C51A3, 0xD192E819, 0xD6990624, 0xF40E3585, 0x106AA070,
     0x19A4C116, 0x1E376C08, 0x2748774C, 0x34B0BCB5, 0x391C0CB3, 0x4ED8AA4A, 0x5B9CCA4F, 0x682E6FF3,
     0x748F82EE, 0x78A5636F, 0x84C87814, 0x8CC70208, 0x90BEFFFA, 0xA4506CEB, 0xBEF9A3F7, 0xC67178F2]"

definition rotr :: "nat \<Rightarrow> w32 \<Rightarrow> w32" where
  "rotr n x = drop_bit n x OR push_bit (32 - n) x"

definition small_sigma0 :: "w32 \<Rightarrow> w32" where
  "small_sigma0 x = rotr 7 x XOR rotr 18 x XOR drop_bit 3 x"

definition small_sigma1 :: "w32 \<Rightarrow> w32" where
  "small_sigma1 x = rotr 17 x XOR rotr 19 x XOR drop_bit 10 x"

definition big_sigma0 :: "w32 \<Rightarrow> w32" where
  "big_sigma0 x = rotr 2 x XOR rotr 13 x XOR rotr 22 x"

definition big_sigma1 :: "w32 \<Rightarrow> w32" where
  "big_sigma1 x = rotr 6 x XOR rotr 11 x XOR rotr 25 x"

text \<open>The message schedule, kept in reverse: each new word is added at the front.\<close>

definition schedule_word :: "w32 list \<Rightarrow> w32" where
  "schedule_word ws = small_sigma1 (ws ! 1) + ws ! 6 + small_sigma0 (ws ! 14) + ws ! 15"

fun extend_schedule :: "nat \<Rightarrow> w32 list \<Rightarrow> w32 list" where
  "extend_schedule 0 ws = ws"
| "extend_schedule (Suc n) ws = extend_schedule n (schedule_word ws # ws)"

text \<open>The working variables \<open>a\<close> to \<open>h\<close>; one round per schedule word and constant.\<close>

type_synonym vars = "w32 \<times> w32 \<times> w32 \<times> w32 \<times> w32 \<times> w32 \<times> w32 \<times> w32"

fun round256 :: "w32 \<times> w32 \<Rightarrow> vars \<Rightarrow> vars" where
  "round256 (w, k) (a, b, c, d, e, f, g, h) =
    (let t1 = h + big_sigma1 e + ((e AND f) XOR (NOT e AND g)) + k + w;
         t2 = big_sigma0 a + ((a AND b) XOR (a AND c) XOR (b AND c))
     in (t1 + t2, a, b, c, d + t1, e, f, g))"

fun vars_of :: "w32 list \<Rightarrow> vars" where
  "vars_of [a, b, c, d, e, f, g, h] = (a, b, c, d, e, f, g, h)"
| "vars_of _ = (0, 0, 0, 0, 0, 0, 0, 0)"

fun list_of :: "vars \<Rightarrow> w32 list" where
  "list_of (a, b, c, d, e, f, g, h) = [a, b, c, d, e, f, g, h]"

definition compress :: "w32 list \<Rightarrow> w32 list \<Rightarrow> w32 list" where
  "compress hs block =
    (let ws = rev (extend_schedule 48 (rev block));
         v = fold round256 (zip ws K256) (vars_of hs)
     in map2 (+) hs (list_of v))"

text \<open>Padding: a byte \<open>0x80\<close>, zeros, and the length in bits as eight big-endian bytes.\<close>

fun be_bytes :: "nat \<Rightarrow> int \<Rightarrow> int list" where
  "be_bytes 0 n = []"
| "be_bytes (Suc k) n = be_bytes k (n div 256) @ [n mod 256]"

definition pad :: "string \<Rightarrow> int list" where
  "pad s = map of_char s @ [128] @ replicate ((119 - length s mod 64) mod 64) 0 @ be_bytes 8 (8 * int (length s))"

fun words_of :: "int list \<Rightarrow> w32 list" where
  "words_of (a # b # c # d # bs) = word_of_int (((a * 256 + b) * 256 + c) * 256 + d) # words_of bs"
| "words_of _ = []"

fun blocks :: "nat \<Rightarrow> w32 list \<Rightarrow> w32 list list" where
  "blocks 0 ws = []"
| "blocks (Suc n) ws = take 16 ws # blocks n (drop 16 ws)"

text \<open>\<open>sha256.Sum256\<close> and \<open>hex.EncodeToString\<close>.\<close>

definition Sum256 :: "string \<Rightarrow> string" where
  "Sum256 s =
    (let bs = pad s; hs = foldl compress H0 (blocks (length bs div 64) (words_of bs))
     in map char_of (concat (map (\<lambda>w. be_bytes 4 (uint w)) hs)))"

definition hexdigit :: "nat \<Rightarrow> char" where
  "hexdigit n = ''0123456789abcdef'' ! n"

definition EncodeToString :: "string \<Rightarrow> string" where
  "EncodeToString s = concat (map (\<lambda>c. [hexdigit (of_char c div 16), hexdigit (of_char c mod 16)]) s)"

section \<open>Lengths and alphabets\<close>

lemma be_bytes_length [simp]: "length (be_bytes k n) = k"
  by (induction k arbitrary: n) auto

lemma compress_length: "length hs = 8 \<Longrightarrow> length (compress hs b) = 8"
proof -
  assume "length hs = 8"
  moreover have "length (list_of v) = 8" for v by (induction v rule: list_of.induct) simp
  ultimately show ?thesis by (simp add: compress_def Let_def)
qed

lemma foldl_compress_length: "length hs = 8 \<Longrightarrow> length (foldl compress hs bs) = 8"
  by (induction bs arbitrary: hs) (auto simp: compress_length)

lemma length_concat_const: "(\<And>x. length (f x) = n) \<Longrightarrow> length (concat (map f xs)) = n * length xs"
  by (induction xs) auto

lemma Sum256_length [simp]: "length (Sum256 s) = 32"
  by (simp add: Sum256_def Let_def length_concat_const foldl_compress_length H0_def)

lemma EncodeToString_length [simp]: "length (EncodeToString s) = 2 * length s"
  by (simp add: EncodeToString_def length_concat_const)

definition hex_chars :: string where "hex_chars = ''0123456789abcdef''"

lemma hexdigit_chars: "n < 16 \<Longrightarrow> hexdigit n \<in> set hex_chars"
  unfolding hexdigit_def hex_chars_def by (rule nth_mem) simp

lemma nibbles: "(of_char c :: nat) div 16 < 16" "(of_char c :: nat) mod 16 < 16"
  using nat_of_char_less_256[of c] by (simp_all add: less_mult_imp_div_less)

lemma EncodeToString_chars: "set (EncodeToString s) \<subseteq> set hex_chars"
  using nibbles by (auto simp: EncodeToString_def intro!: hexdigit_chars)

text \<open>The encoding keeps all the information of the digest.\<close>

lemma hexdigit_inj: "m < 16 \<Longrightarrow> n < 16 \<Longrightarrow> hexdigit m = hexdigit n \<Longrightarrow> m = n"
  unfolding hexdigit_def by (subst (asm) nth_eq_iff_index_eq) simp_all

lemma EncodeToString_inj: "EncodeToString s = EncodeToString t \<Longrightarrow> s = t"
proof (induction s arbitrary: t)
  case Nil
  then show ?case by (cases t) (auto simp: EncodeToString_def)
next
  case (Cons c s)
  then obtain d u where t: "t = d # u" by (cases t) (auto simp: EncodeToString_def)
  have "hexdigit (of_char c div 16) = hexdigit (of_char d div 16)"
    "hexdigit (of_char c mod 16) = hexdigit (of_char d mod 16)" "EncodeToString s = EncodeToString u"
    using Cons.prems by (simp_all add: EncodeToString_def t)
  then have "(of_char c :: nat) div 16 = of_char d div 16" "(of_char c :: nat) mod 16 = of_char d mod 16" "s = u"
    using hexdigit_inj nibbles Cons.IH by auto
  then have "(of_char c :: nat) = of_char d" by (metis div_mult_mod_eq)
  then show ?case using \<open>s = u\<close> t by simp
qed

end
