(* ===== verification/Keys.thy ===== *)
theory Keys
  imports Http Sha256
begin

text \<open>
  API keys and agent identification of a request (\<open>internal/provider/provider.go\<close>): where the
  key is read from, how it is hashed, the agent headers and their removal.
\<close>

section \<open>Operations\<close>

definition ExtractAPIKey :: "request \<Rightarrow> string" where
  "ExtractAPIKey r =
    (let auth = header_Get (ReqHeader r) ''Authorization'' in
     if auth \<noteq> '''' \<and> HasPrefix auth ''Bearer '' then TrimPrefix auth ''Bearer ''
     else
       let key = header_Get (ReqHeader r) ''x-api-key'' in
       if key \<noteq> '''' then key
       else
         let key = header_Get (ReqHeader r) ''X-Goog-Api-Key'' in
         if key \<noteq> '''' then key
         else
           let key = header_Get (ReqHeader r) ''api-key'' in
           if key \<noteq> '''' then key else '''')"

definition fingerprint :: "string \<Rightarrow> string" where
  "fingerprint key = (if length key \<ge> 12 then take 8 key @ drop (length key - 4) key else key)"

definition HashAPIKey :: "string \<Rightarrow> string" where
  "HashAPIKey key = (if key = '''' then '''' else EncodeToString (take 12 (Sum256 (fingerprint key))))"

text \<open>The header first, then the query parameter.\<close>

definition header_or_query :: "request \<Rightarrow> string \<Rightarrow> string \<Rightarrow> string" where
  "header_or_query r h q =
    (let v = header_Get (ReqHeader r) h in if v = '''' then query_Get (RawQuery r) q else v)"

definition ExtractAgentHeaders :: "request \<Rightarrow> string \<times> string \<times> string \<times> string" where
  "ExtractAgentHeaders r =
    (header_or_query r ''X-Agent-Id'' ''_agent_id'',
     header_or_query r ''X-Agent-Session'' ''_agent_session'',
     header_or_query r ''X-Agent-User'' ''_agent_user'',
     header_or_query r ''X-Agent-Task'' ''_agent_task'')"

definition agent_headers :: "string list" where
  "agent_headers = [''X-Agent-Id'', ''X-Agent-Session'', ''X-Agent-User'', ''X-Agent-Task'', ''X-Agent-Session-End'']"

definition StripAgentHeaders :: "request \<Rightarrow> request" where
  "StripAgentHeaders r = r\<lparr>ReqHeader := foldl header_Del (ReqHeader r) agent_headers\<rparr>"

section \<open>Lemmas\<close>

text \<open>The header names of the program in canonical form.\<close>

lemma canonical_names [simp]:
  "CanonicalHeaderKey ''Authorization'' = ''Authorization''"
  "CanonicalHeaderKey ''x-api-key'' = ''X-Api-Key''"
  "CanonicalHeaderKey ''X-Goog-Api-Key'' = ''X-Goog-Api-Key''"
  "CanonicalHeaderKey ''api-key'' = ''Api-Key''"
  "CanonicalHeaderKey ''X-Agent-Id'' = ''X-Agent-Id''"
  "CanonicalHeaderKey ''X-Agent-Session'' = ''X-Agent-Session''"
  "CanonicalHeaderKey ''X-Agent-User'' = ''X-Agent-User''"
  "CanonicalHeaderKey ''X-Agent-Task'' = ''X-Agent-Task''"
  "CanonicalHeaderKey ''X-Agent-Session-End'' = ''X-Agent-Session-End''"
  "CanonicalHeaderKey ''X-AgentLedger-Tenant'' = ''X-Agentledger-Tenant''"
  by code_simp+

lemma HasPrefix_Bearer: "HasPrefix a ''Bearer '' \<longleftrightarrow> take 7 a = ''Bearer ''"
  by (simp add: HasPrefix_def numeral_eq_Suc)

lemma TrimPrefix_Bearer: "TrimPrefix a ''Bearer '' = (if take 7 a = ''Bearer '' then drop 7 a else a)"
  by (simp add: TrimPrefix_def HasPrefix_def numeral_eq_Suc)

lemma HashAPIKey_nonempty: "key \<noteq> '''' \<Longrightarrow> length (HashAPIKey key) = 24 \<and> set (HashAPIKey key) \<subseteq> set hex_chars"
  using EncodeToString_chars by (simp add: HashAPIKey_def)

lemma HashAPIKey_empty_iff [simp]: "HashAPIKey key = '''' \<longleftrightarrow> key = ''''"
proof
  show "HashAPIKey key = '''' \<Longrightarrow> key = ''''" using HashAPIKey_nonempty[of key] by auto
qed (simp add: HashAPIKey_def)

lemma foldl_header_Del: "foldl header_Del h ks k =
    (if k \<in> CanonicalHeaderKey ` set ks then None else h k)"
  by (induction ks arbitrary: h) (auto simp: header_Del_def)

lemma agent_headers_canonical: "CanonicalHeaderKey ` set agent_headers = set agent_headers"
  by (simp add: agent_headers_def)

lemma strip_Get:
  "header_Get (ReqHeader (StripAgentHeaders r)) k =
     (if CanonicalHeaderKey k \<in> set agent_headers then '''' else header_Get (ReqHeader r) k)"
  by (simp add: StripAgentHeaders_def header_Get_def foldl_header_Del agent_headers_canonical)

section \<open>Properties\<close>

text \<open>
  The hash of a key is empty exactly for the empty key and otherwise 24 lower-case hexadecimal
  digits, and it depends only on the key's fingerprint: any two keys of 12 bytes or more with
  the same first 8 and last 4 bytes have the same hash.
\<close>

theorem HashAPIKey_fingerprint:
  "(HashAPIKey key = '''' \<longleftrightarrow> key = '''') \<and>
   (key \<noteq> '''' \<longrightarrow> length (HashAPIKey key) = 24 \<and> set (HashAPIKey key) \<subseteq> set hex_chars) \<and>
   (length p = 8 \<and> length s = 4 \<longrightarrow> HashAPIKey (p @ m @ s) = HashAPIKey (p @ m' @ s))"
proof -
  have "HashAPIKey (p @ m @ s) = EncodeToString (take 12 (Sum256 (p @ s)))" if "length p = 8" "length s = 4" for m
    using that by (auto simp: HashAPIKey_def fingerprint_def)
  then show ?thesis using HashAPIKey_nonempty[of key] by simp
qed

theorem HashAPIKey_fingerprint_witness:
  "HashAPIKey (''sk-proj-'' @ ''alice'' @ ''1234'') = HashAPIKey (''sk-proj-'' @ ''bob'' @ ''1234'') \<and>
   length (HashAPIKey ''k'') = 24"
  using HashAPIKey_fingerprint[of "''k''" "''sk-proj-''" "''1234''" "''alice''" "''bob''"] by simp

text \<open>
  Stripping removes exactly the five agent headers, in every spelling, and nothing else of the
  request.
\<close>

theorem StripAgentHeaders_exact:
  "header_Get (ReqHeader (StripAgentHeaders r)) k =
     (if CanonicalHeaderKey k \<in> set agent_headers then '''' else header_Get (ReqHeader r) k) \<and>
   StripAgentHeaders r = r\<lparr>ReqHeader := ReqHeader (StripAgentHeaders r)\<rparr>"
  by (simp add: strip_Get) (simp add: StripAgentHeaders_def)

text \<open>
  The API key is read with the priority Bearer token, \<open>x-api-key\<close>, \<open>X-Goog-Api-Key\<close>,
  \<open>api-key\<close>, and stripping the agent headers does not change it.
\<close>

theorem ExtractAPIKey_priority:
  "ExtractAPIKey (StripAgentHeaders r) = ExtractAPIKey r \<and>
   ExtractAPIKey r =
     (let h = header_Get (ReqHeader r) in
      if HasPrefix (h ''Authorization'') ''Bearer '' then drop 7 (h ''Authorization'')
      else case filter (\<lambda>v. v \<noteq> '''') [h ''x-api-key'', h ''X-Goog-Api-Key'', h ''api-key''] of
        [] \<Rightarrow> '''' | v # _ \<Rightarrow> v)"
  by (auto simp: ExtractAPIKey_def strip_Get agent_headers_def Let_def TrimPrefix_Bearer HasPrefix_Bearer)

end
