(* ===== verification/Json.thy ===== *)
theory Json
  imports Http
begin

text \<open>
  What the program uses of \<open>encoding/json\<close>, \<open>unicode/utf8\<close> and \<open>bytes.TrimSpace\<close>: the scanner
  that \<open>json.Unmarshal\<close> runs first, on bytes, and the decoding of values into Go structs.

  A value keeps the literal text of numbers and the text between the quotes of strings, as the
  decoder does until it stores them, so that a \<open>json.RawMessage\<close> can be a value.
\<close>

named_theorems json_decode \<open>decoding of single values\<close>

section \<open>White space\<close>

text \<open>
  \<open>unicode.IsSpace\<close>: the ASCII spaces, which \<open>TrimSpace\<close> looks for first, and the encodings of
  the other ones.
\<close>

definition asciiSpace :: "char \<Rightarrow> bool" where
  "asciiSpace c \<longleftrightarrow> 9 \<le> byte c \<and> byte c \<le> 13 \<or> byte c = 32"

definition space_runes :: "nat list" where
  "space_runes = [133, 160, 5760] @ [8192..<8203] @ [8232, 8233, 8239, 8287, 12288]"

definition space_encodings :: "string list" where
  "space_encodings = map EncodeRune space_runes"

definition strip_space :: "string \<Rightarrow> string option" where
  "strip_space s =
    (case s of
       [] \<Rightarrow> None
     | c # t \<Rightarrow> if byte c < 128 then (if asciiSpace c then Some t else None)
         else map_option (\<lambda>p. drop (length p) s) (find (\<lambda>p. HasPrefix s p) space_encodings))"

definition strip_space_right :: "string \<Rightarrow> string option" where
  "strip_space_right s =
    (if s = [] then None
     else if byte (last s) < 128 then (if asciiSpace (last s) then Some (butlast s) else None)
     else map_option (\<lambda>p. take (length s - length p) s) (find (\<lambda>p. HasSuffix s p) space_encodings))"

lemma EncodeRune_nonempty [simp]: "EncodeRune r \<noteq> []"
proof -
  have "(if a then [x] else if b then [y, z] else if c then [u, v, w] else [p, q, r', s]) \<noteq> []"
    for a b c and x y z u v w p q r' s :: nat by simp
  then show ?thesis unfolding EncodeRune_def Let_def map_is_Nil_conv .
qed

lemma space_encodings_nonempty: "p \<in> set space_encodings \<Longrightarrow> p \<noteq> []"
  by (auto simp: space_encodings_def)

lemma find_space: "find P space_encodings = Some p \<Longrightarrow> 0 < length p \<and> P p"
  using space_encodings_nonempty by (auto simp: find_Some_iff)

lemma strip_space_length: "strip_space s = Some t \<Longrightarrow> length t < length s"
  by (auto simp: strip_space_def split: list.splits if_splits dest!: find_space)

lemma strip_space_right_length: "strip_space_right s = Some t \<Longrightarrow> length t < length s"
  by (auto simp: strip_space_right_def split: if_splits dest!: find_space)

function TrimLeftSpace :: "string \<Rightarrow> string" where
  "TrimLeftSpace s = (case strip_space s of None \<Rightarrow> s | Some t \<Rightarrow> TrimLeftSpace t)"
  by pat_completeness auto
termination by (relation "measure length") (auto dest: strip_space_length)

function TrimRightSpace :: "string \<Rightarrow> string" where
  "TrimRightSpace s = (case strip_space_right s of None \<Rightarrow> s | Some t \<Rightarrow> TrimRightSpace t)"
  by pat_completeness auto
termination by (relation "measure length") (auto dest: strip_space_right_length)

declare TrimLeftSpace.simps [simp del] TrimRightSpace.simps [simp del]

definition TrimSpace :: "string \<Rightarrow> string" where
  "TrimSpace s = TrimRightSpace (TrimLeftSpace s)"

section \<open>Values and the scanner\<close>

datatype json =
    JNull
  | JBool bool
  | JNum string
  | JStr string
  | JArr "json list"
  | JObj "(string \<times> json) list"

definition json_ws :: "char \<Rightarrow> bool" where
  "json_ws c \<longleftrightarrow> byte c \<in> {9, 10, 13, 32}"

definition skip_ws :: "string \<Rightarrow> string" where
  "skip_ws s = dropWhile json_ws s"

definition is_hex :: "char \<Rightarrow> bool" where
  "is_hex c \<longleftrightarrow> unhex c \<noteq> None"

definition quote_char :: char where "quote_char = CHR 34"
definition backslash :: char where "backslash = CHR 92"

text \<open>The body of a string after its opening quote, and what follows the closing one.\<close>

fun scan_string :: "string \<Rightarrow> (string \<times> string) option" where
  "scan_string [] = None"
| "scan_string (c # s) =
    (if c = quote_char then Some ([], s)
     else if c = backslash then
       (case s of
          [] \<Rightarrow> None
        | d # t \<Rightarrow>
            if d \<in> {quote_char, backslash, CHR ''/'', CHR ''b'', CHR ''f'', CHR ''n'', CHR ''r'', CHR ''t''}
            then map_option (apfst (\<lambda>b. c # d # b)) (scan_string t)
            else if d = CHR ''u'' then
              (case t of
                 h1 # h2 # h3 # h4 # u \<Rightarrow>
                   if is_hex h1 \<and> is_hex h2 \<and> is_hex h3 \<and> is_hex h4
                   then map_option (apfst (\<lambda>b. c # d # h1 # h2 # h3 # h4 # b)) (scan_string u) else None
               | _ \<Rightarrow> None)
            else None)
     else if byte c < 32 then None
     else map_option (apfst ((#) c)) (scan_string s))"

definition scan_digits :: "string \<Rightarrow> string \<times> string" where
  "scan_digits s = (takeWhile is_digit s, dropWhile is_digit s)"

text \<open>\<open>-?(0|[1-9][0-9]*)(\.[0-9]+)?([eE][+-]?[0-9]+)?\<close>, part by part.\<close>

definition scan_int :: "string \<Rightarrow> (string \<times> string) option" where
  "scan_int s =
    (case s of
       [] \<Rightarrow> None
     | c # t \<Rightarrow> if c = CHR ''0'' then Some ([c], t) else if is_digit c then Some (scan_digits s) else None)"

definition scan_frac :: "string \<Rightarrow> (string \<times> string) option" where
  "scan_frac s =
    (case s of
       c # t \<Rightarrow> if c = CHR ''.''
          then (case scan_digits t of (ds, r) \<Rightarrow> if ds = [] then None else Some (c # ds, r))
          else Some ([], s)
     | [] \<Rightarrow> Some ([], s))"

definition scan_exp :: "string \<Rightarrow> (string \<times> string) option" where
  "scan_exp s =
    (case s of
       c # t \<Rightarrow>
         if c = CHR ''e'' \<or> c = CHR ''E'' then
           (let (sg, u) = (case t of d # u \<Rightarrow> if d = CHR ''+'' \<or> d = CHR ''-'' then ([d], u) else ([], t) | [] \<Rightarrow> ([], t))
            in case scan_digits u of (ds, r) \<Rightarrow> if ds = [] then None else Some (c # sg @ ds, r))
         else Some ([], s)
     | [] \<Rightarrow> Some ([], s))"

definition scan_number :: "string \<Rightarrow> (string \<times> string) option" where
  "scan_number s =
    (let (sg, s1) = (case s of c # t \<Rightarrow> if c = CHR ''-'' then ([c], t) else ([], s) | [] \<Rightarrow> ([], s)) in
     case scan_int s1 of None \<Rightarrow> None | Some (i, s2) \<Rightarrow>
     case scan_frac s2 of None \<Rightarrow> None | Some (f, s3) \<Rightarrow>
     case scan_exp s3 of None \<Rightarrow> None | Some (e, s4) \<Rightarrow> Some (sg @ i @ f @ e, s4))"

definition maxNestingDepth :: nat where "maxNestingDepth = 10000"

text \<open>
  The scanner's states as a recursive descent. \<open>n\<close> is fuel, twice the length of the input is
  enough (\<open>Json_fuel\<close>); \<open>d\<close> is the nesting depth.
\<close>

fun parse_value :: "nat \<Rightarrow> nat \<Rightarrow> string \<Rightarrow> (json \<times> string) option"
  and parse_elems :: "nat \<Rightarrow> nat \<Rightarrow> string \<Rightarrow> (json list \<times> string) option"
  and parse_members :: "nat \<Rightarrow> nat \<Rightarrow> string \<Rightarrow> ((string \<times> json) list \<times> string) option" where
  "parse_value 0 d s = None"
| "parse_value (Suc n) d s =
    (case s of
       [] \<Rightarrow> None
     | c # t \<Rightarrow>
         if c = CHR ''{'' then
           (if maxNestingDepth \<le> d then None
            else case skip_ws t of
                [] \<Rightarrow> None
              | e # u \<Rightarrow> if e = CHR ''}'' then Some (JObj [], u)
                  else map_option (apfst JObj) (parse_members n (Suc d) (e # u)))
         else if c = CHR ''['' then
           (if maxNestingDepth \<le> d then None
            else case skip_ws t of
                [] \<Rightarrow> None
              | e # u \<Rightarrow> if e = CHR '']'' then Some (JArr [], u)
                  else map_option (apfst JArr) (parse_elems n (Suc d) (e # u)))
         else if c = quote_char then map_option (apfst JStr) (scan_string t)
         else if c = CHR ''t'' then (if HasPrefix t ''rue'' then Some (JBool True, drop 3 t) else None)
         else if c = CHR ''f'' then (if HasPrefix t ''alse'' then Some (JBool False, drop 4 t) else None)
         else if c = CHR ''n'' then (if HasPrefix t ''ull'' then Some (JNull, drop 3 t) else None)
         else map_option (apfst JNum) (scan_number s))"
| "parse_elems 0 d s = None"
| "parse_elems (Suc n) d s =
    (case parse_value n d s of
       None \<Rightarrow> None
     | Some (v, r) \<Rightarrow>
         (case skip_ws r of
            [] \<Rightarrow> None
          | c # t \<Rightarrow> if c = CHR '']'' then Some ([v], t)
              else if c = CHR '','' then map_option (apfst ((#) v)) (parse_elems n d (skip_ws t))
              else None))"
| "parse_members 0 d s = None"
| "parse_members (Suc n) d s =
    (case s of
       [] \<Rightarrow> None
     | q # s1 \<Rightarrow>
         if q \<noteq> quote_char then None
         else case scan_string s1 of None \<Rightarrow> None | Some (k, s2) \<Rightarrow>
           (case skip_ws s2 of
              [] \<Rightarrow> None
            | c # s3 \<Rightarrow>
                if c \<noteq> CHR '':'' then None
                else case parse_value n d (skip_ws s3) of None \<Rightarrow> None | Some (v, r) \<Rightarrow>
                  (case skip_ws r of
                     [] \<Rightarrow> None
                   | e # t \<Rightarrow> if e = CHR ''}'' then Some ([(k, v)], t)
                       else if e = CHR '','' then map_option (apfst ((#) (k, v))) (parse_members n d (skip_ws t))
                       else None)))"

declare parse_value.simps [simp del] parse_elems.simps [simp del] parse_members.simps [simp del]

definition parse_json :: "string \<Rightarrow> json option" where
  "parse_json s =
    (case parse_value (2 * length s + 2) 0 (skip_ws s) of
       Some (v, r) \<Rightarrow> if skip_ws r = [] then Some v else None
     | None \<Rightarrow> None)"

section \<open>Strings and integers of the decoder\<close>

definition u4 :: "string \<Rightarrow> nat option" where
  "u4 s =
    (case s of
       h1 # h2 # h3 # h4 # _ \<Rightarrow>
         (case (unhex h1, unhex h2, unhex h3, unhex h4) of
            (Some a, Some b, Some c, Some d) \<Rightarrow> Some (((a * 16 + b) * 16 + c) * 16 + d)
          | _ \<Rightarrow> None)
     | _ \<Rightarrow> None)"

text \<open>\<open>getu4\<close>: a whole \<open>\uXXXX\<close> escape.\<close>

definition getu4 :: "string \<Rightarrow> nat option" where
  "getu4 s = (case s of b # u # t \<Rightarrow> if b = backslash \<and> u = CHR ''u'' then u4 t else None | _ \<Rightarrow> None)"

definition unescape :: "char \<Rightarrow> char" where
  "unescape d =
    (if d = CHR ''b'' then char_of (8 :: nat) else if d = CHR ''f'' then char_of (12 :: nat)
     else if d = CHR ''n'' then char_of (10 :: nat) else if d = CHR ''r'' then char_of (13 :: nat)
     else if d = CHR ''t'' then char_of (9 :: nat) else d)"

text \<open>\<open>unquoteBytes\<close> on the body of a scanned string.\<close>

function unquote :: "string \<Rightarrow> string" where
  "unquote s =
    (case s of
       [] \<Rightarrow> []
     | c # t \<Rightarrow>
         if c = backslash then
           (case t of
              [] \<Rightarrow> []
            | d # u \<Rightarrow>
                if d = CHR ''u'' then
                  (case u4 u of
                     None \<Rightarrow> []
                   | Some r \<Rightarrow>
                       let v = drop 4 u in
                       if 55296 \<le> r \<and> r < 57344 then
                         (case getu4 v of
                            Some r1 \<Rightarrow>
                              if r < 56320 \<and> 56320 \<le> r1 \<and> r1 < 57344
                              then EncodeRune ((r - 55296) * 1024 + (r1 - 56320) + 65536) @ unquote (drop 6 v)
                              else EncodeRune RuneError @ unquote v
                          | None \<Rightarrow> EncodeRune RuneError @ unquote v)
                       else EncodeRune r @ unquote v)
                else unescape d # unquote u)
         else if byte c < 128 then c # unquote t
         else (case DecodeRune s of (r, w) \<Rightarrow> EncodeRune r @ unquote (drop (max 1 w) s)))"
  by pat_completeness auto
termination by (relation "measure length") auto

declare unquote.simps [simp del]

definition digit_val :: "char \<Rightarrow> int" where
  "digit_val c = int (byte c) - 48"

definition decimal :: "string \<Rightarrow> int" where
  "decimal s = foldl (\<lambda>n c. n * 10 + digit_val c) 0 s"

text \<open>\<open>strconv.ParseInt(literal, 10, 64)\<close> on a number literal.\<close>

definition ParseInt :: "string \<Rightarrow> int option" where
  "ParseInt lit =
    (let (neg, ds) = (case lit of c # t \<Rightarrow> if c = CHR ''-'' then (True, t) else (False, lit) | [] \<Rightarrow> (False, lit)) in
     if ds = [] \<or> \<not> list_all is_digit ds then None
     else let n = (if neg then - decimal ds else decimal ds) in if in_i64 n then Some n else None)"

section \<open>Decoding into structs\<close>

text \<open>
  A decoder stores a value into an existing one; \<open>None\<close> is an error, after which the callers use
  nothing of the result. \<open>null\<close> leaves everything but pointers and slices as it is.
\<close>

type_synonym 'a decoder = "json \<Rightarrow> 'a \<Rightarrow> 'a option"

definition decode_string :: "string decoder" where
  "decode_string j old = (case j of JNull \<Rightarrow> Some old | JStr raw \<Rightarrow> Some (unquote raw) | _ \<Rightarrow> None)"

definition decode_int :: "int decoder" where
  "decode_int j old = (case j of JNull \<Rightarrow> Some old | JNum lit \<Rightarrow> ParseInt lit | _ \<Rightarrow> None)"

definition decode_bool :: "bool decoder" where
  "decode_bool j old = (case j of JNull \<Rightarrow> Some old | JBool b \<Rightarrow> Some b | _ \<Rightarrow> None)"

definition decode_raw :: "json option decoder" where
  "decode_raw j old = Some (Some j)"

text \<open>A pointer: \<open>null\<close> resets it, anything else is decoded into what it points to or a zero value.\<close>

definition decode_ptr :: "'a \<Rightarrow> 'a decoder \<Rightarrow> 'a option decoder" where
  "decode_ptr zero dec j old =
    (case j of JNull \<Rightarrow> Some None
     | _ \<Rightarrow> map_option Some (dec j (case old of None \<Rightarrow> zero | Some x \<Rightarrow> x)))"

text \<open>
  A slice: its length and its backing array, into whose elements a repeated key decodes.
\<close>

type_synonym 'a slice = "nat \<times> 'a list"

definition elements :: "'a slice \<Rightarrow> 'a list" where
  "elements s = take (fst s) (snd s)"

fun decode_items :: "'a \<Rightarrow> 'a decoder \<Rightarrow> json list \<Rightarrow> 'a list \<Rightarrow> 'a list option" where
  "decode_items zero dec [] old = Some old"
| "decode_items zero dec (j # js) old =
    (case dec j (case old of [] \<Rightarrow> zero | x # _ \<Rightarrow> x) of
       None \<Rightarrow> None
     | Some y \<Rightarrow> map_option ((#) y) (decode_items zero dec js (tl old)))"

definition decode_slice :: "'a \<Rightarrow> 'a decoder \<Rightarrow> 'a slice decoder" where
  "decode_slice zero dec j old =
    (case j of
       JNull \<Rightarrow> Some (0, [])
     | JArr js \<Rightarrow> if js = [] then Some (0, [])
         else map_option (\<lambda>xs. (length js, xs)) (decode_items zero dec js (snd old))
     | _ \<Rightarrow> None)"

text \<open>
  Field names match exactly or else under case folding, which maps the long s and the Kelvin sign
  to ASCII letters and no other rune beyond ASCII.
\<close>

fun fold_name :: "string \<Rightarrow> string" where
  "fold_name [] = []"
| "fold_name [c] = [to_upper c]"
| "fold_name (c # d # s) =
    (if byte c = 197 \<and> byte d = 191 then CHR ''S'' # fold_name s
     else if byte c = 226 \<and> byte d = 132 \<and> s \<noteq> [] \<and> byte (hd s) = 170 then CHR ''K'' # fold_name (tl s)
     else to_upper c # fold_name (d # s))"

type_synonym 'a fields = "(string \<times> 'a decoder) list"

definition find_field :: "'a fields \<Rightarrow> string \<Rightarrow> 'a decoder option" where
  "find_field fs key =
    (case map_of fs key of
       Some f \<Rightarrow> Some f
     | None \<Rightarrow> map_option snd (find (\<lambda>(k, _). fold_name k = fold_name key) fs))"

fun decode_members :: "'a fields \<Rightarrow> (string \<times> json) list \<Rightarrow> 'a \<Rightarrow> 'a option" where
  "decode_members fs [] x = Some x"
| "decode_members fs ((k, v) # ms) x =
    (case find_field fs (unquote k) of
       None \<Rightarrow> decode_members fs ms x
     | Some f \<Rightarrow> (case f v x of None \<Rightarrow> None | Some y \<Rightarrow> decode_members fs ms y))"

definition decode_struct :: "'a fields \<Rightarrow> 'a decoder" where
  "decode_struct fs j x = (case j of JNull \<Rightarrow> Some x | JObj ms \<Rightarrow> decode_members fs ms x | _ \<Rightarrow> None)"

text \<open>A field of a record, by its selector and its update.\<close>

definition field :: "('a \<Rightarrow> 'b) \<Rightarrow> (('b \<Rightarrow> 'b) \<Rightarrow> 'a \<Rightarrow> 'a) \<Rightarrow> 'b decoder \<Rightarrow> 'a decoder" where
  "field get upd dec j x = map_option (\<lambda>v. upd (\<lambda>_. v) x) (dec j (get x))"

text \<open>\<open>json.Unmarshal(data, &x)\<close>, with \<open>x\<close> zero before: \<open>None\<close> for an error.\<close>

definition Unmarshal :: "'a decoder \<Rightarrow> 'a \<Rightarrow> string \<Rightarrow> 'a option" where
  "Unmarshal dec zero data = (case parse_json data of None \<Rightarrow> None | Some j \<Rightarrow> dec j zero)"

section \<open>The scanner consumes its input and needs no more fuel\<close>

lemma skip_ws_length: "length (skip_ws s) \<le> length s"
  by (simp add: skip_ws_def length_dropWhile_le)

lemma skip_ws_Cons: "skip_ws s = c # t \<Longrightarrow> length t < length s"
  using skip_ws_length[of s] by auto

lemma scan_string_length: "scan_string s = Some (b, r) \<Longrightarrow> length r < length s"
proof (induction s arbitrary: b r rule: length_induct)
  case (1 s)
  then have IH: "\<And>t b r. length t < length s \<Longrightarrow> scan_string t = Some (b, r) \<Longrightarrow> length r < length t" by blast
  show ?case using 1(2)
    by (cases s) (auto split: if_splits list.splits dest!: IH[rotated])
qed

lemma scan_digits_length: "scan_digits s = (a, r) \<Longrightarrow> length r \<le> length s"
  by (auto simp: scan_digits_def length_dropWhile_le)

lemma scan_int_length: "scan_int s = Some (a, r) \<Longrightarrow> length r < length s"
  by (auto simp: scan_int_def scan_digits_def less_Suc_eq_le length_dropWhile_le split: list.splits if_splits)

lemma scan_frac_length: "scan_frac s = Some (a, r) \<Longrightarrow> length r \<le> length s"
  using scan_digits_length by (fastforce simp: scan_frac_def split: list.splits if_splits prod.splits)

lemma scan_exp_length: "scan_exp s = Some (a, r) \<Longrightarrow> length r \<le> length s"
  using scan_digits_length by (fastforce simp: scan_exp_def split: list.splits if_splits prod.splits)

lemma scan_number_length: "scan_number s = Some (a, r) \<Longrightarrow> length r < length s"
  by (fastforce simp: scan_number_def split: list.splits if_splits prod.splits option.splits
      dest!: scan_int_length scan_frac_length scan_exp_length)

lemma parse_elems_SucE:
  assumes "parse_elems (Suc n) d s = Some (vs, r)"
  obtains v r1 c t where "parse_value n d s = Some (v, r1)" "skip_ws r1 = c # t"
    "c = CHR '']'' \<and> vs = [v] \<and> r = t \<or>
     c = CHR '','' \<and> (\<exists>vs'. parse_elems n d (skip_ws t) = Some (vs', r) \<and> vs = v # vs')"
  using assms by (auto simp: parse_elems.simps split: list.splits if_splits option.splits)

lemma parse_members_SucE:
  assumes "parse_members (Suc n) d s = Some (ms, r)"
  obtains s1 k s2 s3 v r1 c t where "s = quote_char # s1" "scan_string s1 = Some (k, s2)"
    "skip_ws s2 = CHR '':'' # s3" "parse_value n d (skip_ws s3) = Some (v, r1)" "skip_ws r1 = c # t"
    "c = CHR ''}'' \<and> ms = [(k, v)] \<and> r = t \<or>
     c = CHR '','' \<and> (\<exists>ms'. parse_members n d (skip_ws t) = Some (ms', r) \<and> ms = (k, v) # ms')"
  using assms by (simp add: parse_members.simps split: list.splits if_splits option.splits prod.splits) blast+

lemma parse_length_all:
  "(\<forall>d s v r. parse_value n d s = Some (v, r) \<longrightarrow> length r < length s) \<and>
   (\<forall>d s v r. parse_elems n d s = Some (v, r) \<longrightarrow> length r < length s) \<and>
   (\<forall>d s v r. parse_members n d s = Some (v, r) \<longrightarrow> length r < length s)"
proof (induction n)
  case 0
  then show ?case by (simp add: parse_value.simps parse_elems.simps parse_members.simps)
next
  case (Suc n)
  then have V: "\<And>d s v r. parse_value n d s = Some (v, r) \<Longrightarrow> length r < length s"
    and E: "\<And>d s v r. parse_elems n d s = Some (v, r) \<Longrightarrow> length r < length s"
    and M: "\<And>d s v r. parse_members n d s = Some (v, r) \<Longrightarrow> length r < length s" by blast+
  have "length r < length s" if "parse_value (Suc n) d s = Some (v, r)" for d s v r
    using that
    by (auto simp: parse_value.simps split: list.splits if_splits
        dest!: E M skip_ws_Cons scan_string_length scan_number_length)
  moreover have "length r < length s" if "parse_elems (Suc n) d s = Some (v, r)" for d s v r
    using that
  proof (cases rule: parse_elems_SucE)
    case (1 v r1 c t)
    then show ?thesis using V[OF 1(1)] skip_ws_Cons[OF 1(2)] skip_ws_length[of t] E[of d "skip_ws t"] by fastforce
  qed
  moreover have "length r < length s" if "parse_members (Suc n) d s = Some (v, r)" for d s v r
    using that
  proof (cases rule: parse_members_SucE)
    case (1 s1 k s2 s3 v r1 c t)
    then show ?thesis
      using V[OF 1(4)] skip_ws_Cons[OF 1(5)] skip_ws_length[of t] skip_ws_Cons[OF 1(3)] skip_ws_length[of s3]
        scan_string_length[OF 1(2)] M[of d "skip_ws t"] by fastforce
  qed
  ultimately show ?case by blast
qed

lemma parse_length:
  "parse_value n d s = Some (v, r) \<Longrightarrow> length r < length s"
  "parse_elems n d s = Some (vs, r) \<Longrightarrow> length r < length s"
  "parse_members n d s = Some (ms, r) \<Longrightarrow> length r < length s"
  using parse_length_all[of n] by blast+

lemma parse_fuel_step:
  "(\<forall>d s. 2 * length s + 1 \<le> n \<longrightarrow> parse_value (Suc n) d s = parse_value n d s) \<and>
   (\<forall>d s. 2 * length s + 2 \<le> n \<longrightarrow> parse_elems (Suc n) d s = parse_elems n d s) \<and>
   (\<forall>d s. 2 * length s + 2 \<le> n \<longrightarrow> parse_members (Suc n) d s = parse_members n d s)"
proof (induction n)
  case (Suc n)
  then have V: "\<And>d s. 2 * length s + 1 \<le> n \<Longrightarrow> parse_value (Suc n) d s = parse_value n d s"
    and E: "\<And>d s. 2 * length s + 2 \<le> n \<Longrightarrow> parse_elems (Suc n) d s = parse_elems n d s"
    and M: "\<And>d s. 2 * length s + 2 \<le> n \<Longrightarrow> parse_members (Suc n) d s = parse_members n d s" by blast+
  have "parse_value (Suc (Suc n)) d s = parse_value (Suc n) d s" if "2 * length s + 1 \<le> Suc n" for d s
  proof -
    have "parse_members (Suc n) (Suc d) (e # u) = parse_members n (Suc d) (e # u)"
      "parse_elems (Suc n) (Suc d) (e # u) = parse_elems n (Suc d) (e # u)"
      if "s = c # t" "skip_ws t = e # u" for c t e u
      using that \<open>2 * length s + 1 \<le> Suc n\<close> skip_ws_Cons[OF that(2)] by (auto intro!: E M)
    then show ?thesis by (simp add: parse_value.simps(2) split: list.split)
  qed
  moreover have "parse_elems (Suc (Suc n)) d s = parse_elems (Suc n) d s" if "2 * length s + 2 \<le> Suc n" for d s
  proof -
    have "parse_value (Suc n) d s = parse_value n d s" using that by (intro V) simp
    moreover have "parse_elems (Suc n) d (skip_ws t) = parse_elems n d (skip_ws t)"
      if "parse_value n d s = Some (v, r)" "skip_ws r = c # t" for v r c t
      using that parse_length(1)[OF that(1)] skip_ws_Cons[OF that(2)] skip_ws_length[of t]
        \<open>2 * length s + 2 \<le> Suc n\<close> by (intro E) simp
    ultimately show ?thesis
      by (subst parse_elems.simps(2), subst parse_elems.simps(2)) (auto split: option.splits list.splits)
  qed
  moreover have "parse_members (Suc (Suc n)) d s = parse_members (Suc n) d s" if "2 * length s + 2 \<le> Suc n" for d s
  proof -
    have "parse_value (Suc n) d (skip_ws s3) = parse_value n d (skip_ws s3)"
      if "s = q # s1" "scan_string s1 = Some (k, s2)" "skip_ws s2 = c # s3" for q s1 k s2 c s3
      using that scan_string_length[OF that(2)] skip_ws_Cons[OF that(3)] skip_ws_length[of s3]
        \<open>2 * length s + 2 \<le> Suc n\<close> by (intro V) simp
    moreover have "parse_members (Suc n) d (skip_ws t) = parse_members n d (skip_ws t)"
      if "s = q # s1" "scan_string s1 = Some (k, s2)" "skip_ws s2 = c # s3"
        "parse_value n d (skip_ws s3) = Some (v, r)" "skip_ws r = e # t" for q s1 k s2 c s3 v r e t
      using that scan_string_length[OF that(2)] skip_ws_Cons[OF that(3)] skip_ws_length[of s3]
        parse_length(1)[OF that(4)] skip_ws_Cons[OF that(5)] skip_ws_length[of t]
        \<open>2 * length s + 2 \<le> Suc n\<close> by (intro M) simp
    ultimately show ?thesis
      by (subst parse_members.simps(2), subst parse_members.simps(2)) (simp split: option.split list.split)
  qed
  ultimately show ?case by blast
qed simp

lemma Json_fuel:
  assumes "2 * length s + 2 \<le> n"
  shows "parse_value n d s = parse_value (2 * length s + 2) d s"
  using assms
proof (induction n rule: dec_induct)
  case (step m)
  have "parse_value (Suc m) d s = parse_value m d s" using step(1) parse_fuel_step[of m] by auto
  then show ?case using step by simp
qed simp

end
