(* ===== verification/Provider.thy ===== *)
theory Provider
  imports Keys Json "HOL-Library.Multiset"
begin

text \<open>
  The providers (\<open>internal/provider\<close>): which requests each handles, the path it forwards, what
  it reads from request, response and stream bodies, and the registry that picks one. The JSON
  structs of the source are records, with the decoder of every field in source order.
\<close>

section \<open>Metadata\<close>

record RequestMeta =
  rq_Model :: string
  rq_MaxTokens :: int
  rq_Stream :: bool

record ResponseMeta =
  rs_Model :: string
  rs_InputTokens :: int
  rs_OutputTokens :: int
  rs_TotalTokens :: int

record StreamChunkMeta =
  sc_Model :: string
  sc_InputTokens :: int
  sc_OutputTokens :: int
  sc_Text :: string
  sc_Done :: bool

definition no_chunk :: StreamChunkMeta where
  "no_chunk = \<lparr>sc_Model = '''', sc_InputTokens = 0, sc_OutputTokens = 0, sc_Text = '''', sc_Done = False\<rparr>"

section \<open>OpenAI-compatible APIs\<close>

record OpenAICompatible =
  oc_name :: string
  oc_upstream :: string
  oc_pathPrefix :: string

definition NewOpenAICompatible :: "string \<Rightarrow> string \<Rightarrow> string \<Rightarrow> OpenAICompatible" where
  "NewOpenAICompatible name upstream pathPrefix =
    \<lparr>oc_name = name, oc_upstream = upstream, oc_pathPrefix = pathPrefix\<rparr>"

definition oc_Match :: "OpenAICompatible \<Rightarrow> request \<Rightarrow> bool" where
  "oc_Match oc r \<longleftrightarrow>
    (let p = Path r; prefix = oc_pathPrefix oc in
     HasPrefix p (prefix @ ''/v1/chat/'') \<or>
     HasPrefix p (prefix @ ''/v1/completions'') \<or>
     HasPrefix p (prefix @ ''/v1/embeddings'') \<or>
     HasPrefix p (prefix @ ''/v1/models'') \<or>
     HasPrefix p (prefix @ ''/v1/responses''))"

definition oc_RewritePath :: "OpenAICompatible \<Rightarrow> string \<Rightarrow> string" where
  "oc_RewritePath oc path = (if oc_pathPrefix oc = '''' then path else TrimPrefix path (oc_pathPrefix oc))"

record openaiCompatRequest =
  or_Model :: string
  or_MaxTokens :: int
  or_MaxOutputTokens :: int
  or_Stream :: bool

definition openaiCompatRequest_fields :: "openaiCompatRequest fields" where
  "openaiCompatRequest_fields = [
    (''model'', field or_Model or_Model_update decode_string),
    (''max_tokens'', field or_MaxTokens or_MaxTokens_update decode_int),
    (''max_output_tokens'', field or_MaxOutputTokens or_MaxOutputTokens_update decode_int),
    (''stream'', field or_Stream or_Stream_update decode_bool)]"

definition oc_ParseRequest :: "string \<Rightarrow> RequestMeta option" where
  "oc_ParseRequest body =
    (case Unmarshal (decode_struct openaiCompatRequest_fields)
        \<lparr>or_Model = '''', or_MaxTokens = 0, or_MaxOutputTokens = 0, or_Stream = False\<rparr> body of
       None \<Rightarrow> None
     | Some req \<Rightarrow>
         let maxTokens = (if or_MaxOutputTokens req > 0 then or_MaxOutputTokens req else or_MaxTokens req)
         in Some \<lparr>rq_Model = or_Model req, rq_MaxTokens = maxTokens, rq_Stream = or_Stream req\<rparr>)"

record openaiUsage =
  ou_PromptTokens :: int
  ou_CompletionTokens :: int
  ou_InputTokens :: int
  ou_OutputTokens :: int
  ou_TotalTokens :: int

definition no_openaiUsage :: openaiUsage where
  "no_openaiUsage = \<lparr>ou_PromptTokens = 0, ou_CompletionTokens = 0, ou_InputTokens = 0, ou_OutputTokens = 0, ou_TotalTokens = 0\<rparr>"

definition openaiUsage_fields :: "openaiUsage fields" where
  "openaiUsage_fields = [
    (''prompt_tokens'', field ou_PromptTokens ou_PromptTokens_update decode_int),
    (''completion_tokens'', field ou_CompletionTokens ou_CompletionTokens_update decode_int),
    (''input_tokens'', field ou_InputTokens ou_InputTokens_update decode_int),
    (''output_tokens'', field ou_OutputTokens ou_OutputTokens_update decode_int),
    (''total_tokens'', field ou_TotalTokens ou_TotalTokens_update decode_int)]"

record openaiCompatResponse =
  op_Model :: string
  op_Usage :: openaiUsage

definition openaiCompatResponse_fields :: "openaiCompatResponse fields" where
  "openaiCompatResponse_fields = [
    (''model'', field op_Model op_Model_update decode_string),
    (''usage'', field op_Usage op_Usage_update (decode_struct openaiUsage_fields))]"

definition oc_ParseResponse :: "string \<Rightarrow> ResponseMeta option" where
  "oc_ParseResponse body =
    (case Unmarshal (decode_struct openaiCompatResponse_fields) \<lparr>op_Model = '''', op_Usage = no_openaiUsage\<rparr> body of
       None \<Rightarrow> None
     | Some resp \<Rightarrow>
         let u = op_Usage resp;
             inputTokens = (if ou_InputTokens u > 0 then ou_InputTokens u else ou_PromptTokens u);
             outputTokens = (if ou_OutputTokens u > 0 then ou_OutputTokens u else ou_CompletionTokens u)
         in Some \<lparr>rs_Model = op_Model resp, rs_InputTokens = inputTokens, rs_OutputTokens = outputTokens,
                  rs_TotalTokens = ou_TotalTokens u\<rparr>)"

text \<open>A choice of a chunk is its \<open>delta.content\<close>.\<close>

record chunkDelta =
  cd_Content :: string

record chunkChoice =
  cc_Delta :: chunkDelta

definition no_choice :: chunkChoice where
  "no_choice = \<lparr>cc_Delta = \<lparr>cd_Content = ''''\<rparr>\<rparr>"

definition chunkChoice_fields :: "chunkChoice fields" where
  "chunkChoice_fields = [
    (''delta'', field cc_Delta cc_Delta_update
       (decode_struct [(''content'', field cd_Content cd_Content_update decode_string)]))]"

record responsesUsage =
  ru_InputTokens :: int
  ru_OutputTokens :: int
  ru_TotalTokens :: int

definition no_responsesUsage :: responsesUsage where
  "no_responsesUsage = \<lparr>ru_InputTokens = 0, ru_OutputTokens = 0, ru_TotalTokens = 0\<rparr>"

definition responsesUsage_fields :: "responsesUsage fields" where
  "responsesUsage_fields = [
    (''input_tokens'', field ru_InputTokens ru_InputTokens_update decode_int),
    (''output_tokens'', field ru_OutputTokens ru_OutputTokens_update decode_int),
    (''total_tokens'', field ru_TotalTokens ru_TotalTokens_update decode_int)]"

record responsesObject =
  ro_Model :: string
  ro_Usage :: "responsesUsage option"

definition responsesObject_fields :: "responsesObject fields" where
  "responsesObject_fields = [
    (''model'', field ro_Model ro_Model_update decode_string),
    (''usage'', field ro_Usage ro_Usage_update (decode_ptr no_responsesUsage (decode_struct responsesUsage_fields)))]"

record openaiCompatStreamChunk =
  oh_Model :: string
  oh_Choices :: "chunkChoice slice"
  oh_Usage :: "openaiUsage option"
  oh_Type :: string
  oh_Response :: "responsesObject option"

definition openaiCompatStreamChunk_fields :: "openaiCompatStreamChunk fields" where
  "openaiCompatStreamChunk_fields = [
    (''model'', field oh_Model oh_Model_update decode_string),
    (''choices'', field oh_Choices oh_Choices_update (decode_slice no_choice (decode_struct chunkChoice_fields))),
    (''usage'', field oh_Usage oh_Usage_update (decode_ptr no_openaiUsage (decode_struct openaiUsage_fields))),
    (''type'', field oh_Type oh_Type_update decode_string),
    (''response'', field oh_Response oh_Response_update
       (decode_ptr \<lparr>ro_Model = '''', ro_Usage = None\<rparr> (decode_struct responsesObject_fields)))]"

definition first_content :: "chunkChoice slice \<Rightarrow> string" where
  "first_content cs = (case elements cs of [] \<Rightarrow> '''' | c # _ \<Rightarrow> cd_Content (cc_Delta c))"

definition oc_ParseStreamChunk :: "string \<Rightarrow> string \<Rightarrow> StreamChunkMeta option" where
  "oc_ParseStreamChunk eventType data =
    (case Unmarshal (decode_struct openaiCompatStreamChunk_fields)
        \<lparr>oh_Model = '''', oh_Choices = (0, []), oh_Usage = None, oh_Type = '''', oh_Response = None\<rparr> data of
       None \<Rightarrow> None
     | Some chunk \<Rightarrow>
         let meta = no_chunk\<lparr>sc_Model := oh_Model chunk, sc_Text := first_content (oh_Choices chunk)\<rparr>;
             meta = (case oh_Usage chunk of
                 None \<Rightarrow> meta
               | Some u \<Rightarrow> meta\<lparr>
                   sc_InputTokens := (if ou_InputTokens u > 0 then ou_InputTokens u else ou_PromptTokens u),
                   sc_OutputTokens := (if ou_OutputTokens u > 0 then ou_OutputTokens u else ou_CompletionTokens u),
                   sc_Done := True\<rparr>)
         in if oh_Type chunk = ''response.completed'' then
              (case oh_Response chunk of
                 None \<Rightarrow> Some meta
               | Some r \<Rightarrow>
                   let meta = (if ro_Model r \<noteq> '''' then meta\<lparr>sc_Model := ro_Model r\<rparr> else meta) in
                   (case ro_Usage r of
                      None \<Rightarrow> Some meta
                    | Some u \<Rightarrow> Some (meta\<lparr>sc_InputTokens := ru_InputTokens u, sc_OutputTokens := ru_OutputTokens u,
                        sc_Done := True\<rparr>)))
            else Some meta)"

section \<open>Anthropic\<close>

record Anthropic =
  an_upstream :: string

definition NewAnthropic :: "string \<Rightarrow> Anthropic" where
  "NewAnthropic upstream = \<lparr>an_upstream = upstream\<rparr>"

definition an_Match :: "Anthropic \<Rightarrow> request \<Rightarrow> bool" where
  "an_Match a r \<longleftrightarrow>
    (if HasPrefix (Path r) ''/v1/messages''
     then header_Get (ReqHeader r) ''anthropic-version'' \<noteq> '''' \<or> header_Get (ReqHeader r) ''x-api-key'' \<noteq> ''''
     else False)"

record anthropicRequest =
  ar_Model :: string
  ar_MaxTokens :: int
  ar_Stream :: bool

definition anthropicRequest_fields :: "anthropicRequest fields" where
  "anthropicRequest_fields = [
    (''model'', field ar_Model ar_Model_update decode_string),
    (''max_tokens'', field ar_MaxTokens ar_MaxTokens_update decode_int),
    (''stream'', field ar_Stream ar_Stream_update decode_bool)]"

definition an_ParseRequest :: "string \<Rightarrow> RequestMeta option" where
  "an_ParseRequest body =
    (case Unmarshal (decode_struct anthropicRequest_fields) \<lparr>ar_Model = '''', ar_MaxTokens = 0, ar_Stream = False\<rparr> body of
       None \<Rightarrow> None
     | Some req \<Rightarrow> Some \<lparr>rq_Model = ar_Model req, rq_MaxTokens = ar_MaxTokens req, rq_Stream = ar_Stream req\<rparr>)"

text \<open>The structs of two token counts that Anthropic and Cohere use.\<close>

record tokenPair =
  tk_InputTokens :: int
  tk_OutputTokens :: int

definition no_tokens :: tokenPair where
  "no_tokens = \<lparr>tk_InputTokens = 0, tk_OutputTokens = 0\<rparr>"

definition tokenPair_fields :: "tokenPair fields" where
  "tokenPair_fields = [
    (''input_tokens'', field tk_InputTokens tk_InputTokens_update decode_int),
    (''output_tokens'', field tk_OutputTokens tk_OutputTokens_update decode_int)]"

record anthropicResponse =
  ap_Model :: string
  ap_Usage :: tokenPair

definition anthropicResponse_fields :: "anthropicResponse fields" where
  "anthropicResponse_fields = [
    (''model'', field ap_Model ap_Model_update decode_string),
    (''usage'', field ap_Usage ap_Usage_update (decode_struct tokenPair_fields))]"

definition an_ParseResponse :: "string \<Rightarrow> ResponseMeta option" where
  "an_ParseResponse body =
    (case Unmarshal (decode_struct anthropicResponse_fields) \<lparr>ap_Model = '''', ap_Usage = no_tokens\<rparr> body of
       None \<Rightarrow> None
     | Some resp \<Rightarrow> Some \<lparr>rs_Model = ap_Model resp,
         rs_InputTokens = tk_InputTokens (ap_Usage resp), rs_OutputTokens = tk_OutputTokens (ap_Usage resp),
         rs_TotalTokens = i64 (tk_InputTokens (ap_Usage resp) + tk_OutputTokens (ap_Usage resp))\<rparr>)"

record anthropicMessage =
  am_Model :: string
  am_Usage :: "tokenPair option"

record anthropicDelta =
  ad_Type :: string
  ad_Text :: string

record anthropicDeltaUsage =
  au_OutputTokens :: int

record anthropicStreamEvent =
  ae_Type :: string
  ae_Message :: "anthropicMessage option"
  ae_Delta :: "anthropicDelta option"
  ae_Usage :: "anthropicDeltaUsage option"

definition anthropicStreamEvent_fields :: "anthropicStreamEvent fields" where
  "anthropicStreamEvent_fields = [
    (''type'', field ae_Type ae_Type_update decode_string),
    (''message'', field ae_Message ae_Message_update (decode_ptr \<lparr>am_Model = '''', am_Usage = None\<rparr> (decode_struct [
       (''model'', field am_Model am_Model_update decode_string),
       (''usage'', field am_Usage am_Usage_update (decode_ptr no_tokens (decode_struct tokenPair_fields)))]))),
    (''delta'', field ae_Delta ae_Delta_update (decode_ptr \<lparr>ad_Type = '''', ad_Text = ''''\<rparr> (decode_struct [
       (''type'', field ad_Type ad_Type_update decode_string),
       (''text'', field ad_Text ad_Text_update decode_string)]))),
    (''usage'', field ae_Usage ae_Usage_update (decode_ptr \<lparr>au_OutputTokens = 0\<rparr> (decode_struct [
       (''output_tokens'', field au_OutputTokens au_OutputTokens_update decode_int)])))]"

definition an_ParseStreamChunk :: "string \<Rightarrow> string \<Rightarrow> StreamChunkMeta option" where
  "an_ParseStreamChunk eventType data =
    (case Unmarshal (decode_struct anthropicStreamEvent_fields)
        \<lparr>ae_Type = '''', ae_Message = None, ae_Delta = None, ae_Usage = None\<rparr> data of
       None \<Rightarrow> None
     | Some event \<Rightarrow>
         Some (if eventType = ''message_start'' then
             (case ae_Message event of
                None \<Rightarrow> no_chunk
              | Some m \<Rightarrow>
                  let meta = no_chunk\<lparr>sc_Model := am_Model m\<rparr> in
                  (case am_Usage m of None \<Rightarrow> meta | Some u \<Rightarrow> meta\<lparr>sc_InputTokens := tk_InputTokens u\<rparr>))
           else if eventType = ''content_block_delta'' then
             (case ae_Delta event of
                None \<Rightarrow> no_chunk
              | Some d \<Rightarrow> if ad_Type d = ''text_delta'' then no_chunk\<lparr>sc_Text := ad_Text d\<rparr> else no_chunk)
           else if eventType = ''message_delta'' then
             (case ae_Usage event of
                None \<Rightarrow> no_chunk
              | Some u \<Rightarrow> no_chunk\<lparr>sc_OutputTokens := au_OutputTokens u\<rparr>)
           else if eventType = ''message_stop'' then no_chunk\<lparr>sc_Done := True\<rparr>
           else no_chunk))"

section \<open>Azure OpenAI\<close>

record Azure =
  az_upstream :: string
  az_pathPrefix :: string

definition NewAzure :: "string \<Rightarrow> Azure" where
  "NewAzure upstream = \<lparr>az_upstream = upstream, az_pathPrefix = ''/azure''\<rparr>"

definition az_Match :: "Azure \<Rightarrow> request \<Rightarrow> bool" where
  "az_Match a r \<longleftrightarrow> HasPrefix (Path r) (az_pathPrefix a @ ''/openai/deployments/'')"

definition az_RewritePath :: "Azure \<Rightarrow> string \<Rightarrow> string" where
  "az_RewritePath a path = TrimPrefix path (az_pathPrefix a)"

record azureRequest =
  zr_MaxTokens :: int
  zr_Stream :: bool

definition azureRequest_fields :: "azureRequest fields" where
  "azureRequest_fields = [
    (''max_tokens'', field zr_MaxTokens zr_MaxTokens_update decode_int),
    (''stream'', field zr_Stream zr_Stream_update decode_bool)]"

definition az_ParseRequest :: "string \<Rightarrow> RequestMeta option" where
  "az_ParseRequest body =
    (case Unmarshal (decode_struct azureRequest_fields) \<lparr>zr_MaxTokens = 0, zr_Stream = False\<rparr> body of
       None \<Rightarrow> None
     | Some req \<Rightarrow> Some \<lparr>rq_Model = ''azure-deployment'', rq_MaxTokens = zr_MaxTokens req, rq_Stream = zr_Stream req\<rparr>)"

record azureUsage =
  zu_PromptTokens :: int
  zu_CompletionTokens :: int
  zu_TotalTokens :: int

definition no_azureUsage :: azureUsage where
  "no_azureUsage = \<lparr>zu_PromptTokens = 0, zu_CompletionTokens = 0, zu_TotalTokens = 0\<rparr>"

definition azureUsage_fields :: "azureUsage fields" where
  "azureUsage_fields = [
    (''prompt_tokens'', field zu_PromptTokens zu_PromptTokens_update decode_int),
    (''completion_tokens'', field zu_CompletionTokens zu_CompletionTokens_update decode_int),
    (''total_tokens'', field zu_TotalTokens zu_TotalTokens_update decode_int)]"

record azureResponse =
  zp_Model :: string
  zp_Usage :: azureUsage

definition azureResponse_fields :: "azureResponse fields" where
  "azureResponse_fields = [
    (''model'', field zp_Model zp_Model_update decode_string),
    (''usage'', field zp_Usage zp_Usage_update (decode_struct azureUsage_fields))]"

definition az_ParseResponse :: "string \<Rightarrow> ResponseMeta option" where
  "az_ParseResponse body =
    (case Unmarshal (decode_struct azureResponse_fields) \<lparr>zp_Model = '''', zp_Usage = no_azureUsage\<rparr> body of
       None \<Rightarrow> None
     | Some resp \<Rightarrow> Some \<lparr>rs_Model = zp_Model resp,
         rs_InputTokens = zu_PromptTokens (zp_Usage resp), rs_OutputTokens = zu_CompletionTokens (zp_Usage resp),
         rs_TotalTokens = zu_TotalTokens (zp_Usage resp)\<rparr>)"

record azureStreamChunk =
  zh_Model :: string
  zh_Choices :: "chunkChoice slice"
  zh_Usage :: "azureUsage option"

definition azureStreamChunk_fields :: "azureStreamChunk fields" where
  "azureStreamChunk_fields = [
    (''model'', field zh_Model zh_Model_update decode_string),
    (''choices'', field zh_Choices zh_Choices_update (decode_slice no_choice (decode_struct chunkChoice_fields))),
    (''usage'', field zh_Usage zh_Usage_update (decode_ptr no_azureUsage (decode_struct azureUsage_fields)))]"

definition az_ParseStreamChunk :: "string \<Rightarrow> string \<Rightarrow> StreamChunkMeta option" where
  "az_ParseStreamChunk eventType data =
    (case Unmarshal (decode_struct azureStreamChunk_fields) \<lparr>zh_Model = '''', zh_Choices = (0, []), zh_Usage = None\<rparr> data of
       None \<Rightarrow> None
     | Some chunk \<Rightarrow>
         let meta = no_chunk\<lparr>sc_Model := zh_Model chunk, sc_Text := first_content (zh_Choices chunk)\<rparr>
         in Some (case zh_Usage chunk of
             None \<Rightarrow> meta
           | Some u \<Rightarrow> meta\<lparr>sc_InputTokens := zu_PromptTokens u, sc_OutputTokens := zu_CompletionTokens u, sc_Done := True\<rparr>))"

section \<open>Cohere\<close>

record Cohere =
  co_upstream :: string

definition NewCohere :: "string \<Rightarrow> Cohere" where
  "NewCohere upstream = \<lparr>co_upstream = (if upstream = '''' then ''https://api.cohere.com'' else upstream)\<rparr>"

definition co_Match :: "request \<Rightarrow> bool" where
  "co_Match r \<longleftrightarrow> HasPrefix (Path r) ''/cohere/''"

definition co_RewritePath :: "string \<Rightarrow> string" where
  "co_RewritePath path = TrimPrefix path ''/cohere''"

record cohereRequest =
  cr_ReqModel :: string
  cr_Stream :: bool
  cr_MaxTokens :: int

definition cohereRequest_fields :: "cohereRequest fields" where
  "cohereRequest_fields = [
    (''model'', field cr_ReqModel cr_ReqModel_update decode_string),
    (''stream'', field cr_Stream cr_Stream_update decode_bool),
    (''max_tokens'', field cr_MaxTokens cr_MaxTokens_update decode_int)]"

definition co_ParseRequest :: "string \<Rightarrow> RequestMeta option" where
  "co_ParseRequest body =
    (case Unmarshal (decode_struct cohereRequest_fields) \<lparr>cr_ReqModel = '''', cr_Stream = False, cr_MaxTokens = 0\<rparr> body of
       None \<Rightarrow> None
     | Some req \<Rightarrow> Some \<lparr>rq_Model = cr_ReqModel req, rq_MaxTokens = cr_MaxTokens req, rq_Stream = cr_Stream req\<rparr>)"

text \<open>A struct with the one field \<open>text\<close>, here and in Gemini's parts.\<close>

record textPart =
  tp_Text :: string

definition no_text :: textPart where "no_text = \<lparr>tp_Text = ''''\<rparr>"

definition textPart_fields :: "textPart fields" where
  "textPart_fields = [(''text'', field tp_Text tp_Text_update decode_string)]"

record cohereMessage =
  cm_Content :: "textPart slice"

record cohereMeta =
  ct_Tokens :: "tokenPair option"

record cohereResponse =
  cp_Message :: "cohereMessage option"
  cp_Meta :: "cohereMeta option"

definition cohereResponse_fields :: "cohereResponse fields" where
  "cohereResponse_fields = [
    (''message'', field cp_Message cp_Message_update (decode_ptr \<lparr>cm_Content = (0, [])\<rparr> (decode_struct [
       (''content'', field cm_Content cm_Content_update (decode_slice no_text (decode_struct textPart_fields)))]))),
    (''meta'', field cp_Meta cp_Meta_update (decode_ptr \<lparr>ct_Tokens = None\<rparr> (decode_struct [
       (''tokens'', field ct_Tokens ct_Tokens_update (decode_ptr no_tokens (decode_struct tokenPair_fields)))])))]"

definition co_ParseResponse :: "string \<Rightarrow> ResponseMeta option" where
  "co_ParseResponse body =
    (case Unmarshal (decode_struct cohereResponse_fields) \<lparr>cp_Message = None, cp_Meta = None\<rparr> body of
       None \<Rightarrow> None
     | Some resp \<Rightarrow>
         let meta = \<lparr>rs_Model = '''', rs_InputTokens = 0, rs_OutputTokens = 0, rs_TotalTokens = 0\<rparr> in
         Some (case cp_Meta resp of
             None \<Rightarrow> meta
           | Some m \<Rightarrow>
               (case ct_Tokens m of
                  None \<Rightarrow> meta
                | Some t \<Rightarrow> meta\<lparr>rs_InputTokens := tk_InputTokens t, rs_OutputTokens := tk_OutputTokens t,
                    rs_TotalTokens := i64 (tk_InputTokens t + tk_OutputTokens t)\<rparr>)))"

record cohereDeltaMessage =
  dm_Content :: "textPart option"

record cohereUsage =
  cu_BilledUnits :: "tokenPair option"

record cohereDelta =
  cl_Message :: "cohereDeltaMessage option"
  cl_FinishReason :: string
  cl_Usage :: "cohereUsage option"

record cohereStreamEvent =
  cv_Type :: string
  cv_Delta :: "cohereDelta option"

definition cohereDelta_fields :: "cohereDelta fields" where
  "cohereDelta_fields = [
    (''message'', field cl_Message cl_Message_update (decode_ptr \<lparr>dm_Content = None\<rparr> (decode_struct [
       (''content'', field dm_Content dm_Content_update (decode_ptr no_text (decode_struct textPart_fields)))]))),
    (''finish_reason'', field cl_FinishReason cl_FinishReason_update decode_string),
    (''usage'', field cl_Usage cl_Usage_update (decode_ptr \<lparr>cu_BilledUnits = None\<rparr> (decode_struct [
       (''billed_units'', field cu_BilledUnits cu_BilledUnits_update (decode_ptr no_tokens (decode_struct tokenPair_fields)))])))]"

definition cohereStreamEvent_fields :: "cohereStreamEvent fields" where
  "cohereStreamEvent_fields = [
    (''type'', field cv_Type cv_Type_update decode_string),
    (''delta'', field cv_Delta cv_Delta_update
       (decode_ptr \<lparr>cl_Message = None, cl_FinishReason = '''', cl_Usage = None\<rparr> (decode_struct cohereDelta_fields)))]"

definition co_ParseStreamChunk :: "string \<Rightarrow> string \<Rightarrow> StreamChunkMeta option" where
  "co_ParseStreamChunk eventType data =
    (case Unmarshal (decode_struct cohereStreamEvent_fields) \<lparr>cv_Type = '''', cv_Delta = None\<rparr> data of
       None \<Rightarrow> None
     | Some event \<Rightarrow>
         Some (if eventType = ''content-delta'' \<or> cv_Type event = ''content-delta'' then
             (case cv_Delta event of None \<Rightarrow> no_chunk | Some d \<Rightarrow>
              (case cl_Message d of None \<Rightarrow> no_chunk | Some m \<Rightarrow>
               (case dm_Content m of None \<Rightarrow> no_chunk | Some t \<Rightarrow> no_chunk\<lparr>sc_Text := tp_Text t\<rparr>)))
           else if eventType = ''message-end'' \<or> cv_Type event = ''message-end'' then
             (let meta = no_chunk\<lparr>sc_Done := True\<rparr> in
              case cv_Delta event of None \<Rightarrow> meta | Some d \<Rightarrow>
              (case cl_Usage d of None \<Rightarrow> meta | Some u \<Rightarrow>
               (case cu_BilledUnits u of None \<Rightarrow> meta | Some t \<Rightarrow>
                  meta\<lparr>sc_InputTokens := tk_InputTokens t, sc_OutputTokens := tk_OutputTokens t\<rparr>)))
           else no_chunk))"

section \<open>Gemini\<close>

record Gemini =
  ge_upstream :: string

definition NewGemini :: "string \<Rightarrow> Gemini" where
  "NewGemini upstream =
    \<lparr>ge_upstream = (if upstream = '''' then ''https://generativelanguage.googleapis.com'' else upstream)\<rparr>"

definition ge_Match :: "request \<Rightarrow> bool" where
  "ge_Match r \<longleftrightarrow> HasPrefix (Path r) ''/gemini/''"

definition ge_RewritePath :: "string \<Rightarrow> string" where
  "ge_RewritePath path = TrimPrefix path ''/gemini''"

record generationConfig =
  gc_MaxOutputTokens :: int

record geminiRequest =
  gr_GenerationConfig :: "generationConfig option"

definition geminiRequest_fields :: "geminiRequest fields" where
  "geminiRequest_fields = [
    (''generationConfig'', field gr_GenerationConfig gr_GenerationConfig_update
       (decode_ptr \<lparr>gc_MaxOutputTokens = 0\<rparr> (decode_struct [
          (''maxOutputTokens'', field gc_MaxOutputTokens gc_MaxOutputTokens_update decode_int)])))]"

definition ge_ParseRequest :: "string \<Rightarrow> RequestMeta option" where
  "ge_ParseRequest body =
    (case Unmarshal (decode_struct geminiRequest_fields) \<lparr>gr_GenerationConfig = None\<rparr> body of
       None \<Rightarrow> None
     | Some req \<Rightarrow> Some \<lparr>rq_Model = '''',
         rq_MaxTokens = (case gr_GenerationConfig req of None \<Rightarrow> 0 | Some c \<Rightarrow> gc_MaxOutputTokens c), rq_Stream = False\<rparr>)"

text \<open>The leftmost match of \<open>/models/([^/:]+)\<close> and its submatch.\<close>

fun ExtractGeminiModel :: "string \<Rightarrow> string" where
  "ExtractGeminiModel path =
    (let m = takeWhile (\<lambda>c. c \<noteq> CHR ''/'' \<and> c \<noteq> CHR '':'') (drop 8 path) in
     if HasPrefix path ''/models/'' \<and> m \<noteq> [] then m
     else case path of [] \<Rightarrow> '''' | _ # rest \<Rightarrow> ExtractGeminiModel rest)"

declare ExtractGeminiModel.simps [simp del]

record geminiContent =
  gn_Parts :: "textPart slice"

record geminiCandidate =
  gd_Content :: geminiContent

record usageMetadata =
  um_PromptTokenCount :: int
  um_CandidatesTokenCount :: int
  um_TotalTokenCount :: int

record geminiResponse =
  gp_Candidates :: "geminiCandidate slice"
  gp_UsageMetadata :: "usageMetadata option"
  gp_ModelVersion :: string

definition usageMetadata_fields :: "usageMetadata fields" where
  "usageMetadata_fields = [
    (''promptTokenCount'', field um_PromptTokenCount um_PromptTokenCount_update decode_int),
    (''candidatesTokenCount'', field um_CandidatesTokenCount um_CandidatesTokenCount_update decode_int),
    (''totalTokenCount'', field um_TotalTokenCount um_TotalTokenCount_update decode_int)]"

definition geminiCandidate_fields :: "geminiCandidate fields" where
  "geminiCandidate_fields = [
    (''content'', field gd_Content gd_Content_update (decode_struct [
       (''parts'', field gn_Parts gn_Parts_update (decode_slice no_text (decode_struct textPart_fields)))]))]"

definition geminiResponse_fields :: "geminiResponse fields" where
  "geminiResponse_fields = [
    (''candidates'', field gp_Candidates gp_Candidates_update
       (decode_slice \<lparr>gd_Content = \<lparr>gn_Parts = (0, [])\<rparr>\<rparr> (decode_struct geminiCandidate_fields))),
    (''usageMetadata'', field gp_UsageMetadata gp_UsageMetadata_update
       (decode_ptr \<lparr>um_PromptTokenCount = 0, um_CandidatesTokenCount = 0, um_TotalTokenCount = 0\<rparr>
          (decode_struct usageMetadata_fields))),
    (''modelVersion'', field gp_ModelVersion gp_ModelVersion_update decode_string)]"

definition no_geminiResponse :: geminiResponse where
  "no_geminiResponse = \<lparr>gp_Candidates = (0, []), gp_UsageMetadata = None, gp_ModelVersion = ''''\<rparr>"

definition ge_ParseResponse :: "string \<Rightarrow> ResponseMeta option" where
  "ge_ParseResponse body =
    (case Unmarshal (decode_struct geminiResponse_fields) no_geminiResponse body of
       None \<Rightarrow> None
     | Some resp \<Rightarrow>
         Some (case gp_UsageMetadata resp of
             None \<Rightarrow> \<lparr>rs_Model = gp_ModelVersion resp, rs_InputTokens = 0, rs_OutputTokens = 0, rs_TotalTokens = 0\<rparr>
           | Some u \<Rightarrow> \<lparr>rs_Model = gp_ModelVersion resp, rs_InputTokens = um_PromptTokenCount u,
               rs_OutputTokens = um_CandidatesTokenCount u, rs_TotalTokens = um_TotalTokenCount u\<rparr>))"

definition stripJSONArrayWrapper :: "string \<Rightarrow> string" where
  "stripJSONArrayWrapper data =
    (let s = TrimSpace data;
         s = TrimPrefix s ''['';
         s = TrimSuffix s '']'';
         s = TrimPrefix s '','';
         s = TrimSuffix s '',''
     in TrimSpace s)"

definition ge_ParseStreamChunk :: "string \<Rightarrow> string \<Rightarrow> StreamChunkMeta option" where
  "ge_ParseStreamChunk eventType data0 =
    (let data = stripJSONArrayWrapper data0 in
     if data = [] then Some no_chunk
     else case Unmarshal (decode_struct geminiResponse_fields) no_geminiResponse data of
       None \<Rightarrow> None
     | Some resp \<Rightarrow>
         let meta = no_chunk\<lparr>sc_Model := gp_ModelVersion resp,
               sc_Text := (case elements (gp_Candidates resp) of
                   [] \<Rightarrow> ''''
                 | c # _ \<Rightarrow> (case elements (gn_Parts (gd_Content c)) of [] \<Rightarrow> '''' | t # _ \<Rightarrow> tp_Text t))\<rparr>
         in Some (case gp_UsageMetadata resp of
             None \<Rightarrow> meta
           | Some u \<Rightarrow> meta\<lparr>sc_InputTokens := um_PromptTokenCount u, sc_OutputTokens := um_CandidatesTokenCount u,
               sc_Done := um_CandidatesTokenCount u > 0 \<and> um_PromptTokenCount u > 0\<rparr>))"

section \<open>The providers with an OpenAI-compatible API\<close>

definition default_upstream :: "string \<Rightarrow> string \<Rightarrow> string" where
  "default_upstream url upstream = (if upstream = '''' then url else upstream)"

definition NewOpenAI :: "string \<Rightarrow> OpenAICompatible" where
  "NewOpenAI upstream = NewOpenAICompatible ''openai'' upstream ''''"

definition NewGroq :: "string \<Rightarrow> OpenAICompatible" where
  "NewGroq upstream = NewOpenAICompatible ''groq'' (default_upstream ''https://api.groq.com/openai'' upstream) ''/groq''"

definition NewMistral :: "string \<Rightarrow> OpenAICompatible" where
  "NewMistral upstream = NewOpenAICompatible ''mistral'' (default_upstream ''https://api.mistral.ai'' upstream) ''/mistral''"

definition NewPerplexity :: "string \<Rightarrow> OpenAICompatible" where
  "NewPerplexity upstream = NewOpenAICompatible ''perplexity'' (default_upstream ''https://api.perplexity.ai'' upstream) ''/perplexity''"

definition NewOpenRouter :: "string \<Rightarrow> OpenAICompatible" where
  "NewOpenRouter upstream = NewOpenAICompatible ''openrouter'' (default_upstream ''https://openrouter.ai/api'' upstream) ''/openrouter''"

definition NewCerebras :: "string \<Rightarrow> OpenAICompatible" where
  "NewCerebras upstream = NewOpenAICompatible ''cerebras'' (default_upstream ''https://api.cerebras.ai'' upstream) ''/cerebras''"

definition NewDeepSeek :: "string \<Rightarrow> OpenAICompatible" where
  "NewDeepSeek upstream = NewOpenAICompatible ''deepseek'' (default_upstream ''https://api.deepseek.com'' upstream) ''/deepseek''"

definition NewFireworks :: "string \<Rightarrow> OpenAICompatible" where
  "NewFireworks upstream = NewOpenAICompatible ''fireworks'' (default_upstream ''https://api.fireworks.ai/inference'' upstream) ''/fireworks''"

definition NewSambaNova :: "string \<Rightarrow> OpenAICompatible" where
  "NewSambaNova upstream = NewOpenAICompatible ''sambanova'' (default_upstream ''https://api.sambanova.ai'' upstream) ''/sambanova''"

definition NewTogether :: "string \<Rightarrow> OpenAICompatible" where
  "NewTogether upstream = NewOpenAICompatible ''together'' (default_upstream ''https://api.together.xyz'' upstream) ''/together''"

definition NewXAI :: "string \<Rightarrow> OpenAICompatible" where
  "NewXAI upstream = NewOpenAICompatible ''xai'' (default_upstream ''https://api.x.ai'' upstream) ''/xai''"

section \<open>The interface and the registry\<close>

text \<open>
  The dynamic type of a \<open>Provider\<close> and its methods. \<open>PathPrefix\<close> and \<open>RewritePath\<close> are \<open>None\<close>
  where the type does not have them.
\<close>

datatype provider =
    POpenAI OpenAICompatible
  | PAnthropic Anthropic
  | PAzure Azure
  | PGemini Gemini
  | PCohere Cohere

fun pv_Name :: "provider \<Rightarrow> string" where
  "pv_Name (POpenAI p) = oc_name p"
| "pv_Name (PAnthropic p) = ''anthropic''"
| "pv_Name (PAzure p) = ''azure''"
| "pv_Name (PGemini p) = ''gemini''"
| "pv_Name (PCohere p) = ''cohere''"

fun pv_Match :: "provider \<Rightarrow> request \<Rightarrow> bool" where
  "pv_Match (POpenAI p) r = oc_Match p r"
| "pv_Match (PAnthropic p) r = an_Match p r"
| "pv_Match (PAzure p) r = az_Match p r"
| "pv_Match (PGemini p) r = ge_Match r"
| "pv_Match (PCohere p) r = co_Match r"

fun pv_ParseRequest :: "provider \<Rightarrow> string \<Rightarrow> RequestMeta option" where
  "pv_ParseRequest (POpenAI p) = oc_ParseRequest"
| "pv_ParseRequest (PAnthropic p) = an_ParseRequest"
| "pv_ParseRequest (PAzure p) = az_ParseRequest"
| "pv_ParseRequest (PGemini p) = ge_ParseRequest"
| "pv_ParseRequest (PCohere p) = co_ParseRequest"

fun pv_ParseResponse :: "provider \<Rightarrow> string \<Rightarrow> ResponseMeta option" where
  "pv_ParseResponse (POpenAI p) = oc_ParseResponse"
| "pv_ParseResponse (PAnthropic p) = an_ParseResponse"
| "pv_ParseResponse (PAzure p) = az_ParseResponse"
| "pv_ParseResponse (PGemini p) = ge_ParseResponse"
| "pv_ParseResponse (PCohere p) = co_ParseResponse"

fun pv_ParseStreamChunk :: "provider \<Rightarrow> string \<Rightarrow> string \<Rightarrow> StreamChunkMeta option" where
  "pv_ParseStreamChunk (POpenAI p) = oc_ParseStreamChunk"
| "pv_ParseStreamChunk (PAnthropic p) = an_ParseStreamChunk"
| "pv_ParseStreamChunk (PAzure p) = az_ParseStreamChunk"
| "pv_ParseStreamChunk (PGemini p) = ge_ParseStreamChunk"
| "pv_ParseStreamChunk (PCohere p) = co_ParseStreamChunk"

fun pv_UpstreamURL :: "provider \<Rightarrow> string" where
  "pv_UpstreamURL (POpenAI p) = oc_upstream p"
| "pv_UpstreamURL (PAnthropic p) = an_upstream p"
| "pv_UpstreamURL (PAzure p) = az_upstream p"
| "pv_UpstreamURL (PGemini p) = ge_upstream p"
| "pv_UpstreamURL (PCohere p) = co_upstream p"

fun pv_PathPrefix :: "provider \<Rightarrow> string option" where
  "pv_PathPrefix (POpenAI p) = Some (oc_pathPrefix p)"
| "pv_PathPrefix (PAnthropic p) = None"
| "pv_PathPrefix (PAzure p) = Some (az_pathPrefix p)"
| "pv_PathPrefix (PGemini p) = Some ''/gemini''"
| "pv_PathPrefix (PCohere p) = Some ''/cohere''"

fun pv_RewritePath :: "provider \<Rightarrow> (string \<Rightarrow> string) option" where
  "pv_RewritePath (POpenAI p) = Some (oc_RewritePath p)"
| "pv_RewritePath (PAnthropic p) = None"
| "pv_RewritePath (PAzure p) = Some (az_RewritePath p)"
| "pv_RewritePath (PGemini p) = Some ge_RewritePath"
| "pv_RewritePath (PCohere p) = Some co_RewritePath"

record ProviderConfig =
  pc_Upstream :: string
  pc_Enabled :: bool
  pc_Type :: string
  pc_PathPrefix :: string

record ProvidersConfig =
  ps_OpenAI :: ProviderConfig
  ps_Anthropic :: ProviderConfig
  ps_Extra :: "(string \<times> ProviderConfig) list"

definition NewProviderByType :: "string \<Rightarrow> string \<Rightarrow> string \<Rightarrow> string \<Rightarrow> provider option" where
  "NewProviderByType name typ upstream pathPrefix =
    (if typ = ''openai'' then
       Some (POpenAI (NewOpenAICompatible name (if upstream = '''' then ''https://api.openai.com'' else upstream)
         (if pathPrefix = '''' then CHR ''/'' # name else pathPrefix)))
     else if typ = ''anthropic'' then
       Some (PAnthropic (NewAnthropic (if upstream = '''' then ''https://api.anthropic.com'' else upstream)))
     else if typ = ''azure'' then Some (PAzure (NewAzure upstream))
     else if typ = ''gemini'' then Some (PGemini (NewGemini upstream))
     else if typ = ''cohere'' then Some (PCohere (NewCohere upstream))
     else if upstream \<noteq> '''' then
       Some (POpenAI (NewOpenAICompatible name upstream (if pathPrefix = '''' then CHR ''/'' # name else pathPrefix)))
     else None)"

text \<open>The extra providers come in the iteration order of the map.\<close>

definition extra_provider :: "string \<times> ProviderConfig \<Rightarrow> provider option" where
  "extra_provider e = (case e of (name, pc) \<Rightarrow>
     if \<not> pc_Enabled pc then None
     else NewProviderByType name (pc_Type pc) (pc_Upstream pc) (pc_PathPrefix pc))"

definition NewRegistry :: "ProvidersConfig \<Rightarrow> provider list" where
  "NewRegistry cfg =
    (if pc_Enabled (ps_OpenAI cfg) then [POpenAI (NewOpenAI (pc_Upstream (ps_OpenAI cfg)))] else []) @
    (if pc_Enabled (ps_Anthropic cfg) then [PAnthropic (NewAnthropic (pc_Upstream (ps_Anthropic cfg)))] else []) @
    List.map_filter extra_provider (ps_Extra cfg)"

definition Detect :: "provider list \<Rightarrow> request \<Rightarrow> provider option" where
  "Detect providers req = find (\<lambda>p. pv_Match p req) providers"

fun PathPrefixes_loop :: "provider list \<Rightarrow> string list \<Rightarrow> string list" where
  "PathPrefixes_loop [] prefixes = prefixes"
| "PathPrefixes_loop (p # ps) prefixes =
    PathPrefixes_loop ps
      (case pv_PathPrefix p of
         None \<Rightarrow> prefixes
       | Some prefix \<Rightarrow> if prefix \<noteq> '''' \<and> prefix \<notin> set prefixes then prefixes @ [prefix] else prefixes)"

definition PathPrefixes :: "provider list \<Rightarrow> string list" where
  "PathPrefixes providers = PathPrefixes_loop providers []"

section \<open>Routing by path prefix\<close>

text \<open>
  The contract of the types with \<open>PathPrefix\<close> and \<open>RewritePath\<close>: a request that matches lies
  below the prefix, and rewriting strips the prefix.
\<close>

locale path_routed =
  fixes mtch :: "request \<Rightarrow> bool" and pre :: string and rewrite :: "string \<Rightarrow> string"
  assumes below: "mtch r \<Longrightarrow> HasPrefix (Path r) (pre @ ''/'')"
    and strips: "rewrite p = TrimPrefix p pre"
begin

lemma rewrite_roundtrip: "mtch r \<Longrightarrow> pre @ rewrite (Path r) = Path r \<and> HasPrefix (rewrite (Path r)) ''/''"
  using below[of r] by (auto simp: strips HasPrefix_iff)

lemma first_segment:
  assumes "mtch r" and "pre = CHR ''/'' # seg" and "CHR ''/'' \<notin> set seg"
  shows "takeWhile (\<lambda>c. c \<noteq> CHR ''/'') (tl (Path r)) = seg"
proof -
  obtain t where "Path r = CHR ''/'' # seg @ CHR ''/'' # t" using below[OF assms(1)] assms(2) by (auto simp: HasPrefix_iff)
  moreover have "takeWhile (\<lambda>c. c \<noteq> CHR ''/'') (seg @ CHR ''/'' # t) = seg"
    using assms(3) by (induction seg) auto
  ultimately show ?thesis by simp
qed

end

lemma HasPrefix_weaken: "HasPrefix s (p @ q) \<Longrightarrow> HasPrefix s p"
  by (auto simp: HasPrefix_iff)

lemma HasPrefix_slash: "HasPrefix s (p @ CHR ''/'' # q) \<Longrightarrow> HasPrefix s (p @ ''/'')"
  using HasPrefix_weaken[of s "p @ ''/''" q] by simp

interpretation oc_routed: path_routed "oc_Match p" "oc_pathPrefix p" "oc_RewritePath p" for p
  by unfold_locales (auto simp: oc_Match_def oc_RewritePath_def TrimPrefix_def Let_def intro: HasPrefix_slash)

interpretation az_routed: path_routed "az_Match p" "az_pathPrefix p" "az_RewritePath p" for p
  by unfold_locales (auto simp: az_Match_def az_RewritePath_def intro: HasPrefix_slash)

interpretation ge_routed: path_routed ge_Match "''/gemini''" ge_RewritePath
  by unfold_locales (simp_all add: ge_Match_def ge_RewritePath_def)

interpretation co_routed: path_routed co_Match "''/cohere''" co_RewritePath
  by unfold_locales (simp_all add: co_Match_def co_RewritePath_def)

text \<open>A prefix of one segment; the routes of such providers do not overlap.\<close>

definition one_segment :: "string \<Rightarrow> bool" where
  "one_segment pre \<longleftrightarrow> pre \<noteq> [] \<and> hd pre = CHR ''/'' \<and> CHR ''/'' \<notin> set (tl pre)"

definition segment :: "request \<Rightarrow> string" where
  "segment r = takeWhile (\<lambda>c. c \<noteq> CHR ''/'') (tl (Path r))"

lemma one_segment_Cons: "one_segment pre \<Longrightarrow> \<exists>seg. pre = CHR ''/'' # seg \<and> CHR ''/'' \<notin> set seg"
  by (cases pre) (auto simp: one_segment_def)

lemma match_segment:
  assumes "pv_Match p r" and "pv_PathPrefix p = Some pre" and "one_segment pre"
  shows "pre = CHR ''/'' # segment r"
proof -
  obtain seg where s: "pre = CHR ''/'' # seg" "CHR ''/'' \<notin> set seg" using one_segment_Cons[OF assms(3)] by blast
  have "segment r = seg"
  proof (cases p)
    case (POpenAI x)
    then show ?thesis using assms s oc_routed.first_segment[of x r seg] by (simp add: segment_def)
  next
    case (PAzure x)
    then show ?thesis using assms s az_routed.first_segment[of x r seg] by (simp add: segment_def)
  next
    case (PGemini x)
    then show ?thesis using assms s ge_routed.first_segment[of r seg] by (simp add: segment_def)
  next
    case (PCohere x)
    then show ?thesis using assms s co_routed.first_segment[of r seg] by (simp add: segment_def)
  qed (use assms in simp)
  then show ?thesis using s by simp
qed

lemma anthropic_alone:
  assumes "an_Match a r" and "pv_PathPrefix p = Some pre" and "one_segment pre"
  shows "\<not> pv_Match p r"
proof
  assume m: "pv_Match p r"
  obtain t where path: "Path r = ''/v1/messages'' @ t"
    using assms(1) by (auto simp: an_Match_def HasPrefix_iff split: if_splits)
  then have pre: "pre = ''/v1''" using match_segment[OF m assms(2,3)] by (simp add: segment_def)
  show False using m assms(2) pre path by (cases p) (auto simp: oc_Match_def az_Match_def Let_def HasPrefix_def)
qed

text \<open>At most one of the providers with distinct one-segment prefixes matches a request.\<close>

definition routable :: "provider list \<Rightarrow> bool" where
  "routable ps \<longleftrightarrow> distinct (map pv_PathPrefix ps) \<and> (\<forall>p \<in> set ps. \<forall>pre. pv_PathPrefix p = Some pre \<longrightarrow> one_segment pre)"

lemma match_unique:
  assumes "pv_Match p r" and "pv_Match q r"
    and "\<And>pre. pv_PathPrefix p = Some pre \<Longrightarrow> one_segment pre" and "\<And>pre. pv_PathPrefix q = Some pre \<Longrightarrow> one_segment pre"
  shows "pv_PathPrefix p = pv_PathPrefix q"
proof (cases "pv_PathPrefix p"; cases "pv_PathPrefix q")
  fix pre assume n: "pv_PathPrefix p = None" "pv_PathPrefix q = Some pre"
  then obtain a where "p = PAnthropic a" by (cases p) auto
  then show ?thesis using assms n anthropic_alone[of a r q pre] by simp
next
  fix pre assume n: "pv_PathPrefix p = Some pre" "pv_PathPrefix q = None"
  then obtain a where "q = PAnthropic a" by (cases q) auto
  then show ?thesis using assms n anthropic_alone[of a r p pre] by simp
next
  fix pre pre' assume n: "pv_PathPrefix p = Some pre" "pv_PathPrefix q = Some pre'"
  then show ?thesis using match_segment[OF assms(1) n(1)] match_segment[OF assms(2) n(2)] assms(3,4) by simp
qed simp

lemma find_unique:
  assumes "\<And>x y. x \<in> set xs \<Longrightarrow> y \<in> set xs \<Longrightarrow> P x \<Longrightarrow> P y \<Longrightarrow> x = y" and "set ys = set xs"
  shows "find P xs = find P ys"
proof (cases "\<exists>x \<in> set xs. P x")
  case True
  then obtain x where x: "x \<in> set xs" "P x" by blast
  have "find P zs = Some x" if "set zs = set xs" for zs
  proof -
    have "find P zs \<noteq> None" using that x by (auto simp: find_None_iff)
    then obtain y where y: "find P zs = Some y" by blast
    then have "y \<in> set zs" "P y" by (auto simp: find_Some_iff)
    then show ?thesis using y that x assms(1)[of x y] by simp
  qed
  then show ?thesis using assms(2) by simp
next
  case False
  then have "find P xs = None" "find P ys = None" using assms(2) by (auto simp: find_None_iff)
  then show ?thesis by simp
qed

lemma Detect_set:
  assumes "routable ps" and "set qs = set ps"
  shows "Detect ps r = Detect qs r"
proof -
  have u: "p = q" if "p \<in> set ps" "q \<in> set ps" "pv_Match p r" "pv_Match q r" for p q
  proof -
    have "pv_PathPrefix p = pv_PathPrefix q"
      using match_unique[OF that(3,4)] that(1,2) assms(1) by (auto simp: routable_def)
    then show ?thesis using that assms(1) by (auto simp: routable_def distinct_map inj_on_def)
  qed
  show ?thesis unfolding Detect_def by (rule find_unique) (use u assms(2) in auto)
qed

section \<open>Ranges of what is read\<close>

lemma decode_members_inv:
  assumes "\<And>k f j x y. (k, f) \<in> set fs \<Longrightarrow> P x \<Longrightarrow> f j x = Some y \<Longrightarrow> P y"
  shows "P x \<Longrightarrow> decode_members fs ms x = Some y \<Longrightarrow> P y"
proof (induction ms arbitrary: x)
  case (Cons m ms)
  obtain k v where m: "m = (k, v)" by (cases m)
  have "P z" if f: "find_field fs (unquote k) = Some f" "f v x = Some z" for f z
  proof -
    obtain k' where "(k', f) \<in> set fs"
      using f(1) by (auto simp: find_field_def find_Some_iff split: option.splits dest: map_of_SomeD) (metis nth_mem)
    then show ?thesis using assms[of k' f x v z] Cons(2) f(2) by blast
  qed
  then show ?case using Cons m by (auto split: option.splits)
qed simp

lemma decode_struct_inv:
  assumes "\<And>k f j x y. (k, f) \<in> set fs \<Longrightarrow> P x \<Longrightarrow> f j x = Some y \<Longrightarrow> P y"
  shows "P x \<Longrightarrow> decode_struct fs j x = Some y \<Longrightarrow> P y"
  by (auto simp: decode_struct_def split: json.splits intro: decode_members_inv[of fs P, OF assms])

lemma ParseInt_range: "ParseInt lit = Some n \<Longrightarrow> in_i64 n"
  by (auto simp: ParseInt_def Let_def split: if_splits list.splits prod.splits)

lemma decode_int_range [json_decode]: "decode_int j v = Some n \<Longrightarrow> in_i64 v \<Longrightarrow> in_i64 n"
  by (auto simp: decode_int_def ParseInt_range split: json.splits)

lemma in_i64_0 [simp]: "in_i64 0"
  by (simp add: in_i64_def)

text \<open>A decoder maintains a predicate of what it decodes into.\<close>

definition maintains :: "('a \<Rightarrow> bool) \<Rightarrow> 'a decoder \<Rightarrow> bool" where
  "maintains P dec \<longleftrightarrow> (\<forall>j x y. P x \<longrightarrow> dec j x = Some y \<longrightarrow> P y)"

lemma maintains_struct:
  assumes "\<And>k f. (k, f) \<in> set fs \<Longrightarrow> maintains P f"
  shows "maintains P (decode_struct fs)"
  using assms decode_struct_inv[of fs P] unfolding maintains_def by blast

lemma maintains_ptr: "maintains P dec \<Longrightarrow> P zero \<Longrightarrow> maintains (pred_option P) (decode_ptr zero dec)"
  by (auto simp: maintains_def decode_ptr_def split: json.splits option.splits)

lemma maintains_field:
  assumes "maintains Q dec" and "\<And>x. P x \<Longrightarrow> Q (get x)" and "\<And>x w. P x \<Longrightarrow> Q w \<Longrightarrow> P (upd (\<lambda>_. w) x)"
  shows "maintains P (field get upd dec)"
  unfolding maintains_def field_def
proof (intro allI impI)
  fix j x y assume "P x" and y: "map_option (\<lambda>v. upd (\<lambda>_. v) x) (dec j (get x)) = Some y"
  then obtain w where w: "dec j (get x) = Some w" "y = upd (\<lambda>_. w) x" by blast
  then have "Q w" using assms(1) assms(2)[OF \<open>P x\<close>] unfolding maintains_def by blast
  then show "P y" using w assms(3)[OF \<open>P x\<close>] by simp
qed

lemma maintains_frame: "(\<And>x w. P x \<Longrightarrow> P (upd (\<lambda>_. w) x)) \<Longrightarrow> maintains P (field get upd dec)"
  by (auto simp: maintains_def field_def)

lemma maintains_int:
  "(\<And>x. P x \<Longrightarrow> in_i64 (get x)) \<Longrightarrow> (\<And>x w. P x \<Longrightarrow> in_i64 w \<Longrightarrow> P (upd (\<lambda>_. w) x)) \<Longrightarrow>
    maintains P (field get upd decode_int)"
  by (rule maintains_field[of in_i64]) (auto simp: maintains_def dest: decode_int_range)

lemma maintains_Unmarshal: "maintains P dec \<Longrightarrow> P zero \<Longrightarrow> Unmarshal dec zero data = Some y \<Longrightarrow> P y"
  by (auto simp: maintains_def Unmarshal_def split: option.splits)

definition openaiUsage_ok :: "openaiUsage \<Rightarrow> bool" where
  "openaiUsage_ok u \<longleftrightarrow> in_i64 (ou_PromptTokens u) \<and> in_i64 (ou_CompletionTokens u) \<and> in_i64 (ou_InputTokens u) \<and>
     in_i64 (ou_OutputTokens u) \<and> in_i64 (ou_TotalTokens u)"

definition azureUsage_ok :: "azureUsage \<Rightarrow> bool" where
  "azureUsage_ok u \<longleftrightarrow> in_i64 (zu_PromptTokens u) \<and> in_i64 (zu_CompletionTokens u) \<and> in_i64 (zu_TotalTokens u)"

definition tokenPair_ok :: "tokenPair \<Rightarrow> bool" where
  "tokenPair_ok u \<longleftrightarrow> in_i64 (tk_InputTokens u) \<and> in_i64 (tk_OutputTokens u)"

definition usageMetadata_ok :: "usageMetadata \<Rightarrow> bool" where
  "usageMetadata_ok u \<longleftrightarrow> in_i64 (um_PromptTokenCount u) \<and> in_i64 (um_CandidatesTokenCount u) \<and> in_i64 (um_TotalTokenCount u)"

definition responsesUsage_ok :: "responsesUsage \<Rightarrow> bool" where
  "responsesUsage_ok u \<longleftrightarrow> in_i64 (ru_InputTokens u) \<and> in_i64 (ru_OutputTokens u) \<and> in_i64 (ru_TotalTokens u)"

lemmas usage_ok_defs = openaiUsage_ok_def azureUsage_ok_def tokenPair_ok_def usageMetadata_ok_def responsesUsage_ok_def

lemmas zero_values = no_openaiUsage_def no_azureUsage_def no_tokens_def no_responsesUsage_def no_chunk_def

lemma openaiUsage_range: "maintains openaiUsage_ok (decode_struct openaiUsage_fields)"
  by (rule maintains_struct) (auto simp: openaiUsage_fields_def usage_ok_defs intro!: maintains_int)

lemma azureUsage_range: "maintains azureUsage_ok (decode_struct azureUsage_fields)"
  by (rule maintains_struct) (auto simp: azureUsage_fields_def usage_ok_defs intro!: maintains_int)

lemma tokenPair_range: "maintains tokenPair_ok (decode_struct tokenPair_fields)"
  by (rule maintains_struct) (auto simp: tokenPair_fields_def usage_ok_defs intro!: maintains_int)

lemma usageMetadata_range: "maintains usageMetadata_ok (decode_struct usageMetadata_fields)"
  by (rule maintains_struct) (auto simp: usageMetadata_fields_def usage_ok_defs intro!: maintains_int)

lemma responsesUsage_range: "maintains responsesUsage_ok (decode_struct responsesUsage_fields)"
  by (rule maintains_struct) (auto simp: responsesUsage_fields_def usage_ok_defs intro!: maintains_int)

definition resp_ok :: "ResponseMeta \<Rightarrow> bool" where
  "resp_ok m \<longleftrightarrow> in_i64 (rs_InputTokens m) \<and> in_i64 (rs_OutputTokens m) \<and> in_i64 (rs_TotalTokens m)"

definition chunk_ok :: "StreamChunkMeta \<Rightarrow> bool" where
  "chunk_ok m \<longleftrightarrow> in_i64 (sc_InputTokens m) \<and> in_i64 (sc_OutputTokens m)"

lemma zero_ok [simp]: "openaiUsage_ok no_openaiUsage" "azureUsage_ok no_azureUsage" "tokenPair_ok no_tokens"
  "responsesUsage_ok no_responsesUsage" "chunk_ok no_chunk"
  "usageMetadata_ok \<lparr>um_PromptTokenCount = 0, um_CandidatesTokenCount = 0, um_TotalTokenCount = 0\<rparr>"
  by (simp_all add: usage_ok_defs zero_values chunk_ok_def)

text \<open>The predicates of the structs that hold usage.\<close>

lemma openaiResponse_range:
  "maintains (\<lambda>x. openaiUsage_ok (op_Usage x)) (decode_struct openaiCompatResponse_fields)"
  by (rule maintains_struct)
     (auto simp: openaiCompatResponse_fields_def intro: maintains_frame intro!: maintains_field[OF openaiUsage_range])

lemma azureResponse_range: "maintains (\<lambda>x. azureUsage_ok (zp_Usage x)) (decode_struct azureResponse_fields)"
  by (rule maintains_struct)
     (auto simp: azureResponse_fields_def intro: maintains_frame intro!: maintains_field[OF azureUsage_range])

lemma anthropicResponse_range: "maintains (\<lambda>x. tokenPair_ok (ap_Usage x)) (decode_struct anthropicResponse_fields)"
  by (rule maintains_struct)
     (auto simp: anthropicResponse_fields_def intro: maintains_frame intro!: maintains_field[OF tokenPair_range])

lemma geminiResponse_range:
  "maintains (\<lambda>x. pred_option usageMetadata_ok (gp_UsageMetadata x)) (decode_struct geminiResponse_fields)"
  by (rule maintains_struct)
     (auto simp: geminiResponse_fields_def intro: maintains_frame
       intro!: maintains_field[OF maintains_ptr[OF usageMetadata_range]])

lemma cohereResponse_range:
  "maintains (\<lambda>x. pred_option (\<lambda>c. pred_option tokenPair_ok (ct_Tokens c)) (cp_Meta x)) (decode_struct cohereResponse_fields)"
proof -
  have "maintains (\<lambda>c. pred_option tokenPair_ok (ct_Tokens c)) (decode_struct
      [(''tokens'', field ct_Tokens ct_Tokens_update (decode_ptr no_tokens (decode_struct tokenPair_fields)))])"
    by (rule maintains_struct) (auto intro!: maintains_field[OF maintains_ptr[OF tokenPair_range]])
  from maintains_ptr[OF this, of "\<lparr>ct_Tokens = None\<rparr>"] show ?thesis
    by (intro maintains_struct)
       (auto simp: cohereResponse_fields_def intro: maintains_frame
         intro!: maintains_field[of "pred_option (\<lambda>c. pred_option tokenPair_ok (ct_Tokens c))"])
qed

lemma openaiChunk_range:
  "maintains (\<lambda>x. pred_option openaiUsage_ok (oh_Usage x) \<and>
     pred_option (\<lambda>r. pred_option responsesUsage_ok (ro_Usage r)) (oh_Response x))
     (decode_struct openaiCompatStreamChunk_fields)"
proof -
  have "maintains (\<lambda>r. pred_option responsesUsage_ok (ro_Usage r)) (decode_struct responsesObject_fields)"
    by (rule maintains_struct)
       (auto simp: responsesObject_fields_def intro: maintains_frame
         intro!: maintains_field[OF maintains_ptr[OF responsesUsage_range]])
  from maintains_ptr[OF this, of "\<lparr>ro_Model = [], ro_Usage = None\<rparr>"] show ?thesis
    by (intro maintains_struct)
       (auto simp: openaiCompatStreamChunk_fields_def intro: maintains_frame
         intro!: maintains_field[OF maintains_ptr[OF openaiUsage_range]]
           maintains_field[of "pred_option (\<lambda>r. pred_option responsesUsage_ok (ro_Usage r))"])
qed

lemma azureChunk_range: "maintains (\<lambda>x. pred_option azureUsage_ok (zh_Usage x)) (decode_struct azureStreamChunk_fields)"
  by (rule maintains_struct)
     (auto simp: azureStreamChunk_fields_def intro: maintains_frame
       intro!: maintains_field[OF maintains_ptr[OF azureUsage_range]])

lemma anthropicEvent_range:
  "maintains (\<lambda>x. pred_option (\<lambda>m. pred_option tokenPair_ok (am_Usage m)) (ae_Message x) \<and>
     pred_option (\<lambda>u. in_i64 (au_OutputTokens u)) (ae_Usage x)) (decode_struct anthropicStreamEvent_fields)"
proof -
  have "maintains (\<lambda>m. pred_option tokenPair_ok (am_Usage m)) (decode_struct [
       (''model'', field am_Model am_Model_update decode_string),
       (''usage'', field am_Usage am_Usage_update (decode_ptr no_tokens (decode_struct tokenPair_fields)))])"
    by (rule maintains_struct) (auto intro: maintains_frame intro!: maintains_field[OF maintains_ptr[OF tokenPair_range]])
  note msg = maintains_ptr[OF this, of "\<lparr>am_Model = [], am_Usage = None\<rparr>"]
  have "maintains (\<lambda>u. in_i64 (au_OutputTokens u)) (decode_struct [
       (''output_tokens'', field au_OutputTokens au_OutputTokens_update decode_int)])"
    by (rule maintains_struct) (auto intro!: maintains_int)
  note use = maintains_ptr[OF this, of "\<lparr>au_OutputTokens = 0\<rparr>"]
  show ?thesis
    by (rule maintains_struct)
       (use msg use in \<open>auto simp: anthropicStreamEvent_fields_def intro: maintains_frame
         intro!: maintains_field[of "pred_option (\<lambda>m. pred_option tokenPair_ok (am_Usage m))"]
           maintains_field[of "pred_option (\<lambda>u. in_i64 (au_OutputTokens u))"]\<close>)
qed

lemma cohereEvent_range:
  "maintains (\<lambda>x. pred_option (\<lambda>d. pred_option (\<lambda>u. pred_option tokenPair_ok (cu_BilledUnits u)) (cl_Usage d)) (cv_Delta x))
     (decode_struct cohereStreamEvent_fields)"
proof -
  have "maintains (\<lambda>u. pred_option tokenPair_ok (cu_BilledUnits u)) (decode_struct [
       (''billed_units'', field cu_BilledUnits cu_BilledUnits_update (decode_ptr no_tokens (decode_struct tokenPair_fields)))])"
    by (rule maintains_struct) (auto intro!: maintains_field[OF maintains_ptr[OF tokenPair_range]])
  note use = maintains_ptr[OF this, of "\<lparr>cu_BilledUnits = None\<rparr>"]
  have "maintains (\<lambda>d. pred_option (\<lambda>u. pred_option tokenPair_ok (cu_BilledUnits u)) (cl_Usage d)) (decode_struct cohereDelta_fields)"
    by (rule maintains_struct)
       (use use in \<open>auto simp: cohereDelta_fields_def intro: maintains_frame
         intro!: maintains_field[of "pred_option (\<lambda>u. pred_option tokenPair_ok (cu_BilledUnits u))"]\<close>)
  from maintains_ptr[OF this, of "\<lparr>cl_Message = None, cl_FinishReason = [], cl_Usage = None\<rparr>"] show ?thesis
    by (intro maintains_struct)
       (auto simp: cohereStreamEvent_fields_def intro: maintains_frame intro!: maintains_field[of
         "pred_option (\<lambda>d. pred_option (\<lambda>u. pred_option tokenPair_ok (cu_BilledUnits u)) (cl_Usage d))"])
qed

text \<open>The ranges of what \<open>Unmarshal\<close> gives from the zero values.\<close>

lemma decoded_response:
  "Unmarshal (decode_struct openaiCompatResponse_fields) \<lparr>op_Model = [], op_Usage = no_openaiUsage\<rparr> d = Some x1 \<Longrightarrow>
     openaiUsage_ok (op_Usage x1)"
  "Unmarshal (decode_struct azureResponse_fields) \<lparr>zp_Model = [], zp_Usage = no_azureUsage\<rparr> d = Some x2 \<Longrightarrow>
     azureUsage_ok (zp_Usage x2)"
  "Unmarshal (decode_struct anthropicResponse_fields) \<lparr>ap_Model = [], ap_Usage = no_tokens\<rparr> d = Some x3 \<Longrightarrow>
     tokenPair_ok (ap_Usage x3)"
  "Unmarshal (decode_struct geminiResponse_fields) no_geminiResponse d = Some x4 \<Longrightarrow>
     pred_option usageMetadata_ok (gp_UsageMetadata x4)"
  "Unmarshal (decode_struct cohereResponse_fields) \<lparr>cp_Message = None, cp_Meta = None\<rparr> d = Some x5 \<Longrightarrow>
     pred_option (\<lambda>c. pred_option tokenPair_ok (ct_Tokens c)) (cp_Meta x5)"
  by (erule maintains_Unmarshal[OF openaiResponse_range, rotated] maintains_Unmarshal[OF azureResponse_range, rotated]
        maintains_Unmarshal[OF anthropicResponse_range, rotated] maintains_Unmarshal[OF geminiResponse_range, rotated]
        maintains_Unmarshal[OF cohereResponse_range, rotated], simp add: no_geminiResponse_def)+

lemma decoded_chunk:
  "Unmarshal (decode_struct openaiCompatStreamChunk_fields)
     \<lparr>oh_Model = [], oh_Choices = (0, []), oh_Usage = None, oh_Type = [], oh_Response = None\<rparr> d = Some x1 \<Longrightarrow>
     pred_option openaiUsage_ok (oh_Usage x1) \<and> pred_option (\<lambda>r. pred_option responsesUsage_ok (ro_Usage r)) (oh_Response x1)"
  "Unmarshal (decode_struct azureStreamChunk_fields) \<lparr>zh_Model = [], zh_Choices = (0, []), zh_Usage = None\<rparr> d = Some x2 \<Longrightarrow>
     pred_option azureUsage_ok (zh_Usage x2)"
  "Unmarshal (decode_struct anthropicStreamEvent_fields) \<lparr>ae_Type = [], ae_Message = None, ae_Delta = None, ae_Usage = None\<rparr> d = Some x3 \<Longrightarrow>
     pred_option (\<lambda>m. pred_option tokenPair_ok (am_Usage m)) (ae_Message x3) \<and> pred_option (\<lambda>u. in_i64 (au_OutputTokens u)) (ae_Usage x3)"
  "Unmarshal (decode_struct cohereStreamEvent_fields) \<lparr>cv_Type = [], cv_Delta = None\<rparr> d = Some x4 \<Longrightarrow>
     pred_option (\<lambda>d. pred_option (\<lambda>u. pred_option tokenPair_ok (cu_BilledUnits u)) (cl_Usage d)) (cv_Delta x4)"
  by (erule maintains_Unmarshal[OF openaiChunk_range, rotated] maintains_Unmarshal[OF azureChunk_range, rotated]
        maintains_Unmarshal[OF anthropicEvent_range, rotated] maintains_Unmarshal[OF cohereEvent_range, rotated], simp)+

lemma ParseResponse_range: "pv_ParseResponse p body = Some m \<Longrightarrow> resp_ok m"
  by (cases p)
     (auto simp: oc_ParseResponse_def az_ParseResponse_def an_ParseResponse_def ge_ParseResponse_def co_ParseResponse_def
       resp_ok_def usage_ok_defs Let_def split: option.splits dest!: decoded_response)

lemma chunk_ok_update:
  "chunk_ok (c\<lparr>sc_Model := s\<rparr>) = chunk_ok c" "chunk_ok (c\<lparr>sc_Text := s\<rparr>) = chunk_ok c"
  "chunk_ok (c\<lparr>sc_Done := b\<rparr>) = chunk_ok c"
  "chunk_ok c \<Longrightarrow> chunk_ok (c\<lparr>sc_InputTokens := n\<rparr>) = in_i64 n"
  "chunk_ok c \<Longrightarrow> chunk_ok (c\<lparr>sc_OutputTokens := n\<rparr>) = in_i64 n"
  by (auto simp: chunk_ok_def)

lemma oc_chunk_range: "oc_ParseStreamChunk e d = Some c \<Longrightarrow> chunk_ok c"
  using decoded_chunk(1)[of d]
  by (auto simp: oc_ParseStreamChunk_def chunk_ok_update openaiUsage_ok_def responsesUsage_ok_def Let_def
      split: option.splits if_split_asm)

lemma an_chunk_range: "an_ParseStreamChunk e d = Some c \<Longrightarrow> chunk_ok c"
  using decoded_chunk(3)[of d]
  by (auto simp: an_ParseStreamChunk_def chunk_ok_update tokenPair_ok_def Let_def split: option.splits if_split_asm)

lemma az_chunk_range: "az_ParseStreamChunk e d = Some c \<Longrightarrow> chunk_ok c"
  using decoded_chunk(2)[of d]
  by (auto simp: az_ParseStreamChunk_def chunk_ok_update azureUsage_ok_def Let_def split: option.splits)

lemma ge_chunk_range: "ge_ParseStreamChunk e d = Some c \<Longrightarrow> chunk_ok c"
  using decoded_response(4)[of "stripJSONArrayWrapper d"]
  by (auto simp: ge_ParseStreamChunk_def chunk_ok_update usageMetadata_ok_def Let_def split: option.splits if_split_asm)

lemma co_chunk_range: "co_ParseStreamChunk e d = Some c \<Longrightarrow> chunk_ok c"
  using decoded_chunk(4)[of d]
  by (auto simp: co_ParseStreamChunk_def chunk_ok_update tokenPair_ok_def Let_def split: option.splits if_split_asm)

lemma ParseStreamChunk_range: "pv_ParseStreamChunk p e d = Some c \<Longrightarrow> chunk_ok c"
  by (cases p) (auto simp: oc_chunk_range an_chunk_range az_chunk_range ge_chunk_range co_chunk_range)

section \<open>Properties\<close>

text \<open>
  C24. The order in which the map of extra providers is iterated does not matter: when the enabled
  extra providers have distinct path prefixes of one segment each, every order of them, with
  the same OpenAI and Anthropic settings, detects the same provider for every request.
\<close>

theorem Detect_order_irrelevant:
  assumes "routable (List.map_filter extra_provider (ps_Extra cfg))"
    and "mset order = mset (ps_Extra cfg)"
  shows "Detect (NewRegistry (cfg\<lparr>ps_Extra := order\<rparr>)) r = Detect (NewRegistry cfg) r"
proof -
  have "set (List.map_filter extra_provider order) = set (List.map_filter extra_provider (ps_Extra cfg))"
    using mset_eq_setD[OF assms(2)] by (simp add: List.map_filter_def)
  from Detect_set[OF assms(1) this] show ?thesis
    by (simp add: NewRegistry_def Detect_def)
qed

theorem Detect_order_irrelevant_witness:
  "let off = \<lparr>pc_Upstream = '''', pc_Enabled = False, pc_Type = '''', pc_PathPrefix = ''''\<rparr>;
       extra = (\<lambda>t u. \<lparr>pc_Upstream = u, pc_Enabled = True, pc_Type = t, pc_PathPrefix = ''''\<rparr>);
       a = (''groq'', extra ''openai'' ''https://api.groq.com/openai''); b = (''gemini'', extra ''gemini'' '''');
       cfg = \<lparr>ps_OpenAI = off, ps_Anthropic = off, ps_Extra = [a, b]\<rparr>;
       r = \<lparr>Method = ''POST'', Host = '''', Path = ''/groq/v1/chat/completions'', RawQuery = '''',
            ReqHeader = Map.empty, ReqBody = ''''\<rparr>
   in Detect (NewRegistry (cfg\<lparr>ps_Extra := [b, a]\<rparr>)) r = Detect (NewRegistry cfg) r \<and>
      Detect (NewRegistry cfg) r \<noteq> None"
  unfolding Let_def
  by (intro conjI, rule Detect_order_irrelevant)
     (simp_all add: routable_def one_segment_def extra_provider_def NewProviderByType_def NewOpenAICompatible_def
       NewGemini_def NewRegistry_def Detect_def List.map_filter_def oc_Match_def HasPrefix_def)

text \<open>
  Rewriting loses nothing of the path: for a request that is routed to a provider with a path
  prefix, the prefix followed by the rewritten path is the path of the request, and the
  rewritten path starts at a slash.
\<close>

theorem RewritePath_roundtrip:
  assumes "Detect providers r = Some p" and "pv_PathPrefix p = Some pre" and "pv_RewritePath p = Some f"
  shows "pre @ f (Path r) = Path r \<and> HasPrefix (f (Path r)) ''/''"
proof -
  have m: "pv_Match p r" using assms(1) by (auto simp: Detect_def find_Some_iff)
  show ?thesis
    using m assms(2,3) oc_routed.rewrite_roundtrip[of _ r] az_routed.rewrite_roundtrip[of _ r]
      ge_routed.rewrite_roundtrip[of r] co_routed.rewrite_roundtrip[of r]
    by (cases p) auto
qed

theorem RewritePath_roundtrip_witness:
  "let r = \<lparr>Method = ''POST'', Host = '''', Path = ''/groq/v1/chat/completions'', RawQuery = '''',
            ReqHeader = Map.empty, ReqBody = ''''\<rparr>
   in ''/groq'' @ oc_RewritePath (NewGroq '''') (Path r) = Path r \<and>
      HasPrefix (oc_RewritePath (NewGroq '''') (Path r)) ''/''"
  unfolding Let_def
  by (rule RewritePath_roundtrip[of "[POpenAI (NewGroq '''')]" _ "POpenAI (NewGroq '''')"])
     (simp_all add: Detect_def NewGroq_def NewOpenAICompatible_def oc_Match_def HasPrefix_def)


lemma sample_response:
  "pv_ParseResponse (PAnthropic (NewAnthropic ''u''))
     ''{\"model\":\"claude\", \"id\":[1], \"usage\":{\"input_tokens\":12,\"output_tokens\":30}}''
   = Some \<lparr>rs_Model = ''claude'', rs_InputTokens = 12, rs_OutputTokens = 30, rs_TotalTokens = 42\<rparr>"
  by code_simp


text \<open>The prefixes for the server's routes: every non-empty one, once.\<close>

lemma PathPrefixes_exact:
  "set (PathPrefixes ps) = {pre. pre \<noteq> '''' \<and> Some pre \<in> pv_PathPrefix ` set ps} \<and> distinct (PathPrefixes ps)"
proof -
  have "set (PathPrefixes_loop ps acc) = set acc \<union> {pre. pre \<noteq> '''' \<and> Some pre \<in> pv_PathPrefix ` set ps} \<and>
      (distinct acc \<longrightarrow> distinct (PathPrefixes_loop ps acc))" for acc
    by (induction ps arbitrary: acc) (auto split: option.splits)
  from this[of "[]"] show ?thesis by (simp add: PathPrefixes_def)
qed

end
