(* ===== verification/Float64.thy ===== *)
theory Float64
  imports Go_Prelude "HOL-Library.Log_Nat"
begin

text \<open>
  Go's \<open>float64\<close>: IEEE 754 binary64 with round to nearest, ties to even. A value is the
  rational number it denotes, and every arithmetic operation of the program is the exact
  operation followed by \<open>fl\<close>, the rounding. \<open>fl\<close> is executable and covers normal and
  subnormal numbers. The infinities, NaN and the sign of zero are outside the model: the
  amounts of this program are finite (a JSON document cannot spell the others), and the
  exponent is unbounded above.

  The theory proves what the components need of rounding: it is monotone, it is exact on
  the values that are already floats, and it errs by at most one part in \<open>2 ^ 53\<close>.
\<close>

type_synonym float64 = rat

section \<open>Definitions\<close>

text \<open>The position of the leading bit: \<open>2 powi flog2 x \<le> x < 2 powi (flog2 x + 1)\<close>.\<close>

definition flog2 :: "rat \<Rightarrow> int" where
  "flog2 x = (case quotient_of x of (a, b) \<Rightarrow>
     let e = bitlen a - bitlen b in if 2 powi e \<le> x then e else e - 1)"

text \<open>Round to the nearest integer, ties to the even one.\<close>

definition rne :: "rat \<Rightarrow> int" where
  "rne x = (let f = \<lfloor>x\<rfloor>; d = x - of_int f in
     if d < 1 / 2 then f else if d > 1 / 2 then f + 1 else if even f then f else f + 1)"

text \<open>The exponent of the last place: 53 significant bits, and no bit below \<open>2 ^ -1074\<close>.\<close>

definition ulp_exp :: "rat \<Rightarrow> int" where
  "ulp_exp x = max (flog2 \<bar>x\<bar> - 52) (- 1074)"

definition fl :: "rat \<Rightarrow> float64" where
  "fl x = (if x = 0 then 0 else of_int (rne (x / 2 powi ulp_exp x)) * 2 powi ulp_exp x)"

definition fadd :: "float64 \<Rightarrow> float64 \<Rightarrow> float64" where "fadd x y = fl (x + y)"
definition fsub :: "float64 \<Rightarrow> float64 \<Rightarrow> float64" where "fsub x y = fl (x - y)"
definition fmul :: "float64 \<Rightarrow> float64 \<Rightarrow> float64" where "fmul x y = fl (x * y)"
definition fdiv :: "float64 \<Rightarrow> float64 \<Rightarrow> float64" where "fdiv x y = fl (x / y)"

text \<open>The conversion \<open>float64(n)\<close> of an integer.\<close>

definition float_of_int :: "int \<Rightarrow> float64" where "float_of_int n = fl (of_int n)"

text \<open>The values a \<open>float64\<close> variable can hold.\<close>

definition is_float :: "rat \<Rightarrow> bool" where "is_float x \<longleftrightarrow> fl x = x"

section \<open>Powers of two and the leading bit\<close>

lemma pow2_pos [simp]: "0 < (2 :: rat) powi e"
  by (simp add: zero_less_power_int)

lemma pow2_mono: "e \<le> e' \<Longrightarrow> (2 :: rat) powi e \<le> 2 powi e'"
  by (simp add: power_int_increasing)

lemma pow2_less_iff [simp]: "(2 :: rat) powi e < 2 powi e' \<longleftrightarrow> e < e'"
  using power_int_strict_increasing[of e e' "2::rat"] pow2_mono[of e' e] by force

lemma pow2_add: "(2 :: rat) powi (a + b) = 2 powi a * 2 powi b"
  by (simp add: power_int_add)

lemma pow2_nat: "0 \<le> e \<Longrightarrow> (2 :: rat) powi e = of_int (2 ^ nat e)"
  by (simp add: power_int_def)

lemma flog2_bounds:
  assumes "0 < x"
  shows "2 powi flog2 x \<le> x \<and> x < 2 powi (flog2 x + 1)"
proof -
  obtain a b where ab: "quotient_of x = (a, b)" by fastforce
  have b: "0 < b" using ab by (rule quotient_of_denom_pos)
  have x: "x = of_int a / of_int b" using ab by (rule quotient_of_div)
  with assms b have a: "0 < a" by (simp add: zero_less_divide_iff)
  define e where "e = bitlen a - bitlen b"
  have pos: "0 < bitlen a" "0 < bitlen b"
    using a b bitlen_nonneg[of a] bitlen_nonneg[of b] bitlen_eq_zero_iff[of a] bitlen_eq_zero_iff[of b]
    by linarith+
  have low: "(2::rat) powi (bitlen z - 1) \<le> of_int z" and high: "of_int z < (2::rat) powi bitlen z"
    if "0 < z" "0 < bitlen z" for z
    using bitlen_bounds[OF that(1)] that(2)
    by (auto simp only: pow2_nat of_int_le_iff of_int_less_iff)
  have "x < 2 powi (e + 1)"
  proof -
    have "of_int a < (2::rat) powi (e + 1) * 2 powi (bitlen b - 1)"
      using high[OF a pos(1)] by (simp add: e_def flip: pow2_add)
    also have "\<dots> \<le> 2 powi (e + 1) * of_int b"
      using low[OF b pos(2)] by simp
    finally show ?thesis using b by (simp add: x field_simps)
  qed
  moreover have "2 powi (e - 1) \<le> x"
  proof -
    have "(2::rat) powi (e - 1) * of_int b \<le> 2 powi (e - 1) * 2 powi bitlen b"
      using high[OF b pos(2)] by simp
    also have "\<dots> \<le> of_int a"
      using low[OF a pos(1)] by (simp add: e_def flip: pow2_add)
    finally show ?thesis using b by (simp add: x field_simps)
  qed
  ultimately show ?thesis
    by (auto simp: flog2_def ab e_def Let_def)
qed

lemma flog2_eqI:
  assumes "2 powi e \<le> x" "x < 2 powi (e + 1)"
  shows "flog2 x = e"
proof -
  have "0 < x" using assms(1) pow2_pos[of e] by linarith
  then have b: "2 powi flog2 x \<le> x" "x < 2 powi (flog2 x + 1)"
    using flog2_bounds by auto
  have "(2::rat) powi e < 2 powi (flog2 x + 1)" "(2::rat) powi flog2 x < 2 powi (e + 1)"
    using b assms by linarith+
  then show ?thesis by simp
qed

lemma flog2_mono:
  assumes "0 < x" "x \<le> y"
  shows "flog2 x \<le> flog2 y"
proof -
  have "(2::rat) powi flog2 x < 2 powi (flog2 y + 1)"
    using flog2_bounds[of x] flog2_bounds[of y] assms by linarith
  then show ?thesis by simp
qed

section \<open>Rounding to an integer\<close>

lemma rne_of_int [simp]: "rne (of_int n) = n"
  by (simp add: rne_def)

lemma rne_near: "\<lfloor>x\<rfloor> \<le> rne x \<and> rne x \<le> \<lfloor>x\<rfloor> + 1"
  by (simp add: rne_def Let_def)

lemma rne_mono: "x \<le> y \<Longrightarrow> rne x \<le> rne y"
proof (cases "\<lfloor>x\<rfloor> = \<lfloor>y\<rfloor>")
  case True
  assume "x \<le> y"
  with True show ?thesis by (auto simp: rne_def Let_def)
next
  case False
  assume "x \<le> y"
  then have "\<lfloor>x\<rfloor> \<le> \<lfloor>y\<rfloor>" by (rule floor_mono)
  with False show ?thesis using rne_near[of x] rne_near[of y] by linarith
qed

lemma rne_error: "\<bar>of_int (rne x) - x\<bar> \<le> 1 / 2"
  by (simp add: rne_def Let_def abs_if; linarith)

lemma rne_minus: "rne (- x) = - rne x"
proof (cases "x = of_int \<lfloor>x\<rfloor>")
  case True
  then show ?thesis by (metis of_int_minus rne_of_int)
next
  case False
  then have f: "\<lfloor>- x\<rfloor> = - \<lfloor>x\<rfloor> - 1"
    by (intro floor_unique) linarith+
  show ?thesis by (auto simp: rne_def Let_def f)
qed

section \<open>Rounding to a float\<close>

lemma fl_0 [simp]: "fl 0 = 0"
  by (simp add: fl_def)

lemma fl_minus: "fl (- x) = - fl x"
  by (simp add: fl_def ulp_exp_def rne_minus flip: minus_divide_left)

text \<open>An integer multiple of the last place is rounded to itself.\<close>

lemma fl_exact_ulp: "x = of_int m * 2 powi ulp_exp x \<Longrightarrow> fl x = x"
  by (simp add: fl_def) (metis nonzero_mult_div_cancel_right pow2_pos less_irrefl rne_of_int)

lemma fl_representable:
  assumes x: "x = of_int m * 2 powi e" and m: "\<bar>m\<bar> < 2 ^ 53" and e: "- 1074 \<le> e"
  shows "fl x = x"
proof (cases "x = 0")
  case False
  then have "0 < \<bar>x\<bar>" by simp
  then have "2 powi flog2 \<bar>x\<bar> \<le> \<bar>x\<bar>" using flog2_bounds by blast
  also have "\<bar>x\<bar> = of_int \<bar>m\<bar> * 2 powi e" by (simp add: x abs_mult)
  also have "\<dots> < of_int (2 ^ 53) * 2 powi e"
    using m by (intro mult_strict_right_mono) (simp_all only: of_int_less_iff pow2_pos)
  also have "\<dots> = 2 powi (53 + e)" by (simp add: pow2_add pow2_nat)
  finally have "ulp_exp x \<le> e" using e by (simp add: ulp_exp_def)
  then have "x = of_int (m * 2 ^ nat (e - ulp_exp x)) * 2 powi ulp_exp x"
    using pow2_nat[of "e - ulp_exp x"] pow2_add[of "e - ulp_exp x" "ulp_exp x"] by (simp add: x)
  then show ?thesis by (rule fl_exact_ulp)
qed simp

lemma fl_pow2: "- 1074 \<le> e \<Longrightarrow> fl (2 powi e) = 2 powi e"
  by (rule fl_representable[of _ 1 e]) simp_all

lemma fl_of_int: "\<bar>n\<bar> < 2 ^ 53 \<Longrightarrow> fl (of_int n) = of_int n"
  by (rule fl_representable[of _ n 0]) simp_all

lemma fl_numeral: "(numeral w :: int) < 2 ^ 53 \<Longrightarrow> fl (numeral w) = numeral w"
  using fl_of_int[of "numeral w"] by simp

lemma fl_1 [simp]: "fl 1 = 1"
  using fl_of_int[of 1] by simp

lemma ulp_exp_cong: "\<bar>x\<bar> = \<bar>y\<bar> \<Longrightarrow> ulp_exp x = ulp_exp y"
  by (simp add: ulp_exp_def)

lemma fl_nonneg: "0 \<le> x \<Longrightarrow> 0 \<le> fl x"
  using rne_mono[of 0 "x / 2 powi ulp_exp x"] rne_of_int[of 0]
  by (auto simp: fl_def intro!: mult_nonneg_nonneg)

text \<open>On either side of a power of two the rounding stays on that side.\<close>

lemma fl_le_pow2:
  assumes "0 < x" "x \<le> 2 powi (flog2 x + 1)"
  shows "fl x \<le> 2 powi max (flog2 x + 1) (- 1074)"
proof -
  define u where "u = ulp_exp x"
  define k where "k = max (flog2 x + 1) (- 1074) - u"
  have k: "0 \<le> k" using assms(1) by (simp add: k_def u_def ulp_exp_def)
  have "x / 2 powi u \<le> 2 powi (k + u) / 2 powi u"
    using assms(2) pow2_mono[of "flog2 x + 1" "k + u"] by (intro divide_right_mono) (auto simp: k_def less_imp_le)
  also have "\<dots> = of_int (2 ^ nat k)" using k by (simp add: pow2_add pow2_nat)
  finally have "rne (x / 2 powi u) \<le> 2 ^ nat k" using rne_mono rne_of_int by metis
  then have "of_int (rne (x / 2 powi u)) * 2 powi u \<le> of_int (2 ^ nat k) * (2::rat) powi u"
    by (intro mult_right_mono) (simp_all only: of_int_le_iff less_imp_le pow2_pos)
  also have "\<dots> = 2 powi (k + u)" using k by (simp add: pow2_add pow2_nat)
  finally show ?thesis using assms(1) by (simp add: fl_def u_def k_def)
qed

lemma fl_ge_pow2:
  assumes "0 < x" "- 1074 \<le> flog2 x"
  shows "2 powi flog2 x \<le> fl x"
proof -
  define u where "u = ulp_exp x"
  define k where "k = flog2 x - u"
  have k: "0 \<le> k" using assms by (simp add: k_def u_def ulp_exp_def)
  have "of_int (2 ^ nat k) = (2::rat) powi (k + u) / 2 powi u" using k by (simp add: pow2_add pow2_nat)
  also have "\<dots> \<le> x / 2 powi u"
    using flog2_bounds[OF assms(1)] by (intro divide_right_mono) (auto simp: k_def less_imp_le)
  finally have "2 ^ nat k \<le> rne (x / 2 powi u)" using rne_mono rne_of_int by metis
  then have "of_int (2 ^ nat k) * (2::rat) powi u \<le> of_int (rne (x / 2 powi u)) * 2 powi u"
    by (intro mult_right_mono) (simp_all only: of_int_le_iff less_imp_le pow2_pos)
  then have "2 powi (k + u) \<le> of_int (rne (x / 2 powi u)) * (2::rat) powi u"
    using k by (simp only: pow2_add pow2_nat)
  then show ?thesis using assms(1) by (simp add: fl_def u_def k_def)
qed

lemma fl_mono_pos:
  assumes "0 < x" "x \<le> y"
  shows "fl x \<le> fl y"
proof (cases "ulp_exp x = ulp_exp y")
  case True
  have "x / 2 powi ulp_exp y \<le> y / 2 powi ulp_exp y"
    using assms by (intro divide_right_mono) (auto simp: less_imp_le)
  then have "rne (x / 2 powi ulp_exp y) \<le> rne (y / 2 powi ulp_exp y)" by (rule rne_mono)
  then show ?thesis using assms True by (simp add: fl_def)
next
  case False
  have m: "flog2 x \<le> flog2 y" using assms by (rule flog2_mono)
  with False assms have lt: "flog2 x < flog2 y" "- 1074 \<le> flog2 y"
    by (auto simp: ulp_exp_def)
  have "fl x \<le> 2 powi max (flog2 x + 1) (- 1074)"
    using assms(1) flog2_bounds[of x] by (intro fl_le_pow2) auto
  also have "\<dots> \<le> 2 powi flog2 y" using lt by (intro pow2_mono) simp
  also have "\<dots> \<le> fl y" using assms lt by (intro fl_ge_pow2) auto
  finally show ?thesis .
qed

lemma fl_mono: "x \<le> y \<Longrightarrow> fl x \<le> fl y"
proof -
  assume le: "x \<le> y"
  consider "0 < x" | "x \<le> 0" "0 \<le> y" | "y < 0" by linarith
  then show ?thesis
  proof cases
    case 1
    then show ?thesis using le by (rule fl_mono_pos)
  next
    case 2
    then show ?thesis using fl_nonneg[of y] fl_nonneg[of "- x"] by (simp add: fl_minus)
  next
    case 3
    then show ?thesis using le fl_mono_pos[of "- y" "- x"] by (simp add: fl_minus)
  qed
qed

text \<open>The result of a rounding is a float.\<close>

lemma fl_bounded_multiple:
  assumes "0 < x"
  shows "\<exists>m e. fl x = of_int m * 2 powi e \<and> 0 \<le> m \<and> m \<le> 2 ^ 53 \<and> - 1074 \<le> e"
proof -
  define u where "u = ulp_exp x"
  have u: "- 1074 \<le> u" "flog2 x + 1 \<le> 53 + u" using assms by (auto simp: u_def ulp_exp_def)
  have "x < 2 powi (flog2 x + 1)" using flog2_bounds[OF assms] by blast
  also have "\<dots> \<le> 2 powi (53 + u)" using u by (intro pow2_mono) simp
  also have "\<dots> = of_int (2 ^ 53) * 2 powi u" by (simp add: pow2_add pow2_nat)
  finally have "x / 2 powi u \<le> of_int (2 ^ 53)" by (simp add: field_simps)
  then have "rne (x / 2 powi u) \<le> 2 ^ 53" using rne_mono rne_of_int by metis
  moreover have "0 \<le> rne (x / 2 powi u)"
    using assms rne_mono[of 0 "x / 2 powi u"] rne_of_int[of 0] by simp
  moreover have "fl x = of_int (rne (x / 2 powi u)) * 2 powi u"
    using assms by (simp add: fl_def u_def)
  ultimately show ?thesis using u(1) by blast
qed

lemma fl_idem_pos: "0 < x \<Longrightarrow> fl (fl x) = fl x"
proof -
  assume "0 < x"
  then obtain m e where f: "fl x = of_int m * 2 powi e" and m: "0 \<le> m" "m \<le> 2 ^ 53" and e: "- 1074 \<le> e"
    using fl_bounded_multiple by blast
  show ?thesis
  proof (cases "m = 2 ^ 53")
    case True
    then have "fl x = 2 powi (53 + e)" by (simp add: f pow2_add pow2_nat)
    then show ?thesis using e by (simp add: fl_pow2)
  next
    case False
    then show ?thesis using m e by (intro fl_representable[OF f]) auto
  qed
qed

lemma fl_idem [simp]: "fl (fl x) = fl x"
  using fl_idem_pos[of x] fl_idem_pos[of "- x"] by (cases x "0 :: rat" rule: linorder_cases) (simp_all add: fl_minus)

lemma is_float_fl [simp, intro]: "is_float (fl x)"
  by (simp add: is_float_def)

lemma is_float_0 [simp]: "is_float 0"
  by (simp add: is_float_def)

lemma fl_le_float: "is_float y \<Longrightarrow> x \<le> y \<Longrightarrow> fl x \<le> y"
  using fl_mono[of x y] by (simp add: is_float_def)

lemma float_le_fl: "is_float y \<Longrightarrow> y \<le> x \<Longrightarrow> y \<le> fl x"
  using fl_mono[of y x] by (simp add: is_float_def)

section \<open>The relative error\<close>

text \<open>One rounding errs by at most half a unit in the last place.\<close>

lemma fl_error_ulp: "\<bar>fl x - x\<bar> \<le> 2 powi (ulp_exp x - 1)"
proof (cases "x = 0")
  case False
  define u where "u = ulp_exp x"
  have "fl x - x = (of_int (rne (x / 2 powi u)) - x / 2 powi u) * 2 powi u"
    using False by (simp add: fl_def u_def field_simps)
  then have "\<bar>fl x - x\<bar> = \<bar>of_int (rne (x / 2 powi u)) - x / 2 powi u\<bar> * 2 powi u"
    by (simp add: abs_mult)
  also have "\<dots> \<le> 1 / 2 * 2 powi u"
    by (intro mult_right_mono rne_error) (simp add: less_imp_le)
  also have "\<dots> = 2 powi (u - 1)" using pow2_add[of "u - 1" 1] by simp
  finally show ?thesis by (simp add: u_def)
qed simp

lemma fl_error_rel:
  assumes "2 powi (- 1022) \<le> \<bar>x\<bar>"
  shows "\<bar>fl x - x\<bar> \<le> \<bar>x\<bar> / 2 ^ 53"
proof -
  have pos: "0 < \<bar>x\<bar>" using assms pow2_pos[of "- 1022"] by linarith
  have "(2::rat) powi (- 1022) < 2 powi (flog2 \<bar>x\<bar> + 1)"
    using assms flog2_bounds[OF pos] by linarith
  then have "- 1022 < flog2 \<bar>x\<bar> + 1" by (simp only: pow2_less_iff)
  then have "ulp_exp x = flog2 \<bar>x\<bar> - 52" by (simp add: ulp_exp_def)
  then have "\<bar>fl x - x\<bar> \<le> 2 powi (flog2 \<bar>x\<bar> - 53)" using fl_error_ulp[of x] by simp
  also have "\<dots> = 2 powi flog2 \<bar>x\<bar> / 2 ^ 53"
    using pow2_add[of "flog2 \<bar>x\<bar> - 53" 53] by (simp add: pow2_nat)
  also have "\<dots> \<le> \<bar>x\<bar> / 2 ^ 53"
    using flog2_bounds[OF pos] by (intro divide_right_mono) auto
  finally show ?thesis .
qed

text \<open>
  How an error grows: \<open>x\<close> is within the relative distance \<open>d\<close> of \<open>y\<close> and is rounded.
  The lower bound keeps \<open>x\<close> clear of the subnormal numbers.
\<close>

definition rel_err :: "rat \<Rightarrow> rat \<Rightarrow> rat \<Rightarrow> bool" where
  "rel_err d x y \<longleftrightarrow> \<bar>x - y\<bar> \<le> d * y"

lemma fl_rel:
  assumes "x = 0 \<or> 1 / 10 ^ 20 \<le> x"
  shows "rel_err (1 / 2 ^ 53) (fl x) x"
proof (cases "x = 0")
  case False
  have "(2::rat) powi (- 1022) \<le> 2 powi (- 70)" by (rule pow2_mono) simp
  also have "\<dots> \<le> 1 / 10 ^ 20" by (simp add: power_int_def power_divide)
  also have "\<dots> \<le> \<bar>x\<bar>" using assms False by linarith
  finally have "\<bar>fl x - x\<bar> \<le> \<bar>x\<bar> / 2 ^ 53" by (rule fl_error_rel)
  moreover have "0 < x" using assms False less_le_trans[of 0 "1 / 10 ^ 20 :: rat" x] by simp
  ultimately show ?thesis by (simp add: rel_err_def)
qed (simp add: rel_err_def)

lemma fl_ge_half: "1 / 10 ^ 20 \<le> x \<Longrightarrow> x / 2 \<le> fl x"
proof -
  assume x: "1 / 10 ^ 20 \<le> x"
  have "0 < x" using x less_le_trans[of 0 "1 / 10 ^ 20 :: rat" x] by simp
  moreover have "- (fl x - x) \<le> 1 / 2 ^ 53 * x"
    using fl_rel[of x] x unfolding rel_err_def abs_le_iff by blast
  ultimately show ?thesis by simp
qed

lemma fl_rel_step:
  assumes "rel_err d x y" and "x = 0 \<or> 1 / 10 ^ 20 \<le> x"
  shows "rel_err (d + (1 + d) / 2 ^ 53) (fl x) y"
proof -
  have "\<bar>fl x - x\<bar> \<le> 1 / 2 ^ 53 * x" using fl_rel[OF assms(2)] by (simp add: rel_err_def)
  moreover have "x \<le> (1 + d) * y" "\<bar>x - y\<bar> \<le> d * y"
    using assms(1) by (auto simp: rel_err_def algebra_simps)
  moreover have "1 / 2 ^ 53 * x \<le> 1 / 2 ^ 53 * ((1 + d) * y)"
    using \<open>x \<le> (1 + d) * y\<close> by (intro mult_left_mono) auto
  ultimately have "\<bar>fl x - y\<bar> \<le> 1 / 2 ^ 53 * ((1 + d) * y) + d * y" by linarith
  then show ?thesis by (simp add: rel_err_def algebra_simps)
qed

lemma rel_err_mult: "rel_err d x y \<Longrightarrow> 0 \<le> c \<Longrightarrow> rel_err d (x * c) (y * c)"
  using mult_right_mono[of "\<bar>x - y\<bar>" "d * y" c]
  by (simp add: rel_err_def abs_mult mult.assoc flip: left_diff_distrib)

lemma rel_err_add: "rel_err d x y \<Longrightarrow> rel_err d x' y' \<Longrightarrow> rel_err d (x + x') (y + y')"
  by (simp add: rel_err_def distrib_left)

lemma rel_err_weaken: "rel_err d x y \<Longrightarrow> d \<le> d' \<Longrightarrow> 0 \<le> y \<Longrightarrow> rel_err d' x y"
  using mult_right_mono[of d d' y] by (simp add: rel_err_def)

section \<open>The operations\<close>

lemmas float_ops = fadd_def fsub_def fmul_def fdiv_def float_of_int_def

lemma fadd_mono: "x \<le> x' \<Longrightarrow> y \<le> y' \<Longrightarrow> fadd x y \<le> fadd x' y'"
  unfolding fadd_def by (intro fl_mono add_mono)

lemma fmul_mono: "x \<le> x' \<Longrightarrow> 0 \<le> y \<Longrightarrow> fmul x y \<le> fmul x' y"
  unfolding fmul_def by (intro fl_mono mult_right_mono)

lemma fdiv_mono: "x \<le> x' \<Longrightarrow> 0 < y \<Longrightarrow> fdiv x y \<le> fdiv x' y"
  unfolding fdiv_def by (intro fl_mono divide_right_mono) auto

lemma float_of_int_mono: "m \<le> n \<Longrightarrow> float_of_int m \<le> float_of_int n"
  unfolding float_of_int_def by (intro fl_mono) simp

lemma float_of_int_0 [simp]: "float_of_int 0 = 0"
  by (simp add: float_of_int_def)

lemma fadd_nonneg: "0 \<le> x \<Longrightarrow> 0 \<le> y \<Longrightarrow> 0 \<le> fadd x y"
  unfolding fadd_def by (intro fl_nonneg) simp

lemma fmul_nonneg: "0 \<le> x \<Longrightarrow> 0 \<le> y \<Longrightarrow> 0 \<le> fmul x y"
  unfolding fmul_def by (intro fl_nonneg) simp

lemma fdiv_nonneg: "0 \<le> x \<Longrightarrow> 0 \<le> y \<Longrightarrow> 0 \<le> fdiv x y"
  unfolding fdiv_def by (intro fl_nonneg) simp

lemma float_of_int_nonneg: "0 \<le> n \<Longrightarrow> 0 \<le> float_of_int n"
  using float_of_int_mono[of 0 n] by simp

text \<open>Adding a non-negative amount to a float never makes it smaller.\<close>

lemma fadd_ge_left: "is_float x \<Longrightarrow> 0 \<le> y \<Longrightarrow> x \<le> fadd x y"
  unfolding fadd_def by (rule float_le_fl) auto

lemma is_float_ops [simp, intro]:
  "is_float (fadd x y)" "is_float (fsub x y)" "is_float (fmul x y)" "is_float (fdiv x y)"
  "is_float (float_of_int n)"
  by (simp_all add: float_ops)

end
