(* ===== verification/Agent.thy ===== *)
theory Agent
  imports Float64 "HOL-Library.AList" "HOL-Library.Multiset"
begin

text \<open>
  Agent sessions (\<open>internal/agent\<close>): the in-memory tracker with its loop and ghost detector,
  and the session store it flushes to. All operations run under the tracker's mutex, so a run is
  a sequence of them; the ticks of the background goroutine are operations of their own.

  The map of sessions is an association list with distinct keys. Go ranges over a map in no
  particular order: operations whose result can depend on it take the order as an argument, a
  function that permutes the list.
\<close>

section \<open>Data\<close>

record Session =
  s_ID :: string
  s_AgentID :: string
  s_UserID :: string
  s_Task :: string
  s_StartedAt :: time
  s_EndedAt :: "time option"
  s_Status :: string
  s_CallCount :: int
  s_TotalCostUSD :: float64
  s_TotalTokens :: int

record CallRecord =
  cr_Timestamp :: time
  cr_Model :: string
  cr_Path :: string

record agent_config =
  SessionTimeoutMins :: int
  LoopThreshold :: int
  LoopWindowMins :: int
  LoopAction :: string
  GhostMaxAgeMins :: int
  GhostMinCalls :: int
  GhostMinCostUSD :: float64

text \<open>The text of an alert, as the values its format verbs print.\<close>

datatype alert_message =
    LoopMessage string int duration int
  | GhostMessage duration int float64

record agent_alert =
  aa_Type :: string
  aa_SessionID :: string
  aa_AgentID :: string
  aa_Message :: alert_message

record Detector =
  loopThreshold :: int
  loopWindow :: duration
  ghostMaxAge :: duration
  ghostMinCalls :: int
  ghostMinCost :: float64

record trackedSession =
  ts_session :: Session
  ts_calls :: "CallRecord list"
  dirty :: bool
  ghostAlerted :: bool

type_synonym sessions = "(string \<times> trackedSession) list"
type_synonym iteration = "sessions \<Rightarrow> sessions"

record Tracker =
  t_cfg :: agent_config
  t_sessions :: sessions
  has_metrics :: bool
  has_notifier :: bool

text \<open>Calls of the metrics recorder and of the alert notifier.\<close>

datatype tracker_event =
    SessionStarted
  | SessionEnded
  | RecordAlert string
  | Notified agent_alert

definition maxActiveSessions :: nat where "maxActiveSessions = 10000"

definition StatusActive :: string where "StatusActive = ''active''"
definition StatusCompleted :: string where "StatusCompleted = ''completed''"

lemmas status_defs = StatusActive_def StatusCompleted_def

section \<open>Detector\<close>

definition NewDetector :: "agent_config \<Rightarrow> Detector" where
  "NewDetector cfg =
    \<lparr>loopThreshold = LoopThreshold cfg,
     loopWindow = i64 (LoopWindowMins cfg * Minute),
     ghostMaxAge = i64 (GhostMaxAgeMins cfg * Minute),
     ghostMinCalls = GhostMinCalls cfg,
     ghostMinCost = GhostMinCostUSD cfg\<rparr>"

text \<open>The loop from the last call backwards, which stops at the first call before the cutoff.\<close>

fun count_back :: "time \<Rightarrow> string \<Rightarrow> CallRecord list \<Rightarrow> int \<Rightarrow> int" where
  "count_back cutoff currentPath [] n = n"
| "count_back cutoff currentPath (c # cs) n =
    (if time_Before (cr_Timestamp c) cutoff then n
     else count_back cutoff currentPath cs (if cr_Path c = currentPath then n + 1 else n))"

definition CheckLoop :: "Detector \<Rightarrow> CallRecord list \<Rightarrow> string \<Rightarrow> string \<Rightarrow> string \<Rightarrow> time \<Rightarrow> agent_alert option" where
  "CheckLoop d calls currentPath sessionID agentID now =
    (if loopThreshold d \<le> 0 \<or> loopWindow d \<le> 0 then None
     else
       let cutoff = time_Add now (- loopWindow d);
           n = count_back cutoff currentPath (rev calls) 0
       in if n \<ge> loopThreshold d
          then Some \<lparr>aa_Type = ''loop_detected'', aa_SessionID = sessionID, aa_AgentID = agentID,
                     aa_Message = LoopMessage currentPath n (loopWindow d) (loopThreshold d)\<rparr>
          else None)"

text \<open>\<open>d.Truncate(m)\<close> for positive \<open>m\<close>: toward zero, to a multiple of \<open>m\<close>.\<close>

definition Truncate :: "duration \<Rightarrow> duration \<Rightarrow> duration" where
  "Truncate d m = (if d \<ge> 0 then d - d mod m else d + (- d) mod m)"

definition CheckGhost :: "Detector \<Rightarrow> Session \<Rightarrow> time \<Rightarrow> agent_alert option" where
  "CheckGhost d s now =
    (if ghostMaxAge d \<le> 0 then None
     else
       let age = time_Sub now (s_StartedAt s) in
       if age < ghostMaxAge d then None
       else if s_CallCount s < ghostMinCalls d then None
       else if s_TotalCostUSD s < ghostMinCost d then None
       else Some \<lparr>aa_Type = ''ghost_detected'', aa_SessionID = s_ID s, aa_AgentID = s_AgentID s,
                  aa_Message = GhostMessage (Truncate age Minute) (s_CallCount s) (s_TotalCostUSD s)\<rparr>)"

section \<open>Tracker\<close>

definition NewTracker :: "agent_config \<Rightarrow> bool \<Rightarrow> Tracker" where
  "NewTracker cfg metrics = \<lparr>t_cfg = cfg, t_sessions = [], has_metrics = metrics, has_notifier = False\<rparr>"

definition SetAlertNotifier :: "Tracker \<Rightarrow> Tracker" where
  "SetAlertNotifier t = t\<lparr>has_notifier := True\<rparr>"

definition t_Enabled :: "Tracker \<Rightarrow> bool" where
  "t_Enabled t \<longleftrightarrow> LoopThreshold (t_cfg t) > 0 \<or> GhostMaxAgeMins (t_cfg t) > 0"

definition detector :: "Tracker \<Rightarrow> Detector" where
  "detector t = NewDetector (t_cfg t)"

definition lastActivity :: "trackedSession \<Rightarrow> time" where
  "lastActivity ts = (if ts_calls ts \<noteq> [] then cr_Timestamp (last (ts_calls ts)) else s_StartedAt (ts_session ts))"

text \<open>The range loop of \<open>evictOldest\<close> with its \<open>first\<close> flag: \<open>None\<close> while nothing is seen.\<close>

fun oldest :: "sessions \<Rightarrow> (string \<times> time) option \<Rightarrow> (string \<times> time) option" where
  "oldest [] best = best"
| "oldest ((i, ts) # rest) best =
    oldest rest (case best of
        None \<Rightarrow> Some (i, lastActivity ts)
      | Some (_, oldestTime) \<Rightarrow>
          if time_Before (lastActivity ts) oldestTime then Some (i, lastActivity ts) else best)"

definition evictOldest :: "iteration \<Rightarrow> Tracker \<Rightarrow> Tracker" where
  "evictOldest ord t =
    (case oldest (ord (t_sessions t)) None of
       Some (oldestID, _) \<Rightarrow>
         if oldestID \<noteq> '''' then t\<lparr>t_sessions := AList.delete oldestID (t_sessions t)\<rparr> else t
     | None \<Rightarrow> t)"

definition new_session :: "string \<Rightarrow> string \<Rightarrow> string \<Rightarrow> string \<Rightarrow> time \<Rightarrow> trackedSession" where
  "new_session sessionID agentID userID task now =
    \<lparr>ts_session = \<lparr>s_ID = sessionID, s_AgentID = agentID, s_UserID = userID, s_Task = task, s_StartedAt = now,
       s_EndedAt = None, s_Status = StatusActive, s_CallCount = 0, s_TotalCostUSD = 0, s_TotalTokens = 0\<rparr>,
     ts_calls = [], dirty = False, ghostAlerted = False\<rparr>"

text \<open>
  \<open>TrackCall\<close>. The four clock readings are those of the session's start, of the call record, of
  the trimming and of the loop check.
\<close>

definition get_or_start ::
  "iteration \<Rightarrow> Tracker \<Rightarrow> string \<Rightarrow> string \<Rightarrow> string \<Rightarrow> string \<Rightarrow> time \<Rightarrow> trackedSession \<times> tracker_event list \<times> Tracker" where
  "get_or_start ord t sessionID agentID userID task now =
    (case map_of (t_sessions t) sessionID of
       Some ts \<Rightarrow> (ts, [], t)
     | None \<Rightarrow>
        let t1 = (if length (t_sessions t) \<ge> maxActiveSessions then evictOldest ord t else t);
            ts = new_session sessionID agentID userID task now
        in (ts, if has_metrics t then [SessionStarted] else [],
            t1\<lparr>t_sessions := AList.update sessionID ts (t_sessions t1)\<rparr>))"

definition trim_calls :: "Tracker \<Rightarrow> time \<Rightarrow> CallRecord list \<Rightarrow> CallRecord list" where
  "trim_calls t now calls =
    (if loopWindow (detector t) > 0 \<and> int (length calls) > i64 (LoopThreshold (t_cfg t) * 10)
     then dropWhile (\<lambda>c. time_Before (cr_Timestamp c) (time_Add now (- loopWindow (detector t)))) calls
     else calls)"

type_synonym call_clocks = "time \<times> time \<times> time \<times> time"

definition TrackCall ::
  "iteration \<Rightarrow> Tracker \<Rightarrow> string \<Rightarrow> string \<Rightarrow> string \<Rightarrow> string \<Rightarrow> string \<Rightarrow> string \<Rightarrow> call_clocks \<Rightarrow>
   agent_alert option \<times> tracker_event list \<times> Tracker" where
  "TrackCall ord t sessionID agentID userID task model path clk =
    (case clk of (tstart, tcall, ttrim, tcheck) \<Rightarrow>
     let (ts, evs, t1) = get_or_start ord t sessionID agentID userID task tstart;
         calls = ts_calls ts @ [\<lparr>cr_Timestamp = tcall, cr_Model = model, cr_Path = path\<rparr>];
         calls' = trim_calls t ttrim calls;
         ts' = ts\<lparr>ts_calls := calls', dirty := True,
                  ts_session := (ts_session ts)\<lparr>s_CallCount := i64 (s_CallCount (ts_session ts) + 1)\<rparr>\<rparr>;
         t2 = t1\<lparr>t_sessions := AList.update sessionID ts' (t_sessions t1)\<rparr>
     in if LoopThreshold (t_cfg t) > 0 then
          (case CheckLoop (detector t) calls' path sessionID agentID tcheck of
             Some alert \<Rightarrow>
               (Some alert,
                evs @ (if has_metrics t then [RecordAlert ''loop_detected''] else [])
                    @ (if has_notifier t then [Notified alert] else []), t2)
           | None \<Rightarrow> (None, evs, t2))
        else (None, evs, t2))"

definition RecordCost :: "Tracker \<Rightarrow> string \<Rightarrow> float64 \<Rightarrow> int \<Rightarrow> Tracker" where
  "RecordCost t sessionID costUSD tokens =
    (case map_of (t_sessions t) sessionID of
       None \<Rightarrow> t
     | Some ts \<Rightarrow>
         let s = ts_session ts;
             s' = s\<lparr>s_TotalCostUSD := fadd (s_TotalCostUSD s) costUSD, s_TotalTokens := i64 (s_TotalTokens s + tokens)\<rparr>
         in t\<lparr>t_sessions := AList.update sessionID (ts\<lparr>ts_session := s', dirty := True\<rparr>) (t_sessions t)\<rparr>)"

definition EndSession :: "Tracker \<Rightarrow> string \<Rightarrow> time \<Rightarrow> tracker_event list \<times> Tracker" where
  "EndSession t sessionID now =
    (case map_of (t_sessions t) sessionID of
       None \<Rightarrow> ([], t)
     | Some ts \<Rightarrow>
         let s' = (ts_session ts)\<lparr>s_EndedAt := Some now, s_Status := StatusCompleted\<rparr>
         in (if has_metrics t then [SessionEnded] else [],
             t\<lparr>t_sessions := AList.update sessionID (ts\<lparr>ts_session := s', dirty := True\<rparr>) (t_sessions t)\<rparr>))"

definition t_ShouldBlock :: "Tracker \<Rightarrow> bool" where
  "t_ShouldBlock t \<longleftrightarrow> LoopAction (t_cfg t) = ''block''"

definition ActiveSessionCount :: "Tracker \<Rightarrow> nat" where
  "ActiveSessionCount t = length (filter (\<lambda>(_, ts). s_Status (ts_session ts) = StatusActive) (t_sessions t))"

definition ListSessions :: "iteration \<Rightarrow> Tracker \<Rightarrow> Session list" where
  "ListSessions ord t = map (\<lambda>(_, ts). ts_session ts) (ord (t_sessions t))"

text \<open>
  \<open>flush\<close> first collects the dirty sessions and clears their flags, then drops the sessions that
  are not active, and writes the collected ones to the store after releasing the lock.
\<close>

definition collect_dirty :: "iteration \<Rightarrow> Tracker \<Rightarrow> Session list \<times> Tracker" where
  "collect_dirty ord t =
    (map (\<lambda>(_, ts). ts_session ts) (filter (\<lambda>(_, ts). dirty ts) (ord (t_sessions t))),
     t\<lparr>t_sessions :=
         filter (\<lambda>(_, ts). \<not> (s_Status (ts_session ts) \<noteq> StatusActive \<and> \<not> dirty ts))
           (map (\<lambda>(i, ts). (i, ts\<lparr>dirty := False\<rparr>)) (t_sessions t))\<rparr>)"

text \<open>The store: \<open>UpsertSession\<close> gives an error or nothing, and the new store.\<close>

type_synonym 'db upsert = "'db \<Rightarrow> Session \<Rightarrow> string option \<times> 'db"

fun upsert_all :: "'db upsert \<Rightarrow> 'db \<Rightarrow> Session list \<Rightarrow> string list \<times> 'db" where
  "upsert_all upsert db [] = ([], db)"
| "upsert_all upsert db (s # ss) =
    (let (err, db1) = upsert db s; (errs, db2) = upsert_all upsert db1 ss
     in ((case err of Some e \<Rightarrow> [e] | None \<Rightarrow> []) @ errs, db2))"

definition flush :: "'db upsert \<Rightarrow> iteration \<Rightarrow> Tracker \<Rightarrow> 'db \<Rightarrow> string list \<times> Tracker \<times> 'db" where
  "flush upsert ord t db =
    (let (toFlush, t1) = collect_dirty ord t; (errs, db1) = upsert_all upsert db toFlush in (errs, t1, db1))"

definition expire :: "duration \<Rightarrow> time \<Rightarrow> trackedSession \<Rightarrow> bool" where
  "expire tmo now ts \<longleftrightarrow> s_Status (ts_session ts) = StatusActive \<and> time_Sub now (lastActivity ts) > tmo"

definition expireIdleSessions :: "Tracker \<Rightarrow> time \<Rightarrow> tracker_event list \<times> Tracker" where
  "expireIdleSessions t now =
    (if SessionTimeoutMins (t_cfg t) \<le> 0 then ([], t)
     else
       let tmo = i64 (SessionTimeoutMins (t_cfg t) * Minute) in
       (if has_metrics t then map (\<lambda>_. SessionEnded) (filter (\<lambda>(_, ts). expire tmo now ts) (t_sessions t)) else [],
        t\<lparr>t_sessions := map (\<lambda>(i, ts).
            (i, if expire tmo now ts
                then ts\<lparr>ts_session := (ts_session ts)\<lparr>s_EndedAt := Some now, s_Status := StatusCompleted\<rparr>, dirty := True\<rparr>
                else ts)) (t_sessions t)\<rparr>))"

text \<open>\<open>detectGhosts\<close>; the clock is read at each session's check.\<close>

definition ghost_alert :: "Tracker \<Rightarrow> (string \<Rightarrow> time) \<Rightarrow> string \<times> trackedSession \<Rightarrow> agent_alert option" where
  "ghost_alert t now p =
    (case p of (i, ts) \<Rightarrow>
       if s_Status (ts_session ts) \<noteq> StatusActive \<or> ghostAlerted ts then None
       else CheckGhost (detector t) (ts_session ts) (now i))"

definition detectGhosts :: "iteration \<Rightarrow> Tracker \<Rightarrow> (string \<Rightarrow> time) \<Rightarrow> tracker_event list \<times> Tracker" where
  "detectGhosts ord t now =
    (if GhostMaxAgeMins (t_cfg t) \<le> 0 then ([], t)
     else
       (concat (map (\<lambda>p. case ghost_alert t now p of
            None \<Rightarrow> []
          | Some alert \<Rightarrow> (if has_metrics t then [RecordAlert ''ghost_detected''] else [])
                        @ (if has_notifier t then [Notified alert] else [])) (ord (t_sessions t))),
        t\<lparr>t_sessions := map (\<lambda>(i, ts).
            (i, if ghost_alert t now (i, ts) \<noteq> None then ts\<lparr>ghostAlerted := True\<rparr> else ts)) (t_sessions t)\<rparr>))"

section \<open>Runs\<close>

text \<open>
  The operations as events; \<open>Flush\<close> is the part of a flush that runs under the lock. Each event
  carries the iteration order of its range loop, where it has one.
\<close>

datatype tk_event =
    Track iteration string string string string string string call_clocks
  | Cost string float64 int
  | End string time
  | Flush iteration
  | Expire time
  | Ghosts iteration "string \<Rightarrow> time"

fun tk_step :: "Tracker \<Rightarrow> tk_event \<Rightarrow> Tracker" where
  "tk_step t (Track ord sid agentID userID task model path clk) =
    snd (snd (TrackCall ord t sid agentID userID task model path clk))"
| "tk_step t (Cost sid c n) = RecordCost t sid c n"
| "tk_step t (End sid now) = snd (EndSession t sid now)"
| "tk_step t (Flush ord) = snd (collect_dirty ord t)"
| "tk_step t (Expire now) = snd (expireIdleSessions t now)"
| "tk_step t (Ghosts ord now) = snd (detectGhosts ord t now)"

text \<open>
  The calls of each session since it was last created in memory, kept beside the tracker: what
  the loop detector is meant to look at.
\<close>

type_synonym histories = "string \<Rightarrow> CallRecord list"

fun hist_step :: "Tracker \<Rightarrow> histories \<Rightarrow> tk_event \<Rightarrow> histories" where
  "hist_step t H (Track ord sid agentID userID task model path (tstart, tcall, ttrim, tcheck)) =
    H(sid := (if map_of (t_sessions t) sid = None then [] else H sid)
             @ [\<lparr>cr_Timestamp = tcall, cr_Model = model, cr_Path = path\<rparr>])"
| "hist_step t H e = H"

fun tk_run :: "Tracker \<Rightarrow> histories \<Rightarrow> tk_event list \<Rightarrow> Tracker \<times> histories" where
  "tk_run t H [] = (t, H)"
| "tk_run t H (e # es) = tk_run (tk_step t e) (hist_step t H e) es"

fun is_call :: "tk_event \<Rightarrow> bool" where
  "is_call (Track ord sid agentID userID task model path clk) = True"
| "is_call e = False"

text \<open>A clock that does not go back: each call's readings are in order and after the last one.\<close>

fun clock_ok :: "time \<Rightarrow> tk_event list \<Rightarrow> bool" where
  "clock_ok \<tau> [] \<longleftrightarrow> True"
| "clock_ok \<tau> (Track ord sid agentID userID task model path (tstart, tcall, ttrim, tcheck) # es) \<longleftrightarrow>
    \<tau> \<le> tcall \<and> tcall \<le> ttrim \<and> ttrim \<le> tcheck \<and> clock_ok tcheck es"
| "clock_ok \<tau> (_ # es) \<longleftrightarrow> clock_ok \<tau> es"

section \<open>Association lists\<close>

lemma update_keys_set: "fst ` set (AList.update k v xs) = insert k (fst ` set xs)"
  using dom_update[of k v xs] by (simp add: dom_map_of_conv_image_fst)

lemma update_length:
  "length (AList.update k v xs) = (if k \<in> fst ` set xs then length xs else Suc (length xs))"
  by (induction xs) auto

lemma update_set: "set (AList.update k v xs) \<subseteq> insert (k, v) (set xs)"
  by (induction xs) auto

lemma delete_set: "set (AList.delete k xs) \<subseteq> set xs"
  by (auto simp: AList.delete_eq)

lemma delete_length: "k \<in> fst ` set xs \<Longrightarrow> length (AList.delete k xs) < length xs"
proof -
  assume "k \<in> fst ` set xs"
  then obtain v where "(k, v) \<in> set xs" by auto
  then show ?thesis unfolding AList.delete_eq by (rule length_filter_less) simp
qed

lemma map_keys [simp]: "map (fst \<circ> (\<lambda>(i, x). (i, f i x))) xs = map fst xs"
  by (induction xs) auto

lemma map_of_map_keys: "map_of (map (\<lambda>(i, x). (i, f i x)) xs) k = map_option (f k) (map_of xs k)"
  by (induction xs) auto

lemma map_of_filter_Some:
  "distinct (map fst xs) \<Longrightarrow> map_of (filter P xs) k = Some v \<Longrightarrow> map_of xs k = Some v"
  using map_of_SomeD[of "filter P xs" k v] by (auto intro: map_of_is_SomeI)

section \<open>Eviction\<close>

definition permutes :: "iteration \<Rightarrow> bool" where
  "permutes ord \<longleftrightarrow> (\<forall>xs. mset (ord xs) = mset xs)"

lemma permutes_set: "permutes ord \<Longrightarrow> set (ord xs) = set xs"
  unfolding permutes_def by (metis set_mset_mset)

lemma oldest_Some:
  "oldest xs (Some (i, a)) = Some (j, b) \<Longrightarrow>
    b \<le> a \<and> (\<forall>(_, ts) \<in> set xs. b \<le> lastActivity ts) \<and>
    ((j, b) = (i, a) \<or> (\<exists>ts. (j, ts) \<in> set xs \<and> b = lastActivity ts))"
proof (induction xs arbitrary: i a)
  case (Cons x xs)
  obtain k ts where x: "x = (k, ts)" by (cases x)
  show ?case
  proof (cases "lastActivity ts < a")
    case True
    then show ?thesis using Cons.IH[of k "lastActivity ts"] Cons.prems by (auto simp: x time_defs)
  next
    case False
    then show ?thesis using Cons.IH[of i a] Cons.prems by (auto simp: x time_defs)
  qed
qed simp

lemma oldest_total: "oldest xs (Some p) \<noteq> None"
  by (induction xs arbitrary: p) (auto simp: case_prod_unfold split: prod.splits)

lemma oldest_min:
  assumes "xs \<noteq> []"
  obtains i ts where "oldest xs None = Some (i, lastActivity ts)" "(i, ts) \<in> set xs"
    "\<forall>(_, ts') \<in> set xs. lastActivity ts \<le> lastActivity ts'"
proof -
  obtain k ts ys where xs: "xs = (k, ts) # ys" using assms by (metis neq_Nil_conv prod.exhaust)
  obtain j b where o: "oldest ys (Some (k, lastActivity ts)) = Some (j, b)"
    using oldest_total[of ys "(k, lastActivity ts)"] by auto
  from oldest_Some[OF o] show ?thesis using that o by (auto simp: xs)
qed

section \<open>Invariant\<close>

definition t_inv :: "Tracker \<Rightarrow> bool" where
  "t_inv t \<longleftrightarrow> distinct (map fst (t_sessions t)) \<and> length (t_sessions t) \<le> maxActiveSessions \<and>
    (\<forall>(i, ts) \<in> set (t_sessions t). i \<noteq> '''' \<and> s_ID (ts_session ts) = i)"

lemma t_inv_delete: "t_inv t \<Longrightarrow> t_inv (t\<lparr>t_sessions := AList.delete i (t_sessions t)\<rparr>)"
  using delete_set[of i "t_sessions t"] length_delete_le[of i "t_sessions t"]
  by (auto simp: t_inv_def distinct_delete)

text \<open>Room for one more session after \<open>evictOldest\<close>.\<close>

lemma evictOldest_inv:
  assumes "t_inv t" "permutes ord"
  shows "t_inv (evictOldest ord t)" "t_sessions t \<noteq> [] \<Longrightarrow> length (t_sessions (evictOldest ord t)) < length (t_sessions t)"
    "set (t_sessions (evictOldest ord t)) \<subseteq> set (t_sessions t)"
proof -
  have evict: "evictOldest ord t = t \<and> t_sessions t = [] \<or> (\<exists>i \<in> fst ` set (t_sessions t).
      evictOldest ord t = t\<lparr>t_sessions := AList.delete i (t_sessions t)\<rparr>)"
  proof (cases "t_sessions t = []")
    case True
    then have "ord (t_sessions t) = []" using permutes_set[OF assms(2), of "[]"] by simp
    then show ?thesis using True by (simp add: evictOldest_def)
  next
    case False
    then have "ord (t_sessions t) \<noteq> []" using permutes_set[OF assms(2), of "t_sessions t"] by auto
    then obtain i ts where "oldest (ord (t_sessions t)) None = Some (i, lastActivity ts)" "(i, ts) \<in> set (t_sessions t)"
      using oldest_min permutes_set[OF assms(2)] by metis
    moreover from this have "i \<noteq> ''''" using assms(1) by (auto simp: t_inv_def)
    ultimately show ?thesis by (force simp: evictOldest_def)
  qed
  then show "t_inv (evictOldest ord t)" using assms(1) t_inv_delete by auto
  show "t_sessions t \<noteq> [] \<Longrightarrow> length (t_sessions (evictOldest ord t)) < length (t_sessions t)"
    using evict delete_length[of _ "t_sessions t"] by (elim disjE bexE conjE) simp_all
  show "set (t_sessions (evictOldest ord t)) \<subseteq> set (t_sessions t)"
    using evict delete_set by fastforce
qed

lemma t_inv_update:
  assumes "t_inv t" "i \<noteq> ''''" "s_ID (ts_session ts) = i" "i \<in> fst ` set (t_sessions t) \<or> length (t_sessions t) < maxActiveSessions"
  shows "t_inv (t\<lparr>t_sessions := AList.update i ts (t_sessions t)\<rparr>)"
proof -
  have "distinct (map fst (AList.update i ts (t_sessions t)))" using assms(1) by (simp add: t_inv_def distinct_update)
  moreover have "length (AList.update i ts (t_sessions t)) \<le> maxActiveSessions"
    using assms(1,4) by (auto simp: t_inv_def update_length)
  ultimately show ?thesis
    using assms(1-3) update_set[of i ts "t_sessions t"] by (fastforce simp: t_inv_def)
qed

lemma t_inv_lookup: "t_inv t \<Longrightarrow> map_of (t_sessions t) i = Some ts \<Longrightarrow> i \<noteq> '''' \<and> s_ID (ts_session ts) = i \<and> i \<in> fst ` set (t_sessions t)"
  by (force simp: t_inv_def dest: map_of_SomeD)

lemma get_or_start_inv:
  assumes "t_inv t" "permutes ord" "sid \<noteq> ''''"
    and "get_or_start ord t sid agentID userID task now = (ts, evs, t1)"
  shows "t_inv t1 \<and> sid \<in> fst ` set (t_sessions t1) \<and> s_ID (ts_session ts) = sid \<and> t_cfg t1 = t_cfg t"
proof (cases "map_of (t_sessions t) sid")
  case None
  let ?t = "if length (t_sessions t) \<ge> maxActiveSessions then evictOldest ord t else t"
  have "t_sessions t \<noteq> []" if "length (t_sessions t) \<ge> maxActiveSessions" using that by (auto simp: maxActiveSessions_def)
  then have "length (t_sessions ?t) < maxActiveSessions"
    using assms(1) evictOldest_inv(2)[OF assms(1,2)] by (auto simp: t_inv_def)
  moreover have "t_inv ?t" using assms(1) evictOldest_inv(1)[OF assms(1,2)] by simp
  moreover have "t_cfg (evictOldest ord t) = t_cfg t" by (simp add: evictOldest_def split: option.splits prod.splits)
  ultimately show ?thesis
    using assms(3,4) None
    by (auto simp: get_or_start_def Let_def update_keys_set new_session_def intro!: t_inv_update)
next
  case (Some ts')
  then show ?thesis using assms t_inv_lookup[OF assms(1) Some] by (auto simp: get_or_start_def)
qed

lemma TrackCall_inv:
  assumes "t_inv t" "permutes ord" "sid \<noteq> ''''"
  shows "t_inv (snd (snd (TrackCall ord t sid agentID userID task model path clk)))"
proof -
  obtain tstart tcall ttrim tcheck where clk: "clk = (tstart, tcall, ttrim, tcheck)" by (metis prod.exhaust)
  obtain ts evs t1 where g: "get_or_start ord t sid agentID userID task tstart = (ts, evs, t1)" by (metis prod.exhaust)
  note get_or_start_inv[OF assms g]
  then show ?thesis
    using assms(3) by (auto simp: TrackCall_def clk g Let_def intro!: t_inv_update split: option.splits)
qed

lemma t_inv_map:
  assumes "t_inv t" "\<And>i ts. s_ID (ts_session (f i ts)) = s_ID (ts_session ts)"
  shows "t_inv (t\<lparr>t_sessions := map (\<lambda>(i, ts). (i, f i ts)) (t_sessions t)\<rparr>)"
  using assms by (auto simp: t_inv_def)

lemma t_inv_filter: "t_inv t \<Longrightarrow> t_inv (t\<lparr>t_sessions := filter P (t_sessions t)\<rparr>)"
  by (auto simp: t_inv_def distinct_map_filter intro: order.trans[OF length_filter_le])

text \<open>What events of a run are assumed to be: the proxy tracks no call without a session id.\<close>

fun ev_ok :: "tk_event \<Rightarrow> bool" where
  "ev_ok (Track ord sid agentID userID task model path clk) \<longleftrightarrow> permutes ord \<and> sid \<noteq> ''''"
| "ev_ok (Flush ord) \<longleftrightarrow> permutes ord"
| "ev_ok (Ghosts ord now) \<longleftrightarrow> permutes ord"
| "ev_ok (Cost sid c n) \<longleftrightarrow> True"
| "ev_ok (End sid now) \<longleftrightarrow> True"
| "ev_ok (Expire now) \<longleftrightarrow> True"

lemma tk_step_inv: "t_inv t \<Longrightarrow> ev_ok e \<Longrightarrow> t_inv (tk_step t e)"
proof (induction t e rule: tk_step.induct)
  case (2 t sid c n)
  then show ?case
    using t_inv_lookup[of t sid] by (auto simp: RecordCost_def Let_def intro!: t_inv_update split: option.splits)
next
  case (3 t sid now)
  then show ?case
    using t_inv_lookup[of t sid] by (auto simp: EndSession_def Let_def intro!: t_inv_update split: option.splits)
next
  case (4 t ord)
  then show ?case
    using t_inv_filter[OF t_inv_map[of t "\<lambda>_ ts. ts\<lparr>dirty := False\<rparr>"]] by (simp add: collect_dirty_def)
next
  case (5 t now)
  then show ?case unfolding tk_step.simps expireIdleSessions_def Let_def
    by (simp split: if_split) (intro impI t_inv_map; simp)
next
  case (6 t ord now)
  then show ?case unfolding tk_step.simps detectGhosts_def
    by (simp split: if_split) (intro impI t_inv_map; simp)
qed (simp add: TrackCall_inv)

lemma tk_run_inv: "t_inv t \<Longrightarrow> list_all ev_ok es \<Longrightarrow> t_inv (fst (tk_run t H es))"
  by (induction t H es rule: tk_run.induct) (auto simp: tk_step_inv)

lemma NewTracker_inv [simp]: "t_inv (NewTracker cfg metrics)"
  by (simp add: t_inv_def NewTracker_def)

section \<open>Loop detection\<close>

text \<open>On calls in the order of time the backward loop counts all calls of the window.\<close>

definition in_window :: "string \<Rightarrow> time \<Rightarrow> CallRecord list \<Rightarrow> CallRecord list" where
  "in_window path cutoff calls = filter (\<lambda>c. cr_Path c = path \<and> cutoff \<le> cr_Timestamp c) calls"

lemma in_window_append [simp]: "in_window path cutoff (xs @ ys) = in_window path cutoff xs @ in_window path cutoff ys"
  by (simp add: in_window_def)

lemma count_back_window:
  "sorted_wrt (\<ge>) (map cr_Timestamp cs) \<Longrightarrow>
    count_back cutoff path cs n = n + int (length (in_window path cutoff cs))"
proof (induction cs arbitrary: n)
  case (Cons c cs)
  show ?case
  proof (cases "cr_Timestamp c < cutoff")
    case True
    then have "in_window path cutoff (c # cs) = []" using Cons.prems by (auto simp: in_window_def filter_empty_conv)
    then show ?thesis using True by (simp add: time_defs)
  qed (use Cons in \<open>auto simp: in_window_def time_defs\<close>)
qed (simp add: in_window_def)

lemma count_back_sorted:
  "sorted (map cr_Timestamp cs) \<Longrightarrow> count_back cutoff path (rev cs) 0 = int (length (in_window path cutoff cs))"
proof -
  assume s: "sorted (map cr_Timestamp cs)"
  then have "sorted_wrt (\<ge>) (map cr_Timestamp (rev cs))" by (simp add: rev_map[symmetric] sorted_wrt_rev)
  then show ?thesis by (simp add: count_back_window) (simp add: in_window_def rev_filter[symmetric])
qed

text \<open>
  The calls a session keeps are the end of its history; what was trimmed is older than the
  window, at the time \<open>\<tau>\<close> of the last reading and so from then on.
\<close>

definition keeps :: "duration \<Rightarrow> time \<Rightarrow> CallRecord list \<Rightarrow> CallRecord list \<Rightarrow> bool" where
  "keeps w \<tau> hist calls \<longleftrightarrow> sorted (map cr_Timestamp hist) \<and> (\<forall>c \<in> set hist. cr_Timestamp c \<le> \<tau>) \<and>
    (\<exists>old. hist = old @ calls \<and> (\<forall>c \<in> set old. cr_Timestamp c < \<tau> - w))"

lemma keeps_window: "keeps w \<tau> hist calls \<Longrightarrow> \<tau> - w \<le> cutoff \<Longrightarrow> in_window path cutoff calls = in_window path cutoff hist"
  by (fastforce simp: keeps_def in_window_def filter_empty_conv)

lemma keeps_count:
  assumes "keeps w \<tau> hist calls" "\<tau> - w \<le> cutoff"
  shows "count_back cutoff path (rev calls) 0 = int (length (in_window path cutoff hist))"
proof -
  have "sorted (map cr_Timestamp calls)" using assms(1) by (auto simp: keeps_def sorted_append)
  then show ?thesis using keeps_window[OF assms] by (simp add: count_back_sorted)
qed

lemma keeps_later: "keeps w \<tau> hist calls \<Longrightarrow> \<tau> \<le> \<tau>' \<Longrightarrow> keeps w \<tau>' hist calls"
  by (fastforce simp: keeps_def)

lemma keeps_call:
  assumes "keeps w \<tau> hist calls" "\<tau> \<le> tcall" "tcall \<le> ttrim"
    and "c = \<lparr>cr_Timestamp = tcall, cr_Model = model, cr_Path = path\<rparr>" "w = loopWindow (detector t)"
  shows "keeps w ttrim (hist @ [c]) (trim_calls t ttrim (calls @ [c]))"
proof -
  obtain old where old: "hist = old @ calls" "\<forall>c \<in> set old. cr_Timestamp c < \<tau> - w" using assms(1) by (auto simp: keeps_def)
  let ?P = "\<lambda>c. time_Before (cr_Timestamp c) (time_Add ttrim (- w))"
  obtain new where new: "calls @ [c] = new @ trim_calls t ttrim (calls @ [c])" "\<forall>c \<in> set new. cr_Timestamp c < ttrim - w"
  proof (cases "trim_calls t ttrim (calls @ [c]) = calls @ [c]")
    case False
    then have "trim_calls t ttrim (calls @ [c]) = dropWhile ?P (calls @ [c])" by (auto simp: trim_calls_def assms(5))
    then have "calls @ [c] = takeWhile ?P (calls @ [c]) @ trim_calls t ttrim (calls @ [c])" by simp
    moreover have "\<forall>c \<in> set (takeWhile ?P (calls @ [c])). cr_Timestamp c < ttrim - w"
      by (auto dest: set_takeWhileD simp: time_defs)
    ultimately show ?thesis using that by blast
  qed (use that[of "[]"] in simp)
  have "hist @ [c] = (old @ new) @ trim_calls t ttrim (calls @ [c])" using old(1) new(1) by simp
  moreover have "\<forall>c \<in> set (old @ new). cr_Timestamp c < ttrim - w" using old(2) new(2) assms(2,3) by fastforce
  moreover have "sorted (map cr_Timestamp (hist @ [c]))" "\<forall>c \<in> set (hist @ [c]). cr_Timestamp c \<le> ttrim"
    using assms(1-4) by (fastforce simp: keeps_def sorted_append)+
  ultimately show ?thesis unfolding keeps_def by blast
qed

definition h_inv :: "time \<Rightarrow> Tracker \<Rightarrow> histories \<Rightarrow> bool" where
  "h_inv \<tau> t H \<longleftrightarrow> (\<forall>sid ts. map_of (t_sessions t) sid = Some ts \<longrightarrow> keeps (loopWindow (detector t)) \<tau> (H sid) (ts_calls ts))"

text \<open>The events other than calls keep the calls of every session they keep.\<close>

definition same_calls :: "Tracker \<Rightarrow> Tracker \<Rightarrow> bool" where
  "same_calls t t' \<longleftrightarrow> t_cfg t' = t_cfg t \<and> (\<forall>sid ts'. map_of (t_sessions t') sid = Some ts' \<longrightarrow>
    (\<exists>ts. map_of (t_sessions t) sid = Some ts \<and> ts_calls ts' = ts_calls ts))"

lemma same_calls_map:
  "(\<And>i ts. ts_calls (f i ts) = ts_calls ts) \<Longrightarrow> same_calls t (t\<lparr>t_sessions := map (\<lambda>(i, ts). (i, f i ts)) (t_sessions t)\<rparr>)"
  by (auto simp: same_calls_def map_of_map_keys)

lemma same_calls_update:
  "map_of (t_sessions t) i = Some ts \<Longrightarrow> ts_calls ts' = ts_calls ts \<Longrightarrow>
    same_calls t (t\<lparr>t_sessions := AList.update i ts' (t_sessions t)\<rparr>)"
  by (auto simp: same_calls_def update_conv')

lemma same_calls_step:
  assumes "t_inv t" "\<not> is_call e"
  shows "same_calls t (tk_step t e)"
proof (cases e)
  case (Cost sid c n)
  then show ?thesis
    by (auto simp: RecordCost_def Let_def same_calls_def[of t t] intro!: same_calls_update split: option.splits)
next
  case (End sid now)
  then show ?thesis
    by (auto simp: EndSession_def Let_def same_calls_def[of t t] intro!: same_calls_update split: option.splits)
next
  case (Flush ord)
  have "distinct (map fst (map (\<lambda>(i, ts). (i, ts\<lparr>dirty := False\<rparr>)) (t_sessions t)))"
    using assms(1) by (simp add: t_inv_def)
  note kept = map_of_filter_Some[OF this]
  show ?thesis
    unfolding Flush same_calls_def tk_step.simps collect_dirty_def
    by (auto simp: map_of_map_keys[where f = "\<lambda>_ ts. ts\<lparr>dirty := False\<rparr>"] dest!: kept)
next
  case (Expire now)
  then show ?thesis
    by (auto simp: expireIdleSessions_def Let_def same_calls_def[of t t] intro!: same_calls_map)
next
  case (Ghosts ord now)
  then show ?thesis
    by (auto simp: detectGhosts_def same_calls_def[of t t] intro!: same_calls_map)
qed (use assms(2) in simp)

lemma evictOldest_lookup: "map_of (t_sessions (evictOldest ord t)) i = Some ts \<Longrightarrow> map_of (t_sessions t) i = Some ts"
  by (auto simp: evictOldest_def delete_conv' split: option.splits prod.splits if_splits)

text \<open>What \<open>TrackCall\<close> does to the calls, and the alert it returns.\<close>

definition calls_before :: "Tracker \<Rightarrow> string \<Rightarrow> CallRecord list" where
  "calls_before t sid = (case map_of (t_sessions t) sid of None \<Rightarrow> [] | Some ts \<Rightarrow> ts_calls ts)"

lemma TrackCall_effect:
  assumes "TrackCall ord t sid agentID userID task model path (tstart, tcall, ttrim, tcheck) = (alert, evs, t')"
  defines "calls' \<equiv> trim_calls t ttrim (calls_before t sid @ [\<lparr>cr_Timestamp = tcall, cr_Model = model, cr_Path = path\<rparr>])"
  shows "alert = (if LoopThreshold (t_cfg t) > 0 then CheckLoop (detector t) calls' path sid agentID tcheck else None)"
    and "\<exists>ts. map_of (t_sessions t') sid = Some ts \<and> ts_calls ts = calls' \<and> dirty ts"
    and "t_cfg t' = t_cfg t"
    and "i \<noteq> sid \<Longrightarrow> map_of (t_sessions t') i = Some ts' \<Longrightarrow> map_of (t_sessions t) i = Some ts'"
proof -
  obtain ts evs' t1 where g: "get_or_start ord t sid agentID userID task tstart = (ts, evs', t1)" by (metis prod.exhaust)
  have ts: "ts_calls ts = calls_before t sid"
    using g by (auto simp: get_or_start_def calls_before_def new_session_def Let_def split: option.splits)
  have "t_cfg (evictOldest ord t) = t_cfg t" by (simp add: evictOldest_def split: option.splits prod.splits)
  then have t1: "t_cfg t1 = t_cfg t" "i \<noteq> sid \<Longrightarrow> map_of (t_sessions t1) i = Some ts' \<Longrightarrow> map_of (t_sessions t) i = Some ts'" for i ts'
    using g evictOldest_lookup[of ord t i ts']
    by (auto simp: get_or_start_def Let_def update_conv' split: option.splits if_splits)
  obtain ts2 where t': "t' = t1\<lparr>t_sessions := AList.update sid ts2 (t_sessions t1)\<rparr>" "ts_calls ts2 = calls'" "dirty ts2"
    and alert: "alert = (if LoopThreshold (t_cfg t) > 0 then CheckLoop (detector t) calls' path sid agentID tcheck else None)"
    using assms(1) by (auto simp: TrackCall_def g Let_def ts calls'_def[symmetric] split: if_splits option.splits)
  show "alert = (if LoopThreshold (t_cfg t) > 0 then CheckLoop (detector t) calls' path sid agentID tcheck else None)"
    by (rule alert)
  show "\<exists>ts. map_of (t_sessions t') sid = Some ts \<and> ts_calls ts = calls' \<and> dirty ts" "t_cfg t' = t_cfg t"
    using t' t1(1) by (simp_all add: update_conv')
  show "i \<noteq> sid \<Longrightarrow> map_of (t_sessions t') i = Some ts' \<Longrightarrow> map_of (t_sessions t) i = Some ts'"
    using t' t1(2) by (simp add: update_conv')
qed

lemma h_inv_track:
  assumes "h_inv \<tau> t H" "\<tau> \<le> tcall" "tcall \<le> ttrim" "ttrim \<le> tcheck"
    and ev_def: "ev = Track ord sid agentID userID task model path (tstart, tcall, ttrim, tcheck)"
  shows "h_inv tcheck (tk_step t ev) (hist_step t H ev)"
    and "keeps (loopWindow (detector t)) ttrim (hist_step t H ev sid)
      (trim_calls t ttrim (calls_before t sid @ [\<lparr>cr_Timestamp = tcall, cr_Model = model, cr_Path = path\<rparr>]))"
proof -
  let ?c = "\<lparr>cr_Timestamp = tcall, cr_Model = model, cr_Path = path\<rparr>" and ?w = "loopWindow (detector t)"
  obtain alert evs t' where T: "TrackCall ord t sid agentID userID task model path (tstart, tcall, ttrim, tcheck) = (alert, evs, t')"
    by (metis prod.exhaust)
  have step: "tk_step t ev = t'" by (simp add: ev_def T)
  have "keeps ?w \<tau> (if map_of (t_sessions t) sid = None then [] else H sid) (calls_before t sid)"
    using assms(1) by (auto simp: h_inv_def calls_before_def keeps_def split: option.splits)
  from keeps_call[OF this assms(2,3) refl refl]
  show kept: "keeps ?w ttrim (hist_step t H ev sid) (trim_calls t ttrim (calls_before t sid @ [?c]))" by (simp add: ev_def)
  have d: "detector t' = detector t" using TrackCall_effect(3)[OF T] by (simp add: detector_def)
  show "h_inv tcheck (tk_step t ev) (hist_step t H ev)"
    unfolding h_inv_def step d
  proof (intro allI impI)
    fix i ts assume i: "map_of (t_sessions t') i = Some ts"
    show "keeps ?w tcheck (hist_step t H ev i) (ts_calls ts)"
    proof (cases "i = sid")
      case True
      then show ?thesis using keeps_later[OF kept assms(4)] TrackCall_effect(2)[OF T] i by auto
    next
      case False
      then have "keeps ?w \<tau> (H i) (ts_calls ts)"
        using TrackCall_effect(4)[OF T False i] assms(1) by (simp add: h_inv_def)
      then show ?thesis using keeps_later assms(2-4) False by (simp add: ev_def) 
    qed
  qed
qed

lemma h_inv_other:
  assumes "h_inv \<tau> t H" "t_inv t" "\<not> is_call e"
  shows "h_inv \<tau> (tk_step t e) (hist_step t H e)"
proof -
  have "hist_step t H e = H" using assms(3) by (cases e) auto
  moreover have "same_calls t (tk_step t e)" using same_calls_step[OF assms(2,3)] .
  ultimately show ?thesis using assms(1) by (fastforce simp: same_calls_def h_inv_def detector_def)
qed

text \<open>The clock at the end of a run.\<close>

fun end_clock :: "time \<Rightarrow> tk_event list \<Rightarrow> time" where
  "end_clock \<tau> [] = \<tau>"
| "end_clock \<tau> (Track ord sid agentID userID task model path (tstart, tcall, ttrim, tcheck) # es) = end_clock tcheck es"
| "end_clock \<tau> (_ # es) = end_clock \<tau> es"

lemma h_inv_run:
  "h_inv \<tau> t H \<Longrightarrow> t_inv t \<Longrightarrow> list_all ev_ok es \<Longrightarrow> clock_ok \<tau> es \<Longrightarrow>
    h_inv (end_clock \<tau> es) (fst (tk_run t H es)) (snd (tk_run t H es)) \<and> t_cfg (fst (tk_run t H es)) = t_cfg t"
proof (induction es arbitrary: \<tau> t H)
  case (Cons e es)
  have ok: "ev_ok e" "list_all ev_ok es" using Cons.prems(3) by simp_all
  note tI = tk_step_inv[OF Cons.prems(2) ok(1)]
  show ?case
  proof (cases "is_call e")
    case True
    then obtain ord sid a u k m p tstart tcall ttrim tcheck where e: "e = Track ord sid a u k m p (tstart, tcall, ttrim, tcheck)"
      by (cases e) (simp_all, metis prod.exhaust)
    have clk: "\<tau> \<le> tcall" "tcall \<le> ttrim" "ttrim \<le> tcheck" "clock_ok tcheck es" "end_clock \<tau> (e # es) = end_clock tcheck es"
      using Cons.prems(4) by (simp_all add: e)
    have "t_cfg (tk_step t e) = t_cfg t"
      using TrackCall_effect(3)[of ord t sid a u k m p tstart tcall ttrim tcheck]
      by (cases "TrackCall ord t sid a u k m p (tstart, tcall, ttrim, tcheck)") (simp add: e)
    then show ?thesis using Cons.IH[OF h_inv_track(1)[OF Cons.prems(1) clk(1-3) e] tI ok(2) clk(4)] clk(5) by simp
  next
    case False
    then have "clock_ok \<tau> es" "end_clock \<tau> (e # es) = end_clock \<tau> es" using Cons.prems(4) by (cases e; simp)+
    then show ?thesis
      using Cons.IH[OF h_inv_other[OF Cons.prems(1,2) False] tI ok(2)] same_calls_step[OF Cons.prems(2) False]
      by (simp add: same_calls_def)
  qed
qed simp

lemma loopThreshold_New: "loopThreshold (NewDetector cfg) = LoopThreshold cfg"
  by (simp add: NewDetector_def)

lemma CheckLoop_Some:
  "CheckLoop d calls path sid agentID now \<noteq> None \<longleftrightarrow>
    0 < loopThreshold d \<and> 0 < loopWindow d \<and> loopThreshold d \<le> count_back (now - loopWindow d) path (rev calls) 0"
  by (auto simp: CheckLoop_def Let_def time_defs)

section \<open>The session store\<close>

text \<open>What of a session a flush brings to the store.\<close>

definition progress :: "Session \<Rightarrow> time option \<times> string \<times> int \<times> float64 \<times> int" where
  "progress s = (s_EndedAt s, s_Status s, s_CallCount s, s_TotalCostUSD s, s_TotalTokens s)"

fun store_step :: "'db upsert \<Rightarrow> Tracker \<times> 'db \<Rightarrow> tk_event \<Rightarrow> string list \<times> Tracker \<times> 'db" where
  "store_step upsert (t, db) (Flush ord) = flush upsert ord t db"
| "store_step upsert (t, db) e = ([], tk_step t e, db)"

fun store_run :: "'db upsert \<Rightarrow> Tracker \<times> 'db \<Rightarrow> tk_event list \<Rightarrow> string list \<times> Tracker \<times> 'db" where
  "store_run upsert s [] = ([], s)"
| "store_run upsert s (e # es) =
    (case store_step upsert s e of (errs, s1) \<Rightarrow>
     case store_run upsert s1 es of (errs', s2) \<Rightarrow> (errs @ errs', s2))"

lemma flush_tracker: "fst (snd (flush upsert ord t db)) = tk_step t (Flush ord)"
  by (simp add: flush_def case_prod_unfold Let_def)

text \<open>Outside flushes, a session that is not marked dirty is as it was.\<close>

definition marks_changes :: "Tracker \<Rightarrow> Tracker \<Rightarrow> bool" where
  "marks_changes t t' \<longleftrightarrow> (\<forall>i ts'. map_of (t_sessions t') i = Some ts' \<and> \<not> dirty ts' \<longrightarrow>
    (\<exists>ts. map_of (t_sessions t) i = Some ts \<and> \<not> dirty ts \<and> ts_session ts' = ts_session ts))"

lemma marks_map:
  "(\<And>i ts. \<not> dirty (f i ts) \<Longrightarrow> \<not> dirty ts \<and> ts_session (f i ts) = ts_session ts) \<Longrightarrow>
    marks_changes t (t\<lparr>t_sessions := map (\<lambda>(i, ts). (i, f i ts)) (t_sessions t)\<rparr>)"
  by (auto simp: marks_changes_def map_of_map_keys)

lemma marks_update: "dirty ts \<Longrightarrow> marks_changes t (t\<lparr>t_sessions := AList.update i ts (t_sessions t)\<rparr>)"
  by (auto simp: marks_changes_def update_conv' split: if_splits)

lemma marks_refl [simp]: "marks_changes t t"
  by (simp add: marks_changes_def)

lemma marks_step: "(\<And>ord. e \<noteq> Flush ord) \<Longrightarrow> marks_changes t (tk_step t e)"
proof (induction t e rule: tk_step.induct)
  case (1 t ord sid agentID userID task model path clk)
  obtain tstart tcall ttrim tcheck where clk: "clk = (tstart, tcall, ttrim, tcheck)" by (metis prod.exhaust)
  obtain alert evs t' where T: "TrackCall ord t sid agentID userID task model path (tstart, tcall, ttrim, tcheck) = (alert, evs, t')"
    by (metis prod.exhaust)
  show ?case
    using TrackCall_effect(2)[OF T] TrackCall_effect(4)[OF T] unfolding marks_changes_def
    by (simp add: clk T) (metis option.inject)
next
  case (2 t sid c n)
  then show ?case by (auto simp: RecordCost_def Let_def intro: marks_update split: option.splits)
next
  case (3 t sid now)
  then show ?case by (auto simp: EndSession_def Let_def intro: marks_update split: option.splits)
next
  case (5 t now)
  then show ?case by (auto simp: expireIdleSessions_def Let_def intro!: marks_map split: if_splits)
next
  case (6 t ord now)
  then show ?case by (auto simp: detectGhosts_def intro!: marks_map split: if_splits)
qed blast

lemma collect_dirty_lookup:
  assumes "t_inv t" "map_of (t_sessions (tk_step t (Flush ord))) i = Some ts'"
  shows "\<exists>ts. map_of (t_sessions t) i = Some ts \<and> ts' = ts\<lparr>dirty := False\<rparr> \<and> s_Status (ts_session ts) = StatusActive"
proof -
  let ?xs = "map (\<lambda>(i, ts). (i, ts\<lparr>dirty := False\<rparr>)) (t_sessions t)"
  have d: "distinct (map fst ?xs)" using assms(1) by (simp add: t_inv_def)
  have f: "map_of (filter (\<lambda>(_, ts). \<not> (s_Status (ts_session ts) \<noteq> StatusActive \<and> \<not> dirty ts)) ?xs) i = Some ts'"
    using assms(2) by (simp add: collect_dirty_def)
  from map_of_SomeD[OF f] obtain ts where "(i, ts) \<in> set (t_sessions t)" "ts' = ts\<lparr>dirty := False\<rparr>"
    "s_Status (ts_session ts) = StatusActive" by auto
  then show ?thesis using assms(1) by (auto simp: t_inv_def intro: map_of_is_SomeI)
qed

lemma store_step_tracker: "fst (snd (store_step upsert (t, db) e)) = tk_step t e"
  by (cases e) (simp_all add: flush_tracker)

lemma collect_dirty_ids:
  assumes "t_inv t" "permutes ord"
  shows "distinct (map s_ID (fst (collect_dirty ord t)))"
proof -
  let ?ys = "filter (\<lambda>(_, ts). dirty ts) (ord (t_sessions t))"
  have "map s_ID (fst (collect_dirty ord t)) = map fst ?ys"
    using assms permutes_set[OF assms(2), of "t_sessions t"] by (auto simp: collect_dirty_def t_inv_def)
  moreover have "distinct (map fst (ord (t_sessions t)))"
  proof -
    have "mset (map fst (ord (t_sessions t))) = mset (map fst (t_sessions t))"
      using assms(2) by (simp add: permutes_def)
    from mset_eq_imp_distinct_iff[OF this] show ?thesis using assms(1) by (simp add: t_inv_def)
  qed
  ultimately show ?thesis by (simp add: distinct_map_filter)
qed

locale session_store =
  fixes upsert :: "'db upsert" and get :: "'db \<Rightarrow> string \<Rightarrow> Session option"
  assumes upsert_ok: "upsert db s = (None, db') \<Longrightarrow> \<exists>r. get db' (s_ID s) = Some r \<and> progress r = progress s"
    and upsert_other: "upsert db s = (err, db') \<Longrightarrow> i \<noteq> s_ID s \<Longrightarrow> get db' i = get db i"
begin

definition stored :: "'db \<Rightarrow> string \<Rightarrow> Session \<Rightarrow> bool" where
  "stored db i s \<longleftrightarrow> (\<exists>r. get db i = Some r \<and> progress r = progress s)"

definition synced :: "Tracker \<Rightarrow> 'db \<Rightarrow> bool" where
  "synced t db \<longleftrightarrow> (\<forall>i ts. map_of (t_sessions t) i = Some ts \<and> \<not> dirty ts \<longrightarrow> stored db i (ts_session ts))"

lemma upsert_all_other:
  "upsert_all upsert db ss = (errs, db') \<Longrightarrow> i \<notin> s_ID ` set ss \<Longrightarrow> get db' i = get db i"
proof (induction ss arbitrary: db errs)
  case (Cons s ss)
  then show ?case
    by (cases "upsert db s"; cases "upsert_all upsert (snd (upsert db s)) ss")
       (auto simp: Let_def dest: upsert_other)
qed simp

lemma upsert_all_stored:
  "upsert_all upsert db ss = ([], db') \<Longrightarrow> distinct (map s_ID ss) \<Longrightarrow> s \<in> set ss \<Longrightarrow> stored db' (s_ID s) s"
proof (induction ss arbitrary: db)
  case (Cons r ss)
  obtain err db1 where u: "upsert db r = (err, db1)" by fastforce
  with Cons.prems(1) have rest: "err = None" "upsert_all upsert db1 ss = ([], db')"
    by (auto simp: Let_def split: prod.splits option.splits)
  show ?case
  proof (cases "s = r")
    case True
    moreover have "get db' (s_ID r) = get db1 (s_ID r)" using upsert_all_other[OF rest(2)] Cons.prems(2) by simp
    ultimately show ?thesis using upsert_ok[of db r db1] u rest(1) by (simp add: stored_def)
  qed (use Cons rest(2) in auto)
qed simp

text \<open>A flush without errors brings every session of the memory to the store.\<close>

lemma flush_stored:
  assumes "t_inv t" "permutes ord" "synced t db" "flush upsert ord t db = ([], t', db')"
    and i: "map_of (t_sessions t) i = Some ts"
  shows "stored db' i (ts_session ts)"
proof -
  let ?ss = "fst (collect_dirty ord t)"
  have up: "upsert_all upsert db ?ss = ([], db')"
    using assms(4) by (auto simp: flush_def Let_def split: prod.splits)
  have id: "s_ID (ts_session ts) = i" using t_inv_lookup[OF assms(1) i] by simp
  have mem: "r \<in> set ?ss \<longleftrightarrow> (\<exists>j ts'. map_of (t_sessions t) j = Some ts' \<and> dirty ts' \<and> r = ts_session ts')" for r
    using assms(1) permutes_set[OF assms(2), of "t_sessions t"]
    by (auto simp: collect_dirty_def t_inv_def map_of_eq_Some_iff image_iff Bex_def)
  show ?thesis
  proof (cases "dirty ts")
    case True
    then have "ts_session ts \<in> set ?ss" using mem i by blast
    from upsert_all_stored[OF up collect_dirty_ids[OF assms(1,2)] this] show ?thesis by (simp add: id)
  next
    case False
    have "i \<notin> s_ID ` set ?ss"
    proof
      assume "i \<in> s_ID ` set ?ss"
      then obtain j ts' where "map_of (t_sessions t) j = Some ts'" "dirty ts'" "s_ID (ts_session ts') = i"
        using mem by auto
      then show False using t_inv_lookup[OF assms(1)] i False by auto
    qed
    then show ?thesis using upsert_all_other[OF up] assms(3) i False by (auto simp: synced_def stored_def)
  qed
qed

lemma synced_flush:
  assumes "t_inv t" "permutes ord" "synced t db" "flush upsert ord t db = ([], t', db')"
  shows "synced t' db'"
proof -
  have "t' = tk_step t (Flush ord)" using flush_tracker[of upsert ord t db] assms(4) by simp
  then show ?thesis
    using collect_dirty_lookup[OF assms(1)] flush_stored[OF assms] by (fastforce simp: synced_def)
qed

lemma synced_run:
  assumes "t_inv t" "synced t db" "list_all ev_ok es" "store_run upsert (t, db) es = ([], t', db')"
  shows "t_inv t' \<and> synced t' db'"
  using assms
proof (induction es arbitrary: t db)
  case (Cons e es)
  obtain errs t1 db1 where s: "store_step upsert (t, db) e = (errs, t1, db1)" by (metis prod.exhaust)
  have rest: "errs = []" "store_run upsert (t1, db1) es = ([], t', db')"
    using Cons.prems(4) by (auto simp: s split: prod.splits)
  have t1: "t1 = tk_step t e" using s store_step_tracker[of upsert t db e] by simp
  have "synced t1 db1"
  proof (cases "\<exists>ord. e = Flush ord")
    case True
    then show ?thesis using synced_flush[of t _ db t1 db1] s rest(1) Cons.prems by auto
  next
    case False
    then have "db1 = db" using s by (cases e) auto
    moreover have "marks_changes t t1" unfolding t1 using marks_step False by blast
    ultimately show ?thesis using Cons.prems(2) unfolding synced_def marks_changes_def by metis
  qed
  then show ?case using Cons.IH[OF _ _ _ rest(2)] tk_step_inv[OF Cons.prems(1)] Cons.prems(3) t1 by simp
qed simp

lemma synced_New: "synced (NewTracker cfg metrics) db"
  by (simp add: synced_def NewTracker_def)

end

section \<open>Properties\<close>


definition loop_cfg :: agent_config where
  "loop_cfg = \<lparr>SessionTimeoutMins = 30, LoopThreshold = 2, LoopWindowMins = 5, LoopAction = ''block'',
     GhostMaxAgeMins = 0, GhostMinCalls = 0, GhostMinCostUSD = 0\<rparr>"


text \<open>
  C27. The memory of the tracker is bounded and well-formed in every run: at most ten thousand
  sessions, under distinct keys that are their ids; and when the cap is reached the session that
  makes room is one with the oldest last activity.
\<close>

theorem session_cap:
  assumes "list_all ev_ok es" "t = fst (tk_run (NewTracker cfg metrics) H es)" "permutes ord"
  shows "length (t_sessions t) \<le> 10000 \<and> distinct (map fst (t_sessions t)) \<and>
    (\<forall>(i, ts) \<in> set (t_sessions t). s_ID (ts_session ts) = i) \<and>
    (t_sessions t \<noteq> [] \<longrightarrow> (\<exists>(i, ts) \<in> set (t_sessions t).
       evictOldest ord t = t\<lparr>t_sessions := AList.delete i (t_sessions t)\<rparr> \<and>
       (\<forall>(_, ts') \<in> set (t_sessions t). lastActivity ts \<le> lastActivity ts')))"
proof -
  have inv: "t_inv t" using assms(1,2) tk_run_inv NewTracker_inv by simp
  have "\<exists>(i, ts) \<in> set (t_sessions t).
       evictOldest ord t = t\<lparr>t_sessions := AList.delete i (t_sessions t)\<rparr> \<and>
       (\<forall>(_, ts') \<in> set (t_sessions t). lastActivity ts \<le> lastActivity ts')" if ne: "t_sessions t \<noteq> []"
  proof -
    have perm: "set (ord (t_sessions t)) = set (t_sessions t)" using permutes_set[OF assms(3)] .
    with ne have "ord (t_sessions t) \<noteq> []" by auto
    then obtain i ts where o: "oldest (ord (t_sessions t)) None = Some (i, lastActivity ts)" "(i, ts) \<in> set (t_sessions t)"
      "\<forall>(_, ts') \<in> set (t_sessions t). lastActivity ts \<le> lastActivity ts'"
      using oldest_min[of "ord (t_sessions t)"] unfolding perm by blast
    moreover have "i \<noteq> ''''" using inv o(2) by (auto simp: t_inv_def)
    ultimately show ?thesis by (intro bexI[OF _ o(2)]) (simp add: evictOldest_def)
  qed
  then show ?thesis using inv by (auto simp: t_inv_def maxActiveSessions_def)
qed

theorem session_cap_witness:
  "let t = fst (tk_run (NewTracker loop_cfg True) (\<lambda>_. []) [Track id ''s'' ''a'' ''u'' ''t'' ''m'' ''/v1'' (1, 1, 1, 1), Expire 5])
   in length (t_sessions t) \<le> 10000"
  unfolding Let_def
  using session_cap[of "[Track id ''s'' ''a'' ''u'' ''t'' ''m'' ''/v1'' (1, 1, 1, 1), Expire 5]" _ loop_cfg True "\<lambda>_. []" id, OF _ refl]
  by (simp add: permutes_def)

text \<open>
  A session is reported as a ghost at most once while it stays in memory, and only when it is
  active, old enough, and has made and spent enough: after \<open>detectGhosts\<close> the sessions it
  reported are marked, and a second run right after it reports nothing.
\<close>

theorem detectGhosts_once:
  assumes "permutes ord'"
  shows "fst (detectGhosts ord' (snd (detectGhosts ord t now)) now) = []"
proof -
  let ?t = "snd (detectGhosts ord t now)"
  have cfg: "t_cfg ?t = t_cfg t" by (simp add: detectGhosts_def)
  have none: "ghost_alert ?t now p = None" if "GhostMaxAgeMins (t_cfg t) > 0" "p \<in> set (t_sessions ?t)" for p
    using that by (auto simp: detectGhosts_def ghost_alert_def detector_def split: if_splits)
  have "set (ord' (t_sessions ?t)) = set (t_sessions ?t)" using permutes_set[OF assms] .
  then show ?thesis
    using none cfg by (auto simp: detectGhosts_def[of ord' "snd (detectGhosts ord t now)"])
qed

theorem detectGhosts_once_witness:
  "let t = \<lparr>t_cfg = loop_cfg\<lparr>GhostMaxAgeMins := 1\<rparr>, t_sessions = [(''s'', new_session ''s'' ''a'' ''u'' ''t'' 0)],
            has_metrics = True, has_notifier = False\<rparr>
   in fst (detectGhosts id t (\<lambda>_. Hour)) = [RecordAlert ''ghost_detected''] \<and>
      fst (detectGhosts id (snd (detectGhosts id t (\<lambda>_. Hour))) (\<lambda>_. Hour)) = []"
  using detectGhosts_once[of id] unfolding Let_def
  by (simp add: permutes_def)
     (simp add: detectGhosts_def ghost_alert_def loop_cfg_def new_session_def CheckGhost_def detector_def NewDetector_def
        i64_def duration_units time_Sub_def)

text \<open>
  The gauge of active sessions drifts: ending a session twice reports two ends for one start.
  After one call and two \<open>EndSession\<close> the metrics have seen one more end than starts.
\<close>

theorem EndSession_twice:
  "let (alert, evs, t) = TrackCall id (NewTracker loop_cfg True) ''s'' ''a'' ''u'' ''t'' ''m'' ''/v1'' (1, 1, 1, 1);
       (evs', t') = EndSession t ''s'' 2; (evs'', t'') = EndSession t' ''s'' 3
   in count_list (evs @ evs' @ evs'') SessionStarted = 1 \<and> count_list (evs @ evs' @ evs'') SessionEnded = 2"
  by (simp add: Let_def NewTracker_def TrackCall_def get_or_start_def maxActiveSessions_def EndSession_def
        CheckLoop_def trim_calls_def detector_def NewDetector_def loop_cfg_def i64_def duration_units new_session_def time_defs)

end
