(* ===== verification/Glob.thy ===== *)
theory Glob
  imports Runes
begin

text \<open>
  \<open>filepath.Match\<close> of Go's standard library on Unix, which decides every API-key pattern of
  the program: the budget rules, the rate-limit rules, the tenant mappings and the
  blocklist. The model follows the library's algorithm: the pattern is cut into chunks at
  the stars, a chunk is matched without backtracking, and a star tries the later positions
  in turn. \<open>Match\<close> returns \<open>None\<close> for \<open>ErrBadPattern\<close>; the program ignores the error and
  keeps the boolean, which is false then (\<open>Matched\<close>).

  The lemmas give what the program's documentation promises: a pattern without special
  characters matches itself only, and a literal followed by one star matches the strings
  with that prefix, provided that the rest has no slash.
\<close>

section \<open>Character classes\<close>

text \<open>\<open>getEsc\<close>: one possibly escaped character of a class, and the rest, never empty.\<close>

definition getEsc :: "string \<Rightarrow> (nat \<times> string) option" where
  "getEsc chunk =
    (if chunk = [] \<or> hd chunk = CHR ''-'' \<or> hd chunk = CHR '']'' then None
     else let c1 = (if hd chunk = CHR 0x5C then tl chunk else chunk) in
       if c1 = [] then None
       else let (r, n) = DecodeRune c1; nchunk = drop n c1 in
         if (r = RuneError \<and> n = 1) \<or> nchunk = [] then None else Some (r, nchunk))"

lemma getEsc_shorter: "getEsc chunk = Some (r, rest) \<Longrightarrow> length rest < length chunk"
  using DecodeRune_width[of chunk] DecodeRune_width[of "tl chunk"]
  by (cases chunk) (auto simp: getEsc_def Let_def split: if_splits prod.splits)

text \<open>The loop over the ranges of a class: the rest after the bracket, and whether \<open>r\<close> matched.\<close>

function class_ranges :: "string \<Rightarrow> nat \<Rightarrow> bool \<Rightarrow> nat \<Rightarrow> (string \<times> bool) option" where
  "class_ranges chunk r m nrange =
    (if chunk \<noteq> [] \<and> hd chunk = CHR '']'' \<and> 0 < nrange then Some (tl chunk, m)
     else (case getEsc chunk of
       None \<Rightarrow> None
     | Some (lo, c1) \<Rightarrow>
        if hd c1 = CHR ''-'' then
          (case getEsc (tl c1) of
             None \<Rightarrow> None
           | Some (hi, c2) \<Rightarrow> class_ranges c2 r (m \<or> (lo \<le> r \<and> r \<le> hi)) (Suc nrange))
        else class_ranges c1 r (m \<or> (lo \<le> r \<and> r \<le> lo)) (Suc nrange)))"
  by pat_completeness auto
termination
proof (relation "measure (\<lambda>(c, _, _, _). length c)", goal_cases)
  case (2 chunk r m nrange x lo c1 y hi c2)
  then have "length c1 < length chunk" "length c2 < length (tl c1)"
    by (auto dest!: getEsc_shorter)
  then show ?case by simp
qed (auto dest!: getEsc_shorter)

declare class_ranges.simps [simp del]

lemma class_ranges_shorter: "class_ranges chunk r m k = Some (rest, b) \<Longrightarrow> length rest < length chunk"
proof (induction chunk r m k rule: class_ranges.induct)
  case (1 chunk r m k)
  from 1(3) show ?case
    by (subst (asm) class_ranges.simps)
       (use 1(1,2) in \<open>fastforce split: if_splits option.splits dest!: getEsc_shorter\<close>)
qed

section \<open>Chunks\<close>

datatype chunk_result = BadPattern | NoMatch | Rest string

text \<open>
  \<open>matchChunk\<close>: after a mismatch the loop goes on over the chunk with \<open>failed\<close> set, only
  to see whether the pattern is well formed.
\<close>

function matchChunk :: "string \<Rightarrow> string \<Rightarrow> bool \<Rightarrow> chunk_result" where
  "matchChunk chunk s failed0 =
    (case chunk of
      [] \<Rightarrow> (if failed0 then NoMatch else Rest s)
    | c # cs \<Rightarrow>
       let failed = (failed0 \<or> s = []) in
       if c = CHR ''['' then
         let negated = (cs \<noteq> [] \<and> hd cs = CHR ''^'') in
         (case class_ranges (if negated then tl cs else cs) (if failed then 0 else fst (DecodeRune s)) False 0 of
            None \<Rightarrow> BadPattern
          | Some (rest, m) \<Rightarrow>
             matchChunk rest (if failed then s else drop (snd (DecodeRune s)) s) (failed \<or> m = negated))
       else if c = CHR ''?'' then
         (if failed then matchChunk cs s True
          else matchChunk cs (drop (snd (DecodeRune s)) s) (hd s = CHR ''/''))
       else if c = CHR 0x5C then
         (case cs of
            [] \<Rightarrow> BadPattern
          | l # rest \<Rightarrow> if failed then matchChunk rest s True else matchChunk rest (tl s) (l \<noteq> hd s))
       else if failed then matchChunk cs s True else matchChunk cs (tl s) (c \<noteq> hd s))"
  by pat_completeness auto
termination
  by (relation "measure (\<lambda>(c, _, _). length c)")
     (auto dest!: class_ranges_shorter split: if_splits)

declare matchChunk.simps [simp del]

text \<open>\<open>scanChunk\<close>: the leading stars, the chunk up to the next star, and the rest.\<close>

fun scan :: "string \<Rightarrow> bool \<Rightarrow> string \<times> string" where
  "scan [] inrange = ([], [])"
| "scan (c # cs) inrange =
    (if c = CHR 0x5C then
       (case cs of [] \<Rightarrow> ([c], [])
        | d # ds \<Rightarrow> let (a, b) = scan ds inrange in (c # d # a, b))
     else if c = CHR ''*'' \<and> \<not> inrange then ([], c # cs)
     else let (a, b) = scan cs (if c = CHR ''['' then True else if c = CHR '']'' then False else inrange)
          in (c # a, b))"

definition scanChunk :: "string \<Rightarrow> bool \<times> string \<times> string" where
  "scanChunk pattern =
    (let p = dropWhile (\<lambda>c. c = CHR ''*'') pattern; (chunk, rest) = scan p False
     in (hd pattern = CHR ''*'' \<and> pattern \<noteq> [], chunk, rest))"

lemma scan_append: "scan s b = (chunk, rest) \<Longrightarrow> s = chunk @ rest"
  by (induction s b arbitrary: chunk rest rule: scan.induct)
     (auto split: if_splits list.splits prod.splits simp: Let_def)

lemma scan_nonempty: "s \<noteq> [] \<Longrightarrow> hd s \<noteq> CHR ''*'' \<Longrightarrow> scan s b = (chunk, rest) \<Longrightarrow> chunk \<noteq> []"
  by (cases s) (auto split: if_splits list.splits prod.splits simp: Let_def)

lemma scanChunk_shorter:
  assumes "pattern \<noteq> []" and "scanChunk pattern = (star, chunk, rest)"
  shows "length rest < length pattern"
proof -
  define p where "p = dropWhile (\<lambda>c. c = CHR ''*'') pattern"
  have sc: "scan p False = (chunk, rest)"
    using assms(2) by (simp add: scanChunk_def p_def split: prod.splits)
  then have p: "p = chunk @ rest" by (rule scan_append)
  show ?thesis
  proof (cases "hd pattern = CHR ''*''")
    case True
    then have "length p < length pattern" using assms(1)
      by (cases pattern) (auto simp: p_def le_imp_less_Suc length_dropWhile_le)
    then show ?thesis using p by simp
  next
    case False
    then have "p = pattern" using assms(1) by (cases pattern) (auto simp: p_def)
    then show ?thesis using p scan_nonempty[OF _ _ sc] assms(1) False
      by (metis append_eq_conv_conj length_append length_greater_0_conv less_add_same_cancel2)
  qed
qed

lemmas scanChunk_shorter_sym = scanChunk_shorter[OF _ sym]

section \<open>Match\<close>

text \<open>A star tries the positions after each byte it may skip, which is any byte but a slash.\<close>

fun star_skip :: "string \<Rightarrow> string \<Rightarrow> string \<Rightarrow> chunk_result" where
  "star_skip chunk rest [] = NoMatch"
| "star_skip chunk rest (c # name) =
    (if c = CHR ''/'' then NoMatch
     else (case matchChunk chunk name False of
       BadPattern \<Rightarrow> BadPattern
     | NoMatch \<Rightarrow> star_skip chunk rest name
     | Rest t \<Rightarrow> if rest = [] \<and> t \<noteq> [] then star_skip chunk rest name else Rest t))"

text \<open>Before a plain \<open>false\<close>, the remaining pattern is checked for syntax errors.\<close>

function rest_valid :: "string \<Rightarrow> bool" where
  "rest_valid pattern =
    (if pattern = [] then True
     else (case scanChunk pattern of (_, chunk, rest) \<Rightarrow>
       if matchChunk chunk [] False = BadPattern then False else rest_valid rest))"
  by pat_completeness auto
termination
  by (relation "measure length") (auto dest: scanChunk_shorter_sym)

definition no_match :: "string \<Rightarrow> bool option" where
  "no_match pattern = (if rest_valid pattern then Some False else None)"

function Match :: "string \<Rightarrow> string \<Rightarrow> bool option" where
  "Match pattern name =
    (if pattern = [] then Some (name = [])
     else (case scanChunk pattern of (star, chunk, rest) \<Rightarrow>
       if star \<and> chunk = [] then Some (CHR ''/'' \<notin> set name)
       else (case matchChunk chunk name False of
         BadPattern \<Rightarrow> None
       | NoMatch \<Rightarrow>
          if star then (case star_skip chunk rest name of
              BadPattern \<Rightarrow> None | NoMatch \<Rightarrow> no_match rest | Rest t \<Rightarrow> Match rest t)
          else no_match rest
       | Rest t \<Rightarrow>
          if t = [] \<or> rest \<noteq> [] then Match rest t
          else if star then (case star_skip chunk rest name of
              BadPattern \<Rightarrow> None | NoMatch \<Rightarrow> no_match rest | Rest t \<Rightarrow> Match rest t)
          else no_match rest)))"
  by pat_completeness auto
termination
  by (relation "measure (\<lambda>(p, n). length p)") (auto dest: scanChunk_shorter_sym)

declare rest_valid.simps [simp del] Match.simps [simp del]

text \<open>The boolean the program keeps of \<open>matched, _ := filepath.Match(pattern, name)\<close>.\<close>

definition Matched :: "string \<Rightarrow> string \<Rightarrow> bool" where
  "Matched pattern name \<longleftrightarrow> Match pattern name = Some True"

section \<open>Patterns as the documentation describes them\<close>

text \<open>A pattern with none of the special characters.\<close>

definition plain :: "string \<Rightarrow> bool" where
  "plain p \<longleftrightarrow> (\<forall>c \<in> set p. c \<noteq> CHR ''*'' \<and> c \<noteq> CHR ''?'' \<and> c \<noteq> CHR ''['' \<and> c \<noteq> CHR 0x5C)"

lemma plain_Nil [simp]: "plain []"
  by (simp add: plain_def)

lemma plain_Cons [simp]:
  "plain (c # p) \<longleftrightarrow> c \<noteq> CHR ''*'' \<and> c \<noteq> CHR ''?'' \<and> c \<noteq> CHR ''['' \<and> c \<noteq> CHR 0x5C \<and> plain p"
  by (auto simp: plain_def)

lemma scan_plain [simp]: "plain p \<Longrightarrow> scan p False = (p, [])"
  by (induction p) auto

lemma scan_plain_star [simp]: "plain p \<Longrightarrow> scan (p @ CHR ''*'' # r) False = (p, CHR ''*'' # r)"
  by (induction p) auto

lemma scanChunk_plain: "plain p \<Longrightarrow> scanChunk p = (False, p, [])"
  by (cases p) (auto simp: scanChunk_def)

lemma scanChunk_plain_star:
  "plain p \<Longrightarrow> p \<noteq> [] \<Longrightarrow> scanChunk (p @ CHR ''*'' # r) = (False, p, CHR ''*'' # r)"
  using scan_plain_star[of p r] by (cases p) (auto simp: scanChunk_def)

lemma scanChunk_star: "scanChunk ''*'' = (True, [], [])"
  by (simp add: scanChunk_def)

lemma matchChunk_Nil [simp]: "matchChunk [] s failed = (if failed then NoMatch else Rest s)"
  by (simp add: matchChunk.simps)

lemma matchChunk_plain_failed [simp]: "plain p \<Longrightarrow> matchChunk p s True = NoMatch"
  by (induction p) (auto simp: matchChunk.simps Let_def)

lemma matchChunk_literal:
  "plain [c] \<Longrightarrow> matchChunk (c # p) s False =
     (if s = [] then matchChunk p s True else matchChunk p (tl s) (c \<noteq> hd s))"
  by (simp add: matchChunk.simps[of "c # p"])

lemma matchChunk_plain:
  "plain p \<Longrightarrow> matchChunk p s False = (if HasPrefix s p then Rest (drop (length p) s) else NoMatch)"
proof (induction p arbitrary: s)
  case (Cons c p)
  then show ?case
    by (cases s; cases "c = hd s") (auto simp: matchChunk_literal HasPrefix_def)
qed simp

lemma rest_valid_star [simp]: "rest_valid ''*''"
  by (simp add: rest_valid.simps scanChunk_star)

lemma rest_valid_Nil [simp]: "rest_valid []"
  by (simp add: rest_valid.simps)

lemma Match_Nil [simp]: "Match [] name = Some (name = [])"
  by (simp add: Match.simps)

lemma Match_star [simp]: "Match ''*'' name = Some (CHR ''/'' \<notin> set name)"
  by (simp add: Match.simps scanChunk_star)

lemma Match_plain: "plain p \<Longrightarrow> Match p name = Some (name = p)"
  by (cases "p = []")
     (auto simp: Match.simps[of p] scanChunk_plain matchChunk_plain no_match_def HasPrefix_iff)

lemma Match_plain_star:
  assumes "plain p"
  shows "Match (p @ ''*'') name = Some (HasPrefix name p \<and> CHR ''/'' \<notin> set (drop (length p) name))"
proof (cases "p = []")
  case False
  then show ?thesis
    using assms scanChunk_plain_star[of p "[]"]
    by (simp add: Match.simps[of "p @ _"] matchChunk_plain no_match_def)
qed simp

lemma Matched_Nil [simp]: "Matched [] name \<longleftrightarrow> name = []"
  by (simp add: Matched_def)

lemma Matched_plain: "plain p \<Longrightarrow> Matched p name \<longleftrightarrow> name = p"
  by (simp add: Matched_def Match_plain)

lemma Matched_plain_star:
  "plain p \<Longrightarrow> Matched (p @ ''*'') name \<longleftrightarrow> (\<exists>t. name = p @ t \<and> CHR ''/'' \<notin> set t)"
  by (auto simp: Matched_def Match_plain_star HasPrefix_iff)

end
