(* ===== verification/Calendar.thy ===== *)
theory Calendar
  imports Go_Prelude
begin

text \<open>
  The two calendar computations of the program: the start of the UTC day and of the UTC month
  of an instant, \<open>time.Date(now.Year(), now.Month(), now.Day(), 0, ...)\<close> and
  \<open>time.Date(now.Year(), now.Month(), 1, 0, ...)\<close>. Times are nanoseconds since the Unix epoch;
  years are counted from March, so that the leap day is the last day of a year.
\<close>

definition Day :: duration where "Day = 24 * Hour"

text \<open>Days from 1970-01-01 to the first of March of year \<open>y\<close> of the proleptic Gregorian calendar.\<close>

definition march_first :: "int \<Rightarrow> int" where
  "march_first y = 365 * y + y div 4 - y div 100 + y div 400 - 719468"

text \<open>The day of the March year on which its \<open>m\<close>-th month begins, March being month 0.\<close>

definition month_offset :: "int \<Rightarrow> int" where
  "month_offset m = (153 * m + 2) div 5"

definition march_year :: "int \<Rightarrow> int" where
  "march_year d =
    (let z = d + 719468; era = z div 146097; doe = z mod 146097
     in (doe - doe div 1460 + doe div 36524 - doe div 146096) div 365 + 400 * era)"

definition march_month :: "int \<Rightarrow> int" where
  "march_month d = (5 * (d - march_first (march_year d)) + 2) div 153"

definition dayOfMonth :: "int \<Rightarrow> int" where
  "dayOfMonth d = d - march_first (march_year d) - month_offset (march_month d) + 1"

definition day_number :: "time \<Rightarrow> int" where
  "day_number t = t div Day"

definition dayStart :: "time \<Rightarrow> time" where
  "dayStart t = day_number t * Day"

definition monthStart :: "time \<Rightarrow> time" where
  "monthStart t = (day_number t - dayOfMonth (day_number t) + 1) * Day"

section \<open>Lemmas\<close>

lemma Day_pos [simp]: "0 < Day"
  by (simp add: Day_def duration_units)

lemma dayStart_bounds: "dayStart t \<le> t" "t < dayStart t + Day"
proof -
  have eq: "dayStart t = t - t mod Day" by (simp add: dayStart_def day_number_def minus_mod_eq_div_mult)
  show "dayStart t \<le> t" "t < dayStart t + Day"
    using eq pos_mod_sign[OF Day_pos, of t] pos_mod_bound[OF Day_pos, of t] by linarith+
qed

lemma month_offset_bounds:
  fixes x :: int
  defines "m \<equiv> (5 * x + 2) div 153"
  shows "month_offset m \<le> x" "x \<le> month_offset m + 30"
proof -
  have m: "153 * m \<le> 5 * x + 2" "5 * x + 2 < 153 * m + 153"
    unfolding m_def using pos_mod_bound[of 153 "5 * x + 2"] pos_mod_sign[of 153 "5 * x + 2"]
      mult_div_mod_eq[of 153 "5 * x + 2"] by linarith+
  have "5 * month_offset m \<le> 153 * m + 2" "153 * m + 2 < 5 * month_offset m + 5"
    unfolding month_offset_def by linarith+
  with m show "month_offset m \<le> x" "x \<le> month_offset m + 30" by linarith+
qed

lemma dayOfMonth_bounds: "1 \<le> dayOfMonth d" "dayOfMonth d \<le> 31"
  using month_offset_bounds[of "d - march_first (march_year d)"]
  by (simp_all add: dayOfMonth_def march_month_def)

lemma monthStart_le: "monthStart t \<le> dayStart t"
  unfolding monthStart_def dayStart_def
  using dayOfMonth_bounds[of "day_number t"] by (intro mult_right_mono) (auto simp: less_imp_le)

lemma monthStart_bounds: "monthStart t \<le> t" "t < monthStart t + 31 * Day"
proof -
  show "monthStart t \<le> t" using monthStart_le dayStart_bounds(1) by (rule order_trans)
  have "dayStart t = monthStart t + (dayOfMonth (day_number t) - 1) * Day"
    by (simp add: dayStart_def monthStart_def algebra_simps)
  also have "\<dots> \<le> monthStart t + 30 * Day"
    using dayOfMonth_bounds(2)[of "day_number t"] by (intro add_left_mono mult_right_mono) (auto simp: less_imp_le)
  finally show "t < monthStart t + 31 * Day" using dayStart_bounds(2)[of t] by linarith
qed

lemma dayStart_same: "dayStart t = s \<Longrightarrow> s \<le> u \<Longrightarrow> u < s + Day \<Longrightarrow> dayStart u = s"
proof -
  assume s: "dayStart t = s" and u: "s \<le> u" "u < s + Day"
  have "u = (u - s) + day_number t * Day" using s by (simp add: dayStart_def)
  then have "u div Day = (u - s) div Day + day_number t" by (metis Day_pos add.commute div_mult_self1 less_irrefl)
  then have "day_number u = day_number t" using u by (simp add: day_number_def)
  then show ?thesis using s by (simp add: dayStart_def)
qed

end
