(* ===== verification/Budget.thy ===== *)
theory Budget
  imports Float64 Glob Calendar Keys
begin

text \<open>
  Budget enforcement (\<open>internal/budget/budget.go\<close>): rules per key pattern and per tenant, the
  spend of a key or tenant as the ledger reports it, kept in a cache for a short time, and the
  decision for a request. The ledger is an argument of the operations that query it; what they
  rely on is the locale \<open>spend_ledger\<close>, which the ledger's own theory interprets.
\<close>

section \<open>Data\<close>

datatype Decision = DAllow | DWarn | DBlock

definition decision_rank :: "Decision \<Rightarrow> nat" where
  "decision_rank d = (case d of DAllow \<Rightarrow> 0 | DWarn \<Rightarrow> 1 | DBlock \<Rightarrow> 2)"

instantiation Decision :: linorder
begin

definition less_eq_Decision :: "Decision \<Rightarrow> Decision \<Rightarrow> bool" where
  "less_eq_Decision c d \<longleftrightarrow> decision_rank c \<le> decision_rank d"

definition less_Decision :: "Decision \<Rightarrow> Decision \<Rightarrow> bool" where
  "less_Decision c d \<longleftrightarrow> decision_rank c < decision_rank d"

instance
  by standard (auto simp: less_eq_Decision_def less_Decision_def decision_rank_def split: Decision.splits)

end

record Result =
  r_Decision :: Decision
  DailySpent :: float64
  DailyLimit :: float64
  MonthlySpent :: float64
  MonthlyLimit :: float64

record Rule =
  APIKeyPattern :: string
  TenantID :: string
  DailyLimitUSD :: float64
  MonthlyLimitUSD :: float64
  SoftLimitPct :: float64
  Action :: string

record Config =
  Default :: Rule
  Rules :: "Rule list"

record spendEntry =
  daily :: float64
  monthly :: float64
  fetched :: time

record Manager =
  m_config :: Config
  m_cache :: "string \<rightharpoonup> spendEntry"
  m_cacheTTL :: duration
  m_onWarn :: bool
  m_onBlock :: bool

text \<open>
  What a call does besides returning: callbacks, when they are set, and error lines of the log.
\<close>

datatype budget_event =
    OnWarn string Result
  | OnBlock string Result
  | LogError string string

text \<open>
  The two spend queries of the \<open>ledger.Ledger\<close> interface: key or tenant, since, until. As in Go
  the result is a number and an error, and the number is used whatever the error is.
\<close>

type_synonym spend_query = "string \<Rightarrow> time \<Rightarrow> time \<Rightarrow> float64 \<times> string option"

record spend_source =
  GetTotalSpend_i :: spend_query
  GetTotalSpendByTenant_i :: spend_query

section \<open>Operations\<close>

definition defaultCacheTTL :: duration where "defaultCacheTTL = 30 * Second"

definition NewManager :: "Config \<Rightarrow> Manager" where
  "NewManager cfg = \<lparr>m_config = cfg, m_cache = Map.empty, m_cacheTTL = defaultCacheTTL,
     m_onWarn = False, m_onBlock = False\<rparr>"

definition SetCallbacks :: "Manager \<Rightarrow> bool \<Rightarrow> bool \<Rightarrow> Manager" where
  "SetCallbacks m w b = m\<lparr>m_onWarn := w, m_onBlock := b\<rparr>"

definition UpdateRules :: "Manager \<Rightarrow> Rule list \<Rightarrow> Manager" where
  "UpdateRules m rules = m\<lparr>m_config := (m_config m)\<lparr>Rules := rules\<rparr>, m_cache := Map.empty\<rparr>"

definition b_Enabled :: "Manager \<Rightarrow> bool" where
  "b_Enabled m \<longleftrightarrow>
    DailyLimitUSD (Default (m_config m)) > 0 \<or> MonthlyLimitUSD (Default (m_config m)) > 0 \<or>
    length (Rules (m_config m)) > 0"

definition exceeded :: "Rule \<Rightarrow> float64 \<Rightarrow> float64 \<Rightarrow> bool" where
  "exceeded rule d mo \<longleftrightarrow>
    (DailyLimitUSD rule > 0 \<and> d \<ge> DailyLimitUSD rule) \<or> (MonthlyLimitUSD rule > 0 \<and> mo \<ge> MonthlyLimitUSD rule)"

definition evaluateRule :: "Rule \<Rightarrow> float64 \<Rightarrow> float64 \<Rightarrow> Result" where
  "evaluateRule rule d mo =
    (let result = \<lparr>r_Decision = DAllow, DailySpent = d, DailyLimit = DailyLimitUSD rule,
                   MonthlySpent = mo, MonthlyLimit = MonthlyLimitUSD rule\<rparr>
     in if exceeded rule d mo
        then (if Action rule = ''block'' then result\<lparr>r_Decision := DBlock\<rparr> else result\<lparr>r_Decision := DWarn\<rparr>)
        else if SoftLimitPct rule > 0
        then
          let r1 = (if DailyLimitUSD rule > 0 \<and> d \<ge> fmul (DailyLimitUSD rule) (SoftLimitPct rule)
                    then result\<lparr>r_Decision := DWarn\<rparr> else result)
          in (if MonthlyLimitUSD rule > 0 \<and> mo \<ge> fmul (MonthlyLimitUSD rule) (SoftLimitPct rule)
              then r1\<lparr>r_Decision := DWarn\<rparr> else r1)
        else result)"

definition mergeWithDefault :: "Config \<Rightarrow> Rule \<Rightarrow> Rule" where
  "mergeWithDefault cfg r0 =
    (let r1 = (if DailyLimitUSD r0 \<le> 0 then r0\<lparr>DailyLimitUSD := DailyLimitUSD (Default cfg)\<rparr> else r0);
         r2 = (if MonthlyLimitUSD r1 \<le> 0 then r1\<lparr>MonthlyLimitUSD := MonthlyLimitUSD (Default cfg)\<rparr> else r1);
         r3 = (if SoftLimitPct r2 \<le> 0 then r2\<lparr>SoftLimitPct := SoftLimitPct (Default cfg)\<rparr> else r2)
     in if Action r3 = '''' then r3\<lparr>Action := Action (Default cfg)\<rparr> else r3)"

fun firstMatch :: "Config \<Rightarrow> string \<Rightarrow> Rule list \<Rightarrow> Rule" where
  "firstMatch cfg rawKey [] = Default cfg"
| "firstMatch cfg rawKey (r # rs) =
    (if Matched (APIKeyPattern r) rawKey then mergeWithDefault cfg r else firstMatch cfg rawKey rs)"

definition matchRule :: "Config \<Rightarrow> string \<Rightarrow> Rule" where
  "matchRule cfg rawKey = firstMatch cfg rawKey (Rules cfg)"

fun firstTenant :: "Config \<Rightarrow> string \<Rightarrow> Rule list \<Rightarrow> Rule option" where
  "firstTenant cfg tenantID [] = None"
| "firstTenant cfg tenantID (r # rs) =
    (if TenantID r = tenantID \<and> APIKeyPattern r = '''' then Some (mergeWithDefault cfg r)
     else firstTenant cfg tenantID rs)"

definition matchTenantRule :: "Config \<Rightarrow> string \<Rightarrow> Rule option" where
  "matchTenantRule cfg tenantID = firstTenant cfg tenantID (Rules cfg)"

text \<open>
  \<open>getSpend\<close> and \<open>getTenantSpend\<close> differ in the cache key and the query. The three clock readings
  are the age check, the query's \<open>now\<close> and the \<open>fetched\<close> stamp.
\<close>

type_synonym clocks = "time \<times> time \<times> time"

definition log_errors :: "(string \<times> string option) list \<Rightarrow> budget_event list" where
  "log_errors es = List.map_filter (\<lambda>(msg, e). map_option (LogError msg) e) es"

definition cachedSpend ::
  "spend_query \<Rightarrow> string \<times> string \<Rightarrow> string \<Rightarrow> string \<Rightarrow> Manager \<Rightarrow> clocks \<Rightarrow>
   (float64 \<times> float64) \<times> budget_event list \<times> Manager" where
  "cachedSpend query msgs subject key m clk =
    (case clk of (t\<^sub>1, now, t\<^sub>3) \<Rightarrow>
     case (case m_cache m key of
             Some e \<Rightarrow> if time_Sub t\<^sub>1 (fetched e) < m_cacheTTL m then Some (daily e, monthly e) else None
           | None \<Rightarrow> None) of
       Some hit \<Rightarrow> (hit, [], m)
     | None \<Rightarrow>
        let (d, err1) = query subject (dayStart now) now;
            (mo, err2) = query subject (monthStart now) now
        in ((d, mo), log_errors [(fst msgs, err1), (snd msgs, err2)],
            m\<lparr>m_cache := (m_cache m)(key \<mapsto> \<lparr>daily = d, monthly = mo, fetched = t\<^sub>3\<rparr>)\<rparr>))"

definition getSpend :: "spend_source \<Rightarrow> Manager \<Rightarrow> string \<Rightarrow> clocks \<Rightarrow> (float64 \<times> float64) \<times> budget_event list \<times> Manager" where
  "getSpend l m apiKeyHash clk =
    cachedSpend (GetTotalSpend_i l) (''budget: querying daily spend'', ''budget: querying monthly spend'')
      apiKeyHash apiKeyHash m clk"

definition tenant_key :: "string \<Rightarrow> string" where "tenant_key tenantID = ''tenant:'' @ tenantID"

definition getTenantSpend :: "spend_source \<Rightarrow> Manager \<Rightarrow> string \<Rightarrow> clocks \<Rightarrow> (float64 \<times> float64) \<times> budget_event list \<times> Manager" where
  "getTenantSpend l m tenantID clk =
    cachedSpend (GetTotalSpendByTenant_i l)
      (''budget: querying tenant daily spend'', ''budget: querying tenant monthly spend'')
      tenantID (tenant_key tenantID) m clk"

definition fire :: "Manager \<Rightarrow> string \<Rightarrow> Result \<Rightarrow> budget_event list" where
  "fire m apiKeyHash result =
    (if r_Decision result = DBlock \<and> m_onBlock m then [OnBlock apiKeyHash result]
     else if r_Decision result = DWarn \<and> m_onWarn m then [OnWarn apiKeyHash result] else [])"

definition no_result :: Result where
  "no_result = \<lparr>r_Decision = DAllow, DailySpent = 0, DailyLimit = 0, MonthlySpent = 0, MonthlyLimit = 0\<rparr>"

definition Check ::
  "spend_source \<Rightarrow> Manager \<Rightarrow> string \<Rightarrow> string \<Rightarrow> string \<Rightarrow> clocks \<Rightarrow> clocks \<Rightarrow> Result \<times> budget_event list \<times> Manager" where
  "Check l m rawKey apiKeyHash tenantID kclk tclk =
    (let rule = matchRule (m_config m) rawKey in
     if DailyLimitUSD rule \<le> 0 \<and> MonthlyLimitUSD rule \<le> 0 then
       if tenantID = '''' then (no_result, [], m)
       else
         (case matchTenantRule (m_config m) tenantID of
            None \<Rightarrow> (no_result, [], m)
          | Some tenantRule \<Rightarrow>
              let ((d, mo), logs, m1) = getTenantSpend l m tenantID tclk;
                  result = evaluateRule tenantRule d mo
              in (result, logs @ fire m1 apiKeyHash result, m1))
     else
       let ((d, mo), logs, m1) = getSpend l m apiKeyHash kclk;
           result = evaluateRule rule d mo;
           evs = logs @ fire m1 apiKeyHash result
       in if tenantID = '''' then (result, evs, m1)
          else
            (case matchTenantRule (m_config m1) tenantID of
               None \<Rightarrow> (result, evs, m1)
             | Some tenantRule \<Rightarrow>
                 let ((td, tmo), tlogs, m2) = getTenantSpend l m1 tenantID tclk;
                     tenantResult = evaluateRule tenantRule td tmo
                 in if r_Decision tenantResult > r_Decision result
                    then (tenantResult, evs @ tlogs @ fire m2 apiKeyHash tenantResult, m2)
                    else (result, evs @ tlogs, m2)))"

definition evictStaleCache :: "Manager \<Rightarrow> time \<Rightarrow> Manager" where
  "evictStaleCache m now =
    m\<lparr>m_cache := (\<lambda>key. case m_cache m key of
        None \<Rightarrow> None | Some e \<Rightarrow> if time_Sub now (fetched e) > m_cacheTTL m then None else Some e)\<rparr>"

section \<open>Runs\<close>

text \<open>
  The manager's mutex and the cache's atomic operations make a run a sequence of checks,
  evictions by the cleanup goroutine and rule updates. Each check sees the ledger as it is then.
\<close>

datatype bm_event =
    Checked spend_source string string string clocks clocks
  | Evicted time
  | Updated "Rule list"

fun bm_step :: "Manager \<Rightarrow> bm_event \<Rightarrow> Manager" where
  "bm_step m (Checked l rawKey h tenantID kclk tclk) = snd (snd (Check l m rawKey h tenantID kclk tclk))"
| "bm_step m (Evicted now) = evictStaleCache m now"
| "bm_step m (Updated rules) = UpdateRules m rules"

definition bm_run :: "Manager \<Rightarrow> bm_event list \<Rightarrow> Manager" where
  "bm_run m es = foldl bm_step m es"

text \<open>The cache entry a query makes.\<close>

fun entry_of :: "spend_query \<Rightarrow> string \<Rightarrow> clocks \<Rightarrow> spendEntry" where
  "entry_of q s (t\<^sub>1, now, t\<^sub>3) =
    \<lparr>daily = fst (q s (dayStart now) now), monthly = fst (q s (monthStart now) now), fetched = t\<^sub>3\<rparr>"

text \<open>The query for cache key \<open>k\<close> that an event makes, if it has to.\<close>

fun makes_entry :: "string \<Rightarrow> spendEntry \<Rightarrow> bm_event \<Rightarrow> bool" where
  "makes_entry k e (Checked l rawKey h tenantID kclk tclk) \<longleftrightarrow>
    k = h \<and> e = entry_of (GetTotalSpend_i l) h kclk \<or>
    k = tenant_key tenantID \<and> e = entry_of (GetTotalSpendByTenant_i l) tenantID tclk"
| "makes_entry k e (Evicted now) \<longleftrightarrow> False"
| "makes_entry k e (Updated rules) \<longleftrightarrow> False"

definition cache_from :: "bm_event list \<Rightarrow> Manager \<Rightarrow> bool" where
  "cache_from es m \<longleftrightarrow> (\<forall>k e. m_cache m k = Some e \<longrightarrow> (\<exists>ev \<in> set es. makes_entry k e ev))"

section \<open>Lemmas\<close>

lemma evaluateRule_decision:
  "r_Decision (evaluateRule rule d mo) =
    (if exceeded rule d mo then if Action rule = ''block'' then DBlock else DWarn
     else if SoftLimitPct rule > 0 \<and>
       (DailyLimitUSD rule > 0 \<and> d \<ge> fmul (DailyLimitUSD rule) (SoftLimitPct rule) \<or>
        MonthlyLimitUSD rule > 0 \<and> mo \<ge> fmul (MonthlyLimitUSD rule) (SoftLimitPct rule))
     then DWarn else DAllow)"
  by (simp add: evaluateRule_def Let_def)

lemma evaluateRule_spent [simp]:
  "DailySpent (evaluateRule rule d mo) = d" "MonthlySpent (evaluateRule rule d mo) = mo"
  "DailyLimit (evaluateRule rule d mo) = DailyLimitUSD rule" "MonthlyLimit (evaluateRule rule d mo) = MonthlyLimitUSD rule"
  by (simp_all add: evaluateRule_def Let_def)

text \<open>A cached spend: a fresh enough entry, or what the ledger reports now.\<close>

lemma cachedSpend_cases:
  assumes "cachedSpend q msgs s k m (t\<^sub>1, now, t\<^sub>3) = ((d, mo), logs, m')"
  obtains (hit) e where "m_cache m k = Some e" "time_Sub t\<^sub>1 (fetched e) < m_cacheTTL m"
      "d = daily e" "mo = monthly e" "m' = m" "logs = []"
    | (miss) "\<And>e. m_cache m k = Some e \<Longrightarrow> \<not> time_Sub t\<^sub>1 (fetched e) < m_cacheTTL m"
      "d = daily (entry_of q s (t\<^sub>1, now, t\<^sub>3))" "mo = monthly (entry_of q s (t\<^sub>1, now, t\<^sub>3))"
      "m' = m\<lparr>m_cache := (m_cache m)(k \<mapsto> entry_of q s (t\<^sub>1, now, t\<^sub>3))\<rparr>"
  using assms
  by (cases "m_cache m k") (auto simp: cachedSpend_def Let_def split: if_splits prod.splits)

lemma cachedSpend_frame:
  "m_config (snd (snd (cachedSpend q msgs s k m clk))) = m_config m"
  "m_cacheTTL (snd (snd (cachedSpend q msgs s k m clk))) = m_cacheTTL m"
  "k' \<noteq> k \<Longrightarrow> m_cache (snd (snd (cachedSpend q msgs s k m clk))) k' = m_cache m k'"
  by (auto simp: cachedSpend_def Let_def split: option.splits prod.splits)

lemma cachedSpend_origin:
  "m_cache (snd (snd (cachedSpend q msgs s k m clk))) k' = Some e \<Longrightarrow>
    m_cache m k' = Some e \<or> k' = k \<and> e = entry_of q s clk"
  by (cases clk) (auto simp: cachedSpend_def Let_def split: option.splits prod.splits if_splits)

lemma Check_frame:
  "m_config (snd (snd (Check l m rawKey h tid kclk tclk))) = m_config m"
  "m_cacheTTL (snd (snd (Check l m rawKey h tid kclk tclk))) = m_cacheTTL m"
  using cachedSpend_frame
  by (simp_all add: Check_def getSpend_def getTenantSpend_def case_prod_unfold Let_def split: option.splits)

text \<open>The managers a check can leave: unchanged, or after one or both spend lookups.\<close>

lemma Check_manager:
  "snd (snd (Check l m rawKey h tid kclk tclk)) \<in>
    (let mk = snd (snd (getSpend l m h kclk)) in
     {m, snd (snd (getTenantSpend l m tid tclk)), mk, snd (snd (getTenantSpend l mk tid tclk))})"
  unfolding Check_def by (simp add: case_prod_unfold Let_def split: option.split)

lemma Check_cache:
  assumes "m_cache (snd (snd (Check l m rawKey h tid kclk tclk))) k = Some e"
  shows "m_cache m k = Some e \<or> makes_entry k e (Checked l rawKey h tid kclk tclk)"
proof -
  have key: "m_cache (snd (snd (getSpend l m h kclk))) k = Some e \<Longrightarrow> ?thesis"
    unfolding getSpend_def by (drule cachedSpend_origin) auto
  have tenant: "m_cache (snd (snd (getTenantSpend l m' tid tclk))) k = Some e \<Longrightarrow>
      m_cache m' k = Some e \<or> makes_entry k e (Checked l rawKey h tid kclk tclk)" for m'
    unfolding getTenantSpend_def by (drule cachedSpend_origin) auto
  from Check_manager[of l m rawKey h tid kclk tclk] assms show ?thesis
    using key tenant unfolding Let_def by (metis empty_iff insert_iff)
qed

lemma cache_from_step:
  assumes "cache_from es m"
  shows "cache_from (es @ [ev]) (bm_step m ev)"
proof (cases ev)
  case (Checked l rawKey h tid kclk tclk)
  then show ?thesis using assms Check_cache[of l m rawKey h tid kclk tclk] by (fastforce simp: cache_from_def)
next
  case (Evicted now)
  then show ?thesis using assms
    by (auto simp: cache_from_def evictStaleCache_def split: option.splits if_splits)
qed (auto simp: cache_from_def UpdateRules_def)

lemma bm_run_snoc [simp]: "bm_run m (es @ [ev]) = bm_step (bm_run m es) ev"
  by (simp add: bm_run_def)

lemma bm_run_cache: "cache_from es (bm_run (NewManager cfg) es)"
  by (induction es rule: rev_induct)
     (simp_all add: cache_from_step, simp add: bm_run_def cache_from_def NewManager_def)

lemma bm_step_TTL [simp]: "m_cacheTTL (bm_step m ev) = m_cacheTTL m"
  by (cases ev) (simp_all add: Check_frame evictStaleCache_def UpdateRules_def)

lemma bm_run_TTL [simp]: "m_cacheTTL (bm_run (NewManager cfg) es) = 30 * Second"
  by (induction es rule: rev_induct) (simp_all, simp add: bm_run_def NewManager_def defaultCacheTTL_def)

text \<open>Cache keys of keys and of tenants are different.\<close>

lemma hash_not_tenant_key: "HashAPIKey k \<noteq> tenant_key t"
proof
  assume eq: "HashAPIKey k = tenant_key t"
  then have "k \<noteq> ''''" by (auto simp: HashAPIKey_def tenant_key_def)
  then have "CHR ''t'' \<in> set hex_chars" using HashAPIKey_nonempty[of k] eq by (auto simp: tenant_key_def)
  then show False by (simp add: hex_chars_def)
qed

lemma makes_entry_key:
  assumes "makes_entry (HashAPIKey key) e ev"
  shows "\<exists>l raw tid t\<^sub>1 now t\<^sub>3 tclk. ev = Checked l raw (HashAPIKey key) tid (t\<^sub>1, now, t\<^sub>3) tclk \<and>
    e = entry_of (GetTotalSpend_i l) (HashAPIKey key) (t\<^sub>1, now, t\<^sub>3)"
  using assms hash_not_tenant_key[of key] by (cases ev) auto

text \<open>
  What a cached spend rests on: an entry made by an event not longer than the TTL ago, or the
  query of this call.
\<close>

lemma cachedSpend_provenance:
  assumes "cache_from es m" and "cachedSpend q msgs s k m (t\<^sub>1, now, t\<^sub>3) = ((d, mo), logs, m')"
    and "m_cacheTTL m = 30 * Second"
  shows "d = daily (entry_of q s (t\<^sub>1, now, t\<^sub>3)) \<and> mo = monthly (entry_of q s (t\<^sub>1, now, t\<^sub>3)) \<or>
    (\<exists>ev \<in> set es. \<exists>e. makes_entry k e ev \<and> t\<^sub>1 - fetched e < 30 * Second \<and> d = daily e \<and> mo = monthly e)"
  using assms(2)
proof (cases rule: cachedSpend_cases)
  case (hit e)
  then have "t\<^sub>1 - fetched e < 30 * Second"
    using assms(3) time_Sub_less[of "30 * Second" t\<^sub>1 "fetched e"] by (simp add: in_i64_def duration_units)
  then show ?thesis using hit assms(1) unfolding cache_from_def by blast
qed simp

lemma cachedSpend_clocks:
  assumes "cache_from es m" "m_cacheTTL m = 30 * Second"
  shows "fst (cachedSpend q msgs s k m clk) = (daily (entry_of q s clk), monthly (entry_of q s clk)) \<or>
    (\<exists>ev \<in> set es. \<exists>e. makes_entry k e ev \<and> fst clk - fetched e < 30 * Second \<and>
       fst (cachedSpend q msgs s k m clk) = (daily e, monthly e))"
proof -
  obtain t\<^sub>1 now t\<^sub>3 d mo logs m' where "clk = (t\<^sub>1, now, t\<^sub>3)" "cachedSpend q msgs s k m clk = ((d, mo), logs, m')"
    by (metis prod.exhaust)
  then show ?thesis using cachedSpend_provenance[OF assms(1) _ assms(2), of q msgs s k t\<^sub>1 now t\<^sub>3] by simp
qed

lemma getSpend_clocks:
  assumes "cache_from es m" "m_cacheTTL m = 30 * Second"
  shows "fst (getSpend l m h clk) = (daily (entry_of (GetTotalSpend_i l) h clk), monthly (entry_of (GetTotalSpend_i l) h clk)) \<or>
    (\<exists>ev \<in> set es. \<exists>e. makes_entry h e ev \<and> fst clk - fetched e < 30 * Second \<and>
       fst (getSpend l m h clk) = (daily e, monthly e))"
  unfolding getSpend_def by (rule cachedSpend_clocks[OF assms])

definition limited :: "Rule \<Rightarrow> bool" where
  "limited rule \<longleftrightarrow> DailyLimitUSD rule > 0 \<or> MonthlyLimitUSD rule > 0"

text \<open>The key's and the tenant's own results, where there is one; the tenant's is found second.\<close>

definition key_result :: "spend_source \<Rightarrow> Manager \<Rightarrow> string \<Rightarrow> string \<Rightarrow> clocks \<Rightarrow> Result option" where
  "key_result l m rawKey h kclk =
    (let rule = matchRule (m_config m) rawKey in
     if limited rule then case fst (getSpend l m h kclk) of (d, mo) \<Rightarrow> Some (evaluateRule rule d mo) else None)"

definition after_key :: "spend_source \<Rightarrow> Manager \<Rightarrow> string \<Rightarrow> string \<Rightarrow> clocks \<Rightarrow> Manager" where
  "after_key l m rawKey h kclk =
    (if limited (matchRule (m_config m) rawKey) then snd (snd (getSpend l m h kclk)) else m)"

definition tenant_result :: "spend_source \<Rightarrow> Manager \<Rightarrow> string \<Rightarrow> clocks \<Rightarrow> Result option" where
  "tenant_result l m tid tclk =
    (if tid = '''' then None
     else case matchTenantRule (m_config m) tid of
       None \<Rightarrow> None
     | Some rule \<Rightarrow> case fst (getTenantSpend l m tid tclk) of (d, mo) \<Rightarrow> Some (evaluateRule rule d mo))"

lemma after_key_frame [simp]:
  "m_config (after_key l m rawKey h kclk) = m_config m" "m_cacheTTL (after_key l m rawKey h kclk) = m_cacheTTL m"
  by (simp_all add: after_key_def getSpend_def cachedSpend_frame)

lemma Check_result:
  "fst (Check l m rawKey h tid kclk tclk) =
    (case (key_result l m rawKey h kclk, tenant_result l (after_key l m rawKey h kclk) tid tclk) of
       (None, None) \<Rightarrow> no_result
     | (None, Some t) \<Rightarrow> t
     | (Some k, None) \<Rightarrow> k
     | (Some k, Some t) \<Rightarrow> if r_Decision t > r_Decision k then t else k)"
  unfolding Check_def key_result_def tenant_result_def limited_def after_key_def Let_def case_prod_unfold
  by (simp add: not_less linorder_not_less not_le getSpend_def cachedSpend_frame split: option.split)

lemma DAllow_least [simp]: "DAllow \<le> d" "max DAllow d = d" "max d DAllow = d"
  by (simp_all add: max_def less_eq_Decision_def decision_rank_def split: Decision.split)

lemma DBlock_greatest [simp]: "\<not> DBlock < d" "d = DBlock \<or> \<not> d < DBlock \<or> d < DBlock"
  by (simp_all add: less_Decision_def decision_rank_def split: Decision.split)

text \<open>Spend lookups make log lines only, and keep the callbacks.\<close>

lemma cachedSpend_logs:
  "OnBlock h r \<notin> set (fst (snd (cachedSpend q msgs s k m clk)))"
  "m_onBlock (snd (snd (cachedSpend q msgs s k m clk))) = m_onBlock m"
  by (auto simp: cachedSpend_def log_errors_def Let_def List.map_filter_def split: option.splits prod.splits)

lemma fire_OnBlock: "OnBlock h r \<in> set (fire m h res) \<longleftrightarrow> r = res \<and> r_Decision res = DBlock \<and> m_onBlock m"
  by (auto simp: fire_def)

lemma Check_OnBlock:
  "(\<exists>r. OnBlock h r \<in> set (fst (snd (Check l m rawKey h tid kclk tclk)))) \<longleftrightarrow>
    r_Decision (fst (Check l m rawKey h tid kclk tclk)) = DBlock \<and> m_onBlock m"
  unfolding Check_def getSpend_def getTenantSpend_def Let_def case_prod_unfold
  by (simp add: cachedSpend_logs fire_OnBlock no_result_def split: option.split) auto

text \<open>The contract of the ledger: the spend is zero when the query fails.\<close>

locale spend_ledger =
  fixes query :: spend_query
  assumes error_zero: "snd (query k since until) = Some err \<Longrightarrow> fst (query k since until) = 0"
begin

text \<open>When both queries fail, no rule blocks.\<close>

lemma error_no_block:
  assumes "\<And>since. snd (query k since now) \<noteq> None"
  shows "r_Decision (evaluateRule rule (daily (entry_of query k (t\<^sub>1, now, t\<^sub>3))) (monthly (entry_of query k (t\<^sub>1, now, t\<^sub>3)))) \<noteq> DBlock"
proof -
  have "fst (query k since now) = 0" for since using assms[of since] error_zero by auto
  then show ?thesis by (auto simp: evaluateRule_decision exceeded_def)
qed

end

section \<open>Properties\<close>

text \<open>
  The decision on a spend is exactly this: over a positive limit it is block if the rule's
  action is \<open>block\<close> and warn otherwise; below the limits it is warn if a soft limit is set and
  the spend has reached that share of a positive limit; otherwise allow. The result carries
  the spends and limits it was made from.
\<close>

theorem evaluateRule_exact:
  "evaluateRule rule d mo =
    \<lparr>r_Decision =
       (if exceeded rule d mo then if Action rule = ''block'' then DBlock else DWarn
        else if SoftLimitPct rule > 0 \<and>
          (\<exists>(limit, spent) \<in> {(DailyLimitUSD rule, d), (MonthlyLimitUSD rule, mo)}.
             limit > 0 \<and> spent \<ge> fmul limit (SoftLimitPct rule)) then DWarn else DAllow),
     DailySpent = d, DailyLimit = DailyLimitUSD rule, MonthlySpent = mo, MonthlyLimit = MonthlyLimitUSD rule\<rparr>"
  by (auto simp: evaluateRule_def Let_def)


text \<open>
  C22. Every decision is justified by the ledger. After any history, the result of a check is the
  empty one, or the evaluation of the rule of the key or of the tenant on spends that the
  ledger reported for that key or tenant in this check or in an earlier one less than 30
  seconds old.
\<close>

theorem budget_justified:
  assumes "m = bm_run (NewManager cfg) es" "ev\<^sub>0 = Checked l rawKey h tid kclk tclk"
    and "res = fst (Check l m rawKey h tid kclk tclk)"
  shows "res = no_result \<or>
    (\<exists>rule k clk e ev.
       (rule = matchRule (m_config m) rawKey \<and> k = h \<and> clk = kclk \<or>
        matchTenantRule (m_config m) tid = Some rule \<and> k = tenant_key tid \<and> clk = tclk) \<and>
       makes_entry k e ev \<and> res = evaluateRule rule (daily e) (monthly e) \<and>
       (ev = ev\<^sub>0 \<or> ev \<in> set es \<and> fst clk - fetched e < 30 * Second))"
proof -
  have cache: "cache_from es m" "m_cacheTTL m = 30 * Second" using assms(1) bm_run_cache by simp_all
  have just: "\<exists>e ev. makes_entry k e ev \<and> fst (cachedSpend q msgs s k m' clk) = (daily e, monthly e) \<and>
      (ev = ev\<^sub>0 \<or> ev \<in> set es \<and> fst clk - fetched e < 30 * Second)"
    if "cache_from (es @ [ev\<^sub>0]) m'" "m_cacheTTL m' = 30 * Second" "makes_entry k (entry_of q s clk) ev\<^sub>0" for k q s msgs m' clk
    using cachedSpend_clocks[OF that(1,2), of q msgs s k clk] that(3) by auto
  let ?m1 = "after_key l m rawKey h kclk"
  have c0: "cache_from (es @ [ev\<^sub>0]) m" using cache(1) by (auto simp: cache_from_def)
  have "m_cache ?m1 k = Some e \<Longrightarrow> m_cache m k = Some e \<or> makes_entry k e ev\<^sub>0" for k e
    unfolding after_key_def getSpend_def by (auto dest: cachedSpend_origin simp: assms(2) split: if_splits)
  then have c1: "cache_from (es @ [ev\<^sub>0]) ?m1" using c0 unfolding cache_from_def by (metis UnCI list.set_intros(1) set_append)
  have key: "\<exists>e ev. makes_entry h e ev \<and> k = evaluateRule (matchRule (m_config m) rawKey) (daily e) (monthly e) \<and>
      (ev = ev\<^sub>0 \<or> ev \<in> set es \<and> fst kclk - fetched e < 30 * Second)"
    if "key_result l m rawKey h kclk = Some k" for k
  proof -
    obtain e ev where "makes_entry h e ev" "fst (getSpend l m h kclk) = (daily e, monthly e)"
      "ev = ev\<^sub>0 \<or> ev \<in> set es \<and> fst kclk - fetched e < 30 * Second"
      using just[OF c0 cache(2), of h "GetTotalSpend_i l" h kclk "(''budget: querying daily spend'', ''budget: querying monthly spend'')"] unfolding getSpend_def assms(2) by auto
    moreover from this have "k = evaluateRule (matchRule (m_config m) rawKey) (daily e) (monthly e)"
      using that by (simp add: key_result_def Let_def split: if_splits)
    ultimately show ?thesis by blast
  qed
  have tenant: "\<exists>rule e ev. matchTenantRule (m_config m) tid = Some rule \<and> makes_entry (tenant_key tid) e ev \<and>
      t = evaluateRule rule (daily e) (monthly e) \<and> (ev = ev\<^sub>0 \<or> ev \<in> set es \<and> fst tclk - fetched e < 30 * Second)"
    if res: "tenant_result l ?m1 tid tclk = Some t" for t
  proof -
    obtain e ev where "makes_entry (tenant_key tid) e ev" "fst (getTenantSpend l ?m1 tid tclk) = (daily e, monthly e)"
      "ev = ev\<^sub>0 \<or> ev \<in> set es \<and> fst tclk - fetched e < 30 * Second"
      using just[OF c1, of "tenant_key tid" "GetTotalSpendByTenant_i l" tid tclk
          "(''budget: querying tenant daily spend'', ''budget: querying tenant monthly spend'')"] cache(2)
      unfolding getTenantSpend_def assms(2) by auto
    moreover from this obtain rule where "matchTenantRule (m_config m) tid = Some rule" "t = evaluateRule rule (daily e) (monthly e)"
      using res by (auto simp: tenant_result_def split: if_splits option.splits)
    ultimately show ?thesis by blast
  qed
  have "res = no_result \<or> key_result l m rawKey h kclk = Some res \<or> tenant_result l ?m1 tid tclk = Some res"
    by (simp add: assms(3) Check_result split: option.split)
  then show ?thesis
  proof (elim disjE)
    assume "key_result l m rawKey h kclk = Some res"
    from key[OF this] show ?thesis by blast
  next
    assume "tenant_result l ?m1 tid tclk = Some res"
    from tenant[OF this] show ?thesis by blast
  qed simp
qed

definition flat_spend :: "float64 \<Rightarrow> spend_source" where
  "flat_spend x = \<lparr>GetTotalSpend_i = (\<lambda>_ _ _. (x, None)), GetTotalSpendByTenant_i = (\<lambda>_ _ _. (x, None))\<rparr>"

definition ten_dollars :: Config where
  "ten_dollars = \<lparr>Default = \<lparr>APIKeyPattern = '''', TenantID = '''', DailyLimitUSD = 10, MonthlyLimitUSD = 0,
      SoftLimitPct = 0, Action = ''block''\<rparr>, Rules = []\<rparr>"

lemma bm_run_config: "(\<And>rules. Updated rules \<notin> set es) \<Longrightarrow> m_config (bm_run m es) = m_config m"
proof (induction es rule: rev_induct)
  case (snoc ev es)
  then show ?case by (cases ev) (auto simp: Check_frame evictStaleCache_def)
qed (simp add: bm_run_def)


theorem budget_justified_witness:
  "let m = bm_run (NewManager ten_dollars) []; res = fst (Check (flat_spend 3) m ''k'' ''h'' '''' (5, 5, 5) (5, 5, 5))
   in \<exists>rule k (clk :: clocks) e ev.
       (rule = matchRule (m_config m) ''k'' \<and> k = ''h'' \<and> clk = (5, 5, 5) \<or>
        matchTenantRule (m_config m) '''' = Some rule \<and> k = tenant_key '''' \<and> clk = (5, 5, 5)) \<and>
       makes_entry k e ev \<and> res = evaluateRule rule (daily e) (monthly e) \<and>
       (ev = Checked (flat_spend 3) ''k'' ''h'' '''' (5, 5, 5) (5, 5, 5) \<or> ev \<in> set [] \<and> fst clk - fetched e < 30 * Second)"
proof -
  have "fst (Check (flat_spend 3) (bm_run (NewManager ten_dollars) []) ''k'' ''h'' '''' (5, 5, 5) (5, 5, 5)) \<noteq> no_result"
    by (simp add: bm_run_def NewManager_def ten_dollars_def Check_result key_result_def tenant_result_def limited_def
        matchRule_def getSpend_def cachedSpend_def flat_spend_def evaluateRule_def no_result_def Let_def exceeded_def)
  then show ?thesis
    unfolding Let_def
    using budget_justified[OF refl refl refl, where cfg = ten_dollars and es = "[]" and l = "flat_spend 3" and rawKey = "''k''"
        and h = "''h''" and tid = "''''" and kclk = "(5, 5, 5)" and tclk = "(5, 5, 5)", unfolded disj_imp[of "_ = no_result"]]
    by (rule rev_mp)
qed

text \<open>
  The stricter result wins: the decision of a check is the maximum of the key's and the
  tenant's decisions, a missing one counting as allow, and a block is signalled to the block
  callback, when it is set, exactly when the decision is block.
\<close>

theorem Check_stricter:
  "r_Decision (fst (Check l m rawKey h tid kclk tclk)) = max
      (case key_result l m rawKey h kclk of None \<Rightarrow> DAllow | Some k \<Rightarrow> r_Decision k)
      (case tenant_result l (after_key l m rawKey h kclk) tid tclk of None \<Rightarrow> DAllow | Some t \<Rightarrow> r_Decision t) \<and>
   ((\<exists>r. OnBlock h r \<in> set (fst (snd (Check l m rawKey h tid kclk tclk)))) \<longleftrightarrow>
     r_Decision (fst (Check l m rawKey h tid kclk tclk)) = DBlock \<and> m_onBlock m)"
  unfolding Check_OnBlock
  by (simp add: Check_result no_result_def max_def not_le split: option.split) (auto intro: order.antisym)

text \<open>
  New rules take effect at once: right after \<open>UpdateRules\<close> the key's result is the evaluation
  of the new rules on what the ledger reports now, whatever the cache held before.
\<close>

theorem UpdateRules_immediate:
  "key_result l (UpdateRules m rules) rawKey h kclk =
    (let rule = matchRule (m_config m\<lparr>Rules := rules\<rparr>) rawKey; e = entry_of (GetTotalSpend_i l) h kclk
     in if limited rule then Some (evaluateRule rule (daily e) (monthly e)) else None)"
  by (cases kclk)
     (simp add: key_result_def UpdateRules_def getSpend_def cachedSpend_def Let_def split: prod.split)

text \<open>
  A tenant's rule, which has no key pattern, is also the rule of every request without an API
  key if it comes first: the empty pattern matches the empty key. It matches no other key.
\<close>

theorem tenant_rule_matches_no_key:
  "APIKeyPattern r = '''' \<longrightarrow> matchRule \<lparr>Default = dflt, Rules = r # rs\<rparr> rawKey =
    (if rawKey = '''' then mergeWithDefault \<lparr>Default = dflt, Rules = r # rs\<rparr> r
     else firstMatch \<lparr>Default = dflt, Rules = r # rs\<rparr> rawKey rs)"
  by (simp add: matchRule_def Matched_Nil)

theorem tenant_rule_matches_no_key_witness:
  "let r = \<lparr>APIKeyPattern = '''', TenantID = ''acme'', DailyLimitUSD = 5, MonthlyLimitUSD = 0, SoftLimitPct = 0, Action = ''block''\<rparr>
   in DailyLimitUSD (matchRule \<lparr>Default = Default ten_dollars, Rules = [r]\<rparr> '''') = 5"
  using tenant_rule_matches_no_key[of "\<lparr>APIKeyPattern = '''', TenantID = ''acme'', DailyLimitUSD = 5, MonthlyLimitUSD = 0, SoftLimitPct = 0, Action = ''block''\<rparr>"
      "Default ten_dollars" "[]" "''''"]
  by (simp add: mergeWithDefault_def Let_def)

end
