(* ===== verification/Ledger.thy ===== *)
theory Ledger
  imports Agent Budget
begin

text \<open>
  The ledger (\<open>internal/ledger\<close>): the records it keeps and the queries of its SQLite and
  Postgres implementations, on the tables as lists of rows.

  The database engine is code the program only calls. What its statements compute beyond
  selecting and grouping rows is a parameter, the record \<open>sql_engine\<close>: sums and averages of
  floating-point columns, the row a bare column of a group is taken from, Postgres percentiles.
  A driver error of a statement is a parameter too: \<open>fault\<close> is \<open>None\<close> when the statement runs.
  Timestamps are compared as instants.
\<close>

section \<open>Records\<close>

record UsageRecord =
  u_ID :: string
  u_Timestamp :: time
  u_Provider :: string
  u_Model :: string
  u_APIKeyHash :: string
  u_InputTokens :: int
  u_OutputTokens :: int
  u_TotalTokens :: int
  u_CostUSD :: float64
  u_Estimated :: bool
  u_DurationMS :: int
  u_StatusCode :: int
  u_Path :: string
  u_AgentID :: string
  u_SessionID :: string
  u_UserID :: string
  u_TenantID :: string

record CostFilter =
  cf_Since :: time
  cf_Until :: time
  cf_GroupBy :: string
  cf_TenantID :: string

record TimeseriesPoint =
  tp_Timestamp :: time
  tp_CostUSD :: float64
  tp_Requests :: int

record CostEntry =
  ce_Provider :: string
  ce_Model :: string
  ce_APIKeyHash :: string
  ce_AgentID :: string
  ce_SessionID :: string
  ce_Requests :: int
  ce_InputTokens :: int
  ce_OutputTokens :: int
  ce_TotalCostUSD :: float64

record ExpensiveRequest =
  er_Timestamp :: time
  er_Provider :: string
  er_Model :: string
  er_AgentID :: string
  er_InputTokens :: int
  er_OutputTokens :: int
  er_CostUSD :: float64
  er_DurationMS :: int

record ErrorStats =
  es_TotalRequests :: int
  es_ErrorRequests :: int
  es_ErrorRate :: float64
  es_Count429 :: int
  es_Count5xx :: int
  es_AvgDurationMS :: float64
  es_AvgCostPerReq :: float64

record LatencyStats =
  ls_P50 :: float64
  ls_P90 :: float64
  ls_P99 :: float64
  ls_Buckets :: "(string \<times> int) list"

record TokenTimeseriesPoint =
  tt_Timestamp :: time
  tt_InputTokens :: int
  tt_OutputTokens :: int

section \<open>Tables and engine\<close>

record database =
  usage_records :: "UsageRecord list"
  agent_sessions :: "Session list"

record sql_engine =
  sql_SUM :: "float64 list \<Rightarrow> float64"
  sql_AVG :: "float64 list \<Rightarrow> float64"
  sql_pick :: "UsageRecord list \<Rightarrow> UsageRecord"
  sql_PERCENTILE_CONT :: "rat \<Rightarrow> float64 list \<Rightarrow> float64"

type_synonym fault = "string option"

text \<open>\<open>fmt.Errorf("...: %w", err)\<close>\<close>

definition wrap :: "string \<Rightarrow> string \<Rightarrow> string" where
  "wrap msg err = msg @ '': '' @ err"

definition run_sql :: "fault \<Rightarrow> string \<Rightarrow> 'a \<Rightarrow> string + 'a" where
  "run_sql fault msg x = (case fault of Some err \<Rightarrow> Inl (wrap msg err) | None \<Rightarrow> Inr x)"

text \<open>\<open>COALESCE(SUM(c), 0)\<close> of a floating-point column, and of an integer column.\<close>

definition sum_cost :: "sql_engine \<Rightarrow> float64 list \<Rightarrow> float64" where
  "sum_cost eng xs = (if xs = [] then 0 else sql_SUM eng xs)"

definition avg_float :: "sql_engine \<Rightarrow> float64 list \<Rightarrow> float64" where
  "avg_float eng xs = (if xs = [] then 0 else sql_AVG eng xs)"

text \<open>The common condition of the usage queries.\<close>

definition in_span :: "time \<Rightarrow> time \<Rightarrow> UsageRecord \<Rightarrow> bool" where
  "in_span since until r \<longleftrightarrow> since \<le> u_Timestamp r \<and> u_Timestamp r \<le> until"

definition usage_where :: "database \<Rightarrow> time \<Rightarrow> time \<Rightarrow> string \<Rightarrow> UsageRecord list" where
  "usage_where db since until tenantID =
    filter (\<lambda>r. in_span since until r \<and> (tenantID \<noteq> '''' \<longrightarrow> u_TenantID r = tenantID)) (usage_records db)"

text \<open>\<open>GROUP BY\<close>: the groups in the order of their first rows.\<close>

definition group_by :: "('r \<Rightarrow> 'k) \<Rightarrow> 'r list \<Rightarrow> ('k \<times> 'r list) list" where
  "group_by f rows = map (\<lambda>k. (k, filter (\<lambda>r. f r = k) rows)) (remdups (map f rows))"

definition sort_desc :: "('a \<Rightarrow> 'k :: linorder) \<Rightarrow> 'a list \<Rightarrow> 'a list" where
  "sort_desc f xs = rev (sort_key f (rev xs))"

section \<open>SQLite\<close>

definition sqlite_RecordUsage :: "database \<Rightarrow> fault \<Rightarrow> UsageRecord \<Rightarrow> string option \<times> database" where
  "sqlite_RecordUsage db fault record =
    (case fault of
       Some err \<Rightarrow> (Some (wrap ''inserting usage record'' err), db)
     | None \<Rightarrow>
         if u_ID record \<in> u_ID ` set (usage_records db)
         then (Some (wrap ''inserting usage record'' ''UNIQUE constraint failed: usage_records.id''), db)
         else (None, db\<lparr>usage_records := usage_records db @ [record]\<rparr>))"

definition group_column :: "string \<Rightarrow> UsageRecord \<Rightarrow> string" where
  "group_column groupBy =
    (if groupBy = ''provider'' then u_Provider
     else if groupBy = ''key'' then u_APIKeyHash
     else if groupBy = ''agent'' then u_AgentID
     else if groupBy = ''session'' then u_SessionID
     else u_Model)"

definition cost_entry :: "sql_engine \<Rightarrow> UsageRecord list \<Rightarrow> CostEntry" where
  "cost_entry eng rows =
    (let r = sql_pick eng rows in
     \<lparr>ce_Provider = u_Provider r, ce_Model = u_Model r, ce_APIKeyHash = u_APIKeyHash r,
      ce_AgentID = u_AgentID r, ce_SessionID = u_SessionID r,
      ce_Requests = int (length rows),
      ce_InputTokens = sum_list (map u_InputTokens rows),
      ce_OutputTokens = sum_list (map u_OutputTokens rows),
      ce_TotalCostUSD = sum_cost eng (map u_CostUSD rows)\<rparr>)"

definition sqlite_QueryCosts :: "sql_engine \<Rightarrow> database \<Rightarrow> fault \<Rightarrow> CostFilter \<Rightarrow> string + CostEntry list" where
  "sqlite_QueryCosts eng db fault flt =
    run_sql fault ''querying costs''
      (sort_desc ce_TotalCostUSD
        (map (\<lambda>(_, rows). cost_entry eng rows)
          (group_by (group_column (cf_GroupBy flt))
            (usage_where db (cf_Since flt) (cf_Until flt) (cf_TenantID flt)))))"

text \<open>The bucket of a timestamp: the start of its minute, hour or day.\<close>

definition bucket_unit :: "string \<Rightarrow> duration" where
  "bucket_unit interval = (if interval = ''minute'' then Minute else if interval = ''day'' then Day else Hour)"

definition bucket :: "string \<Rightarrow> time \<Rightarrow> time" where
  "bucket interval t = t - t mod bucket_unit interval"

definition sqlite_QueryCostTimeseries ::
  "sql_engine \<Rightarrow> database \<Rightarrow> fault \<Rightarrow> string \<Rightarrow> time \<Rightarrow> time \<Rightarrow> string \<Rightarrow> string + TimeseriesPoint list" where
  "sqlite_QueryCostTimeseries eng db fault interval since until tenantID =
    run_sql fault ''querying cost timeseries''
      (map (\<lambda>(b, rows). \<lparr>tp_Timestamp = b, tp_CostUSD = sum_cost eng (map u_CostUSD rows), tp_Requests = int (length rows)\<rparr>)
        (sort_key fst (group_by (\<lambda>r. bucket interval (u_Timestamp r)) (usage_where db since until tenantID))))"

definition sqlite_GetTotalSpend ::
  "sql_engine \<Rightarrow> database \<Rightarrow> fault \<Rightarrow> string \<Rightarrow> time \<Rightarrow> time \<Rightarrow> float64 \<times> string option" where
  "sqlite_GetTotalSpend eng db fault apiKeyHash since until =
    (case fault of
       Some err \<Rightarrow> (0, Some (wrap ''querying total spend'' err))
     | None \<Rightarrow> (sum_cost eng (map u_CostUSD
         (filter (\<lambda>r. u_APIKeyHash r = apiKeyHash \<and> in_span since until r) (usage_records db))), None))"

definition sqlite_GetTotalSpendByTenant ::
  "sql_engine \<Rightarrow> database \<Rightarrow> fault \<Rightarrow> string \<Rightarrow> time \<Rightarrow> time \<Rightarrow> float64 \<times> string option" where
  "sqlite_GetTotalSpendByTenant eng db fault tenantID since until =
    (case fault of
       Some err \<Rightarrow> (0, Some (wrap ''querying tenant spend'' err))
     | None \<Rightarrow> (sum_cost eng (map u_CostUSD
         (filter (\<lambda>r. u_TenantID r = tenantID \<and> in_span since until r) (usage_records db))), None))"

definition expensive_request :: "UsageRecord \<Rightarrow> ExpensiveRequest" where
  "expensive_request r =
    \<lparr>er_Timestamp = u_Timestamp r, er_Provider = u_Provider r, er_Model = u_Model r, er_AgentID = u_AgentID r,
     er_InputTokens = u_InputTokens r, er_OutputTokens = u_OutputTokens r, er_CostUSD = u_CostUSD r,
     er_DurationMS = u_DurationMS r\<rparr>"

definition sqlite_QueryRecentExpensive ::
  "database \<Rightarrow> fault \<Rightarrow> time \<Rightarrow> time \<Rightarrow> string \<Rightarrow> nat \<Rightarrow> string + ExpensiveRequest list" where
  "sqlite_QueryRecentExpensive db fault since until tenantID limit =
    run_sql fault ''querying expensive requests''
      (map expensive_request (take limit (sort_desc u_CostUSD (usage_where db since until tenantID))))"

text \<open>
  \<open>SUM\<close> over no rows is \<open>NULL\<close>, which does not scan into an \<open>int\<close>; the averages are coalesced.
\<close>

definition sqlite_QueryErrorStats :: "sql_engine \<Rightarrow> database \<Rightarrow> fault \<Rightarrow> time \<Rightarrow> time \<Rightarrow> string \<Rightarrow> string + ErrorStats" where
  "sqlite_QueryErrorStats eng db fault since until tenantID =
    (let rows = usage_where db since until tenantID;
         n = (\<lambda>P. int (length (filter P rows)))
     in case fault of
       Some err \<Rightarrow> Inl (wrap ''querying error stats'' err)
     | None \<Rightarrow>
         if rows = [] then Inl (wrap ''querying error stats'' ''converting NULL to int is unsupported'')
         else Inr \<lparr>es_TotalRequests = int (length rows),
                   es_ErrorRequests = n (\<lambda>r. u_StatusCode r \<ge> 400),
                   es_ErrorRate = (if int (length rows) > 0
                     then fdiv (float_of_int (n (\<lambda>r. u_StatusCode r \<ge> 400))) (float_of_int (int (length rows))) else 0),
                   es_Count429 = n (\<lambda>r. u_StatusCode r = 429),
                   es_Count5xx = n (\<lambda>r. u_StatusCode r \<ge> 500),
                   es_AvgDurationMS = avg_float eng (map (\<lambda>r. float_of_int (u_DurationMS r)) rows),
                   es_AvgCostPerReq = avg_float eng (map u_CostUSD rows)\<rparr>)"

text \<open>\<open>INSERT ... ON CONFLICT(id) DO UPDATE\<close>: a known session keeps its agent, user, task and start.\<close>

definition upsert_row :: "Session list \<Rightarrow> Session \<Rightarrow> Session list" where
  "upsert_row rows s =
    (if s_ID s \<in> s_ID ` set rows
     then map (\<lambda>r. if s_ID r = s_ID s
                   then r\<lparr>s_EndedAt := s_EndedAt s, s_Status := s_Status s, s_CallCount := s_CallCount s,
                          s_TotalCostUSD := s_TotalCostUSD s, s_TotalTokens := s_TotalTokens s\<rparr>
                   else r) rows
     else rows @ [s])"

definition sqlite_UpsertSession :: "(Session \<Rightarrow> fault) \<Rightarrow> database \<Rightarrow> Session \<Rightarrow> string option \<times> database" where
  "sqlite_UpsertSession faults db s =
    (case faults s of
       Some err \<Rightarrow> (Some (wrap ''upserting session'' err), db)
     | None \<Rightarrow> (None, db\<lparr>agent_sessions := upsert_row (agent_sessions db) s\<rparr>))"

definition find_session :: "database \<Rightarrow> string \<Rightarrow> Session option" where
  "find_session db i = find (\<lambda>r. s_ID r = i) (agent_sessions db)"

definition sqlite_GetSession :: "database \<Rightarrow> fault \<Rightarrow> string \<Rightarrow> string + Session" where
  "sqlite_GetSession db fault i =
    (case fault of
       Some err \<Rightarrow> Inl (wrap ''getting session'' err)
     | None \<Rightarrow> (case find_session db i of
           None \<Rightarrow> Inl (wrap ''getting session'' ''sql: no rows in result set'')
         | Some s \<Rightarrow> Inr s))"

definition sqlite_ListActiveSessions :: "database \<Rightarrow> fault \<Rightarrow> string + Session list" where
  "sqlite_ListActiveSessions db fault =
    run_sql fault ''listing active sessions'' (filter (\<lambda>s. s_Status s = ''active'') (agent_sessions db))"

definition sqlite_QueryRecentSessions ::
  "database \<Rightarrow> fault \<Rightarrow> time \<Rightarrow> time \<Rightarrow> string \<Rightarrow> nat \<Rightarrow> string + Session list" where
  "sqlite_QueryRecentSessions db fault since until status limit =
    run_sql fault ''querying recent sessions''
      (take limit (sort_desc s_StartedAt
        (filter (\<lambda>s. since \<le> s_StartedAt s \<and> s_StartedAt s \<le> until \<and> (status \<noteq> '''' \<longrightarrow> s_Status s = status))
          (agent_sessions db))))"

text \<open>\<open>percentile\<close> of a sorted slice.\<close>

definition percentile :: "float64 list \<Rightarrow> float64 \<Rightarrow> float64" where
  "percentile xs p =
    (let n = int (length xs) in
     if n = 0 then 0
     else
       let idx = fmul p (float_of_int (n - 1));
           lower = (if idx \<ge> 0 then \<lfloor>idx\<rfloor> else \<lceil>idx\<rceil>);
           upper = lower + 1
       in if upper \<ge> n then xs ! nat (n - 1)
          else
            let frac = fsub idx (float_of_int lower)
            in fadd (fmul (xs ! nat lower) (fsub 1 frac)) (fmul (xs ! nat upper) frac))"

definition latency_label :: "int \<Rightarrow> string" where
  "latency_label d =
    (if d < 100 then ''<100ms'' else if d < 500 then ''100-500ms'' else if d < 1000 then ''500ms-1s''
     else if d < 3000 then ''1-3s'' else if d < 10000 then ''3-10s'' else ''>10s'')"

definition latency_buckets :: "UsageRecord list \<Rightarrow> (string \<times> int) list" where
  "latency_buckets rows =
    map (\<lambda>(b, rs). (b, int (length rs)))
      (sort_key (\<lambda>(b, rs). Min (u_DurationMS ` set rs)) (group_by (\<lambda>r. latency_label (u_DurationMS r)) rows))"

definition latency_sample :: "UsageRecord list \<Rightarrow> int list" where
  "latency_sample rows = take 10000 (sort (filter (\<lambda>d. d > 0) (map u_DurationMS rows)))"

text \<open>
  The four places it can fail are the two statements and the iteration over their rows. The result
  is a pointer: after an error of the second iteration it is \<open>nil\<close>, with no error.
\<close>

definition percentiles_of :: "UsageRecord list \<Rightarrow> LatencyStats" where
  "percentiles_of rows =
    (let durations = map float_of_int (latency_sample rows);
         stats = \<lparr>ls_P50 = 0, ls_P90 = 0, ls_P99 = 0, ls_Buckets = latency_buckets rows\<rparr>
     in if durations \<noteq> []
        then stats\<lparr>ls_P50 := percentile durations (fl (50 / 100)), ls_P90 := percentile durations (fl (90 / 100)),
                   ls_P99 := percentile durations (fl (99 / 100))\<rparr>
        else stats)"

definition sqlite_QueryLatencyPercentiles ::
  "database \<Rightarrow> fault \<times> fault \<Rightarrow> fault \<times> fault \<Rightarrow> time \<Rightarrow> time \<Rightarrow> string \<Rightarrow> string + LatencyStats option" where
  "sqlite_QueryLatencyPercentiles db bucketFault percFault since until tenantID =
    (case bucketFault of
       (Some err, _) \<Rightarrow> Inl (wrap ''querying latency buckets'' err)
     | (None, Some rowsErr) \<Rightarrow> Inl rowsErr
     | (None, None) \<Rightarrow>
        (case percFault of
           (Some err, _) \<Rightarrow> Inl (wrap ''querying latency percentiles'' err)
         | (None, Some rowsErr) \<Rightarrow> Inr None
         | (None, None) \<Rightarrow> Inr (Some (percentiles_of (usage_where db since until tenantID)))))"

definition sqlite_QueryTokenTimeseries ::
  "database \<Rightarrow> fault \<Rightarrow> string \<Rightarrow> time \<Rightarrow> time \<Rightarrow> string \<Rightarrow> string + TokenTimeseriesPoint list" where
  "sqlite_QueryTokenTimeseries db fault interval since until tenantID =
    run_sql fault ''querying token timeseries''
      (map (\<lambda>(b, rows). \<lparr>tt_Timestamp = b, tt_InputTokens = sum_list (map u_InputTokens rows),
                         tt_OutputTokens = sum_list (map u_OutputTokens rows)\<rparr>)
        (sort_key fst (group_by (\<lambda>r. bucket interval (u_Timestamp r)) (usage_where db since until tenantID))))"

section \<open>Postgres\<close>

text \<open>
  The same statements with numbered placeholders, and these differences: time buckets by
  \<open>date_trunc\<close>, percentiles by \<open>PERCENTILE_CONT\<close>, and \<open>QueryCosts\<close>, whose statement selects
  columns that are neither grouped nor aggregated, which Postgres rejects.
\<close>

definition pg_RecordUsage :: "database \<Rightarrow> fault \<Rightarrow> UsageRecord \<Rightarrow> string option \<times> database" where
  "pg_RecordUsage db fault record =
    (case fault of
       Some err \<Rightarrow> (Some (wrap ''inserting usage record'' err), db)
     | None \<Rightarrow>
         if u_ID record \<in> u_ID ` set (usage_records db)
         then (Some (wrap ''inserting usage record'' ''duplicate key value violates unique constraint''), db)
         else (None, db\<lparr>usage_records := usage_records db @ [record]\<rparr>))"

text \<open>The columns of the select list outside aggregates, and the one of \<open>GROUP BY\<close>.\<close>

definition bare_columns :: "string list" where
  "bare_columns = [''provider'', ''model'', ''api_key_hash'', ''agent_id'', ''session_id'']"

definition group_column_name :: "string \<Rightarrow> string" where
  "group_column_name groupBy =
    (if groupBy = ''provider'' then ''provider'' else if groupBy = ''key'' then ''api_key_hash''
     else if groupBy = ''agent'' then ''agent_id'' else if groupBy = ''session'' then ''session_id'' else ''model'')"

definition pg_QueryCosts :: "sql_engine \<Rightarrow> database \<Rightarrow> fault \<Rightarrow> CostFilter \<Rightarrow> string + CostEntry list" where
  "pg_QueryCosts eng db fault flt =
    (case fault of
       Some err \<Rightarrow> Inl (wrap ''querying costs'' err)
     | None \<Rightarrow>
        (case filter (\<lambda>c. c \<noteq> group_column_name (cf_GroupBy flt)) bare_columns of
           c # _ \<Rightarrow> Inl (wrap ''querying costs''
             (''column usage_records.'' @ c @ '' must appear in the GROUP BY clause or be used in an aggregate function''))
         | [] \<Rightarrow> sqlite_QueryCosts eng db None flt))"

definition pg_QueryCostTimeseries ::
  "sql_engine \<Rightarrow> database \<Rightarrow> fault \<Rightarrow> string \<Rightarrow> time \<Rightarrow> time \<Rightarrow> string \<Rightarrow> string + TimeseriesPoint list" where
  "pg_QueryCostTimeseries eng db fault interval since until tenantID =
    run_sql fault ''querying cost timeseries''
      (map (\<lambda>(b, rows). \<lparr>tp_Timestamp = b, tp_CostUSD = sum_cost eng (map u_CostUSD rows), tp_Requests = int (length rows)\<rparr>)
        (sort_key fst (group_by (\<lambda>r. bucket interval (u_Timestamp r)) (usage_where db since until tenantID))))"

definition pg_GetTotalSpend ::
  "sql_engine \<Rightarrow> database \<Rightarrow> fault \<Rightarrow> string \<Rightarrow> time \<Rightarrow> time \<Rightarrow> float64 \<times> string option" where
  "pg_GetTotalSpend eng db fault apiKeyHash since until =
    (case fault of
       Some err \<Rightarrow> (0, Some (wrap ''querying total spend'' err))
     | None \<Rightarrow> (sum_cost eng (map u_CostUSD
         (filter (\<lambda>r. u_APIKeyHash r = apiKeyHash \<and> in_span since until r) (usage_records db))), None))"

definition pg_GetTotalSpendByTenant ::
  "sql_engine \<Rightarrow> database \<Rightarrow> fault \<Rightarrow> string \<Rightarrow> time \<Rightarrow> time \<Rightarrow> float64 \<times> string option" where
  "pg_GetTotalSpendByTenant eng db fault tenantID since until =
    (case fault of
       Some err \<Rightarrow> (0, Some (wrap ''querying tenant spend'' err))
     | None \<Rightarrow> (sum_cost eng (map u_CostUSD
         (filter (\<lambda>r. u_TenantID r = tenantID \<and> in_span since until r) (usage_records db))), None))"

definition pg_QueryRecentExpensive ::
  "database \<Rightarrow> fault \<Rightarrow> time \<Rightarrow> time \<Rightarrow> string \<Rightarrow> nat \<Rightarrow> string + ExpensiveRequest list" where
  "pg_QueryRecentExpensive db fault since until tenantID limit =
    run_sql fault ''querying expensive requests''
      (map expensive_request (take limit (sort_desc u_CostUSD (usage_where db since until tenantID))))"

definition pg_QueryErrorStats :: "sql_engine \<Rightarrow> database \<Rightarrow> fault \<Rightarrow> time \<Rightarrow> time \<Rightarrow> string \<Rightarrow> string + ErrorStats" where
  "pg_QueryErrorStats eng db fault since until tenantID =
    (let rows = usage_where db since until tenantID;
         n = (\<lambda>P. int (length (filter P rows)))
     in case fault of
       Some err \<Rightarrow> Inl (wrap ''querying error stats'' err)
     | None \<Rightarrow>
         if rows = [] then Inl (wrap ''querying error stats'' ''converting NULL to int is unsupported'')
         else Inr \<lparr>es_TotalRequests = int (length rows),
                   es_ErrorRequests = n (\<lambda>r. u_StatusCode r \<ge> 400),
                   es_ErrorRate = (if int (length rows) > 0
                     then fdiv (float_of_int (n (\<lambda>r. u_StatusCode r \<ge> 400))) (float_of_int (int (length rows))) else 0),
                   es_Count429 = n (\<lambda>r. u_StatusCode r = 429),
                   es_Count5xx = n (\<lambda>r. u_StatusCode r \<ge> 500),
                   es_AvgDurationMS = avg_float eng (map (\<lambda>r. float_of_int (u_DurationMS r)) rows),
                   es_AvgCostPerReq = avg_float eng (map u_CostUSD rows)\<rparr>)"

definition pg_UpsertSession :: "(Session \<Rightarrow> fault) \<Rightarrow> database \<Rightarrow> Session \<Rightarrow> string option \<times> database" where
  "pg_UpsertSession faults db s =
    (case faults s of
       Some err \<Rightarrow> (Some (wrap ''upserting session'' err), db)
     | None \<Rightarrow> (None, db\<lparr>agent_sessions := upsert_row (agent_sessions db) s\<rparr>))"

definition pg_GetSession :: "database \<Rightarrow> fault \<Rightarrow> string \<Rightarrow> string + Session" where
  "pg_GetSession db fault i =
    (case fault of
       Some err \<Rightarrow> Inl (wrap ''getting session'' err)
     | None \<Rightarrow> (case find_session db i of
           None \<Rightarrow> Inl (wrap ''getting session'' ''sql: no rows in result set'')
         | Some s \<Rightarrow> Inr s))"

definition pg_ListActiveSessions :: "database \<Rightarrow> fault \<Rightarrow> string + Session list" where
  "pg_ListActiveSessions db fault =
    run_sql fault ''listing active sessions'' (filter (\<lambda>s. s_Status s = ''active'') (agent_sessions db))"

definition pg_QueryRecentSessions ::
  "database \<Rightarrow> fault \<Rightarrow> time \<Rightarrow> time \<Rightarrow> string \<Rightarrow> nat \<Rightarrow> string + Session list" where
  "pg_QueryRecentSessions db fault since until status limit =
    run_sql fault ''querying recent sessions''
      (take limit (sort_desc s_StartedAt
        (filter (\<lambda>s. since \<le> s_StartedAt s \<and> s_StartedAt s \<le> until \<and> (status \<noteq> '''' \<longrightarrow> s_Status s = status))
          (agent_sessions db))))"

definition pg_QueryLatencyPercentiles ::
  "sql_engine \<Rightarrow> database \<Rightarrow> fault \<times> fault \<Rightarrow> fault \<Rightarrow> time \<Rightarrow> time \<Rightarrow> string \<Rightarrow> string + LatencyStats" where
  "pg_QueryLatencyPercentiles eng db bucketFault percFault since until tenantID =
    (let rows = usage_where db since until tenantID;
         ds = map float_of_int (filter (\<lambda>d. d > 0) (map u_DurationMS rows));
         perc = (\<lambda>p. if ds = [] then 0 else sql_PERCENTILE_CONT eng p ds)
     in case bucketFault of
       (Some err, _) \<Rightarrow> Inl (wrap ''querying latency buckets'' err)
     | (None, Some rowsErr) \<Rightarrow> Inl rowsErr
     | (None, None) \<Rightarrow>
        (case percFault of
           Some err \<Rightarrow> Inl (wrap ''querying latency percentiles'' err)
         | None \<Rightarrow> Inr \<lparr>ls_P50 = perc (5 / 10), ls_P90 = perc (9 / 10), ls_P99 = perc (99 / 100),
                        ls_Buckets = latency_buckets rows\<rparr>))"

definition pg_QueryTokenTimeseries ::
  "database \<Rightarrow> fault \<Rightarrow> string \<Rightarrow> time \<Rightarrow> time \<Rightarrow> string \<Rightarrow> string + TokenTimeseriesPoint list" where
  "pg_QueryTokenTimeseries db fault interval since until tenantID =
    run_sql fault ''querying token timeseries''
      (map (\<lambda>(b, rows). \<lparr>tt_Timestamp = b, tt_InputTokens = sum_list (map u_InputTokens rows),
                         tt_OutputTokens = sum_list (map u_OutputTokens rows)\<rparr>)
        (sort_key fst (group_by (\<lambda>r. bucket interval (u_Timestamp r)) (usage_where db since until tenantID))))"

section \<open>Grouping\<close>

lemma group_by_sum:
  fixes g :: "'r \<Rightarrow> 'n :: comm_monoid_add"
  shows "sum_list (map (\<lambda>(k, rs). sum_list (map g rs)) (group_by f rows)) = sum_list (map g rows)"
proof -
  have split: "sum_list (map (\<lambda>k. sum_list (map g (filter (\<lambda>r. f r = k) rs))) ks) = sum_list (map g rs)"
    if "distinct ks" "f ` set rs \<subseteq> set ks" for ks rs
    using that
  proof (induction rs)
    case (Cons r rs)
    have "sum_list (map (\<lambda>k. sum_list (map g (filter (\<lambda>x. f x = k) (r # rs)))) ks) =
        sum_list (map (\<lambda>k. (if k = f r then g r else 0) + sum_list (map g (filter (\<lambda>x. f x = k) rs))) ks)"
      by (intro arg_cong[where f = sum_list] map_cong) auto
    also have "\<dots> = sum_list (map (\<lambda>k. if k = f r then g r else 0) ks) + sum_list (map g rs)"
      using Cons by (simp add: sum_list_addf)
    also have "sum_list (map (\<lambda>k. if k = f r then g r else 0) ks) = g r"
      using Cons.prems by (simp add: sum_list_distinct_conv_sum_set)
    finally show ?case by simp
  qed simp
  have "sum_list (map (\<lambda>(k, rs). sum_list (map g rs)) (group_by f rows)) =
      sum_list (map (\<lambda>k. sum_list (map g (filter (\<lambda>r. f r = k) rows))) (remdups (map f rows)))"
    by (simp add: group_by_def comp_def)
  then show ?thesis using split[of "remdups (map f rows)" rows] by simp
qed

lemma group_by_length: "sum_list (map (\<lambda>(k, rs). int (length rs)) (group_by f rows)) = int (length rows)"
  using group_by_sum[of "\<lambda>_. 1 :: int" f rows] by (simp add: sum_list_triv case_prod_unfold)

lemma sum_list_sort_key [simp]:
  fixes g :: "'a \<Rightarrow> 'n :: comm_monoid_add"
  shows "sum_list (map g (sort_key f xs)) = sum_list (map g xs)"
  by (metis mset_map mset_sort sum_mset_sum_list)

lemma mset_sort_desc [simp]: "mset (sort_desc f xs) = mset xs"
  by (simp add: sort_desc_def)

lemma sum_list_sort_desc [simp]:
  fixes g :: "'a \<Rightarrow> 'n :: comm_monoid_add"
  shows "sum_list (map g (sort_desc f xs)) = sum_list (map g xs)"
  by (metis mset_map mset_sort_desc sum_mset_sum_list)

lemma sort_desc_sorted: "sorted_wrt (\<lambda>x y. f x \<ge> f y) (sort_desc f xs)"
proof -
  have "sorted (map f (sort_key f (rev xs)))" by simp
  then have "sorted_wrt (\<lambda>x y. f x \<le> f y) (sort_key f (rev xs))" by (simp add: sorted_map)
  then show ?thesis unfolding sort_desc_def by (simp add: sorted_wrt_rev)
qed

lemma group_by_keys: "map fst (group_by f rows) = remdups (map f rows)"
  by (simp add: group_by_def comp_def)

section \<open>Interfaces\<close>

text \<open>
  A ledger of usage: a record changes only the spends of its own key, and only over spans that
  contain it; and a record that fails changes nothing.
\<close>

locale usage_ledger =
  fixes recd :: "database \<Rightarrow> UsageRecord \<Rightarrow> string option \<times> database"
    and spend :: "database \<Rightarrow> spend_query"
    and key :: "UsageRecord \<Rightarrow> string"
  assumes unaffected: "recd db r = (err, db') \<Longrightarrow> key r \<noteq> k \<or> \<not> in_span since until r \<Longrightarrow>
      spend db' k since until = spend db k since until"
begin

fun recd_all :: "database \<Rightarrow> UsageRecord list \<Rightarrow> database" where
  "recd_all db [] = db"
| "recd_all db (r # rs) = recd_all (snd (recd db r)) rs"

lemma recd_all_unaffected:
  "\<forall>r \<in> set rs. key r \<noteq> k \<or> \<not> in_span since until r \<Longrightarrow>
    spend (recd_all db rs) k since until = spend db k since until"
proof (induction rs arbitrary: db)
  case (Cons r rs)
  have "spend (snd (recd db r)) k since until = spend db k since until"
    using Cons.prems by (intro unaffected[OF surjective_pairing]) simp
  then show ?case using Cons by simp
qed simp

end

interpretation sqlite_key: usage_ledger "\<lambda>db r. sqlite_RecordUsage db (faults r) r"
    "\<lambda>db. sqlite_GetTotalSpend eng db fault" u_APIKeyHash for faults eng fault
  by unfold_locales
     (auto simp: sqlite_RecordUsage_def sqlite_GetTotalSpend_def split: option.splits if_splits)

interpretation sqlite_tenant: usage_ledger "\<lambda>db r. sqlite_RecordUsage db (faults r) r"
    "\<lambda>db. sqlite_GetTotalSpendByTenant eng db fault" u_TenantID for faults eng fault
  by unfold_locales
     (auto simp: sqlite_RecordUsage_def sqlite_GetTotalSpendByTenant_def split: option.splits if_splits)

interpretation pg_key: usage_ledger "\<lambda>db r. pg_RecordUsage db (faults r) r"
    "\<lambda>db. pg_GetTotalSpend eng db fault" u_APIKeyHash for faults eng fault
  by unfold_locales
     (auto simp: pg_RecordUsage_def pg_GetTotalSpend_def split: option.splits if_splits)

interpretation pg_tenant: usage_ledger "\<lambda>db r. pg_RecordUsage db (faults r) r"
    "\<lambda>db. pg_GetTotalSpendByTenant eng db fault" u_TenantID for faults eng fault
  by unfold_locales
     (auto simp: pg_RecordUsage_def pg_GetTotalSpendByTenant_def split: option.splits if_splits)

interpretation sqlite_spend: spend_ledger "sqlite_GetTotalSpend eng db fault" for eng db fault
  by unfold_locales (auto simp: sqlite_GetTotalSpend_def split: option.splits)

interpretation pg_spend: spend_ledger "pg_GetTotalSpend eng db fault" for eng db fault
  by unfold_locales (auto simp: pg_GetTotalSpend_def split: option.splits)

lemma find_upsert_same: "\<exists>r. find (\<lambda>r. s_ID r = s_ID s) (upsert_row rows s) = Some r \<and> progress r = progress s"
proof -
  let ?f = "\<lambda>r. if s_ID r = s_ID s then r\<lparr>s_EndedAt := s_EndedAt s, s_Status := s_Status s, s_CallCount := s_CallCount s,
      s_TotalCostUSD := s_TotalCostUSD s, s_TotalTokens := s_TotalTokens s\<rparr> else r"
  have "s_ID s \<in> s_ID ` set rows \<Longrightarrow> \<exists>r. find (\<lambda>r. s_ID r = s_ID s) (map ?f rows) = Some r \<and> progress r = progress s"
    by (induction rows) (auto simp: progress_def)
  moreover have "s_ID s \<notin> s_ID ` set rows \<Longrightarrow> find (\<lambda>r. s_ID r = s_ID s) (rows @ [s]) = Some s"
    by (induction rows) auto
  ultimately show ?thesis by (auto simp: upsert_row_def)
qed

lemma find_upsert_other: "i \<noteq> s_ID s \<Longrightarrow> find (\<lambda>r. s_ID r = i) (upsert_row rows s) = find (\<lambda>r. s_ID r = i) rows"
proof -
  let ?f = "\<lambda>r. if s_ID r = s_ID s then r\<lparr>s_EndedAt := s_EndedAt s, s_Status := s_Status s, s_CallCount := s_CallCount s,
      s_TotalCostUSD := s_TotalCostUSD s, s_TotalTokens := s_TotalTokens s\<rparr> else r"
  assume i: "i \<noteq> s_ID s"
  have "find (\<lambda>r. s_ID r = i) (map ?f rows) = find (\<lambda>r. s_ID r = i) rows" using i by (induction rows) auto
  moreover have "find (\<lambda>r. s_ID r = i) (rows @ [s]) = find (\<lambda>r. s_ID r = i) rows" using i by (induction rows) auto
  ultimately show ?thesis by (simp add: upsert_row_def)
qed

interpretation sqlite_sessions: session_store "sqlite_UpsertSession faults" find_session for faults
  by unfold_locales
     (auto simp: sqlite_UpsertSession_def find_session_def find_upsert_same find_upsert_other split: option.splits)

interpretation pg_sessions: session_store "pg_UpsertSession faults" find_session for faults
  by unfold_locales
     (auto simp: pg_UpsertSession_def find_session_def find_upsert_same find_upsert_other split: option.splits)

section \<open>Properties\<close>

text \<open>
  Sessions reach the store. After any run of the tracker over an SQLite store that reported no
  error, and one more flush without error, every session that was in memory can be read back
  with its current end, status, call count, cost and tokens, also the completed ones that the
  flush drops from memory.
\<close>

theorem sessions_persisted:
  assumes "list_all ev_ok es" "permutes ord"
    and "store_run (sqlite_UpsertSession faults) (NewTracker cfg metrics, db) es = ([], t, db1)"
    and "flush (sqlite_UpsertSession faults) ord t db1 = ([], t', db2)"
    and "map_of (t_sessions t) i = Some ts"
  shows "\<exists>s. sqlite_GetSession db2 None i = Inr s \<and> progress s = progress (ts_session ts)"
proof -
  have "t_inv t \<and> sqlite_sessions.synced t db1"
    using sqlite_sessions.synced_run[OF NewTracker_inv sqlite_sessions.synced_New assms(1,3)] .
  then have "sqlite_sessions.stored db2 i (ts_session ts)"
    using sqlite_sessions.flush_stored[OF _ assms(2) _ assms(4,5)] by blast
  then show ?thesis by (auto simp: sqlite_sessions.stored_def sqlite_GetSession_def)
qed

definition empty_db :: database where "empty_db = \<lparr>usage_records = [], agent_sessions = []\<rparr>"

theorem sessions_persisted_witness:
  "let es = [Track id ''s'' ''a'' ''u'' ''t'' ''m'' ''/v1'' (1, 1, 1, 1)];
       (_, t, db1) = store_run (sqlite_UpsertSession (\<lambda>_. None)) (NewTracker loop_cfg True, empty_db) es;
       (_, t', db2) = flush (sqlite_UpsertSession (\<lambda>_. None)) id t db1
   in \<exists>s. sqlite_GetSession db2 None ''s'' = Inr s \<and> s_CallCount s = 1"
proof -
  let ?up = "sqlite_UpsertSession (\<lambda>_. None)" and ?es = "[Track id ''s'' ''a'' ''u'' ''t'' ''m'' ''/v1'' (1, 1, 1, 1)]"
  obtain t db1 where r: "store_run ?up (NewTracker loop_cfg True, empty_db) ?es = ([], t, db1)"
    and s: "map_of (t_sessions t) ''s'' = Some ts \<Longrightarrow> s_CallCount (ts_session ts) = 1"
    and e: "\<exists>ts. map_of (t_sessions t) ''s'' = Some ts" for ts
    by (simp add: NewTracker_def TrackCall_def get_or_start_def Let_def maxActiveSessions_def
        CheckLoop_def trim_calls_def detector_def NewDetector_def loop_cfg_def i64_def duration_units new_session_def time_defs)
  have noerr: "fst (upsert_all ?up db ss) = []" for db ss
    by (induction ss arbitrary: db) (simp_all add: Let_def sqlite_UpsertSession_def case_prod_unfold)
  then obtain t' db2 where f: "flush ?up id t db1 = ([], t', db2)"
    by (simp add: flush_def case_prod_unfold Let_def)
  from e obtain ts where ts: "map_of (t_sessions t) ''s'' = Some ts" by blast
  have "\<exists>s. sqlite_GetSession db2 None ''s'' = Inr s \<and> progress s = progress (ts_session ts)"
    by (rule sessions_persisted[OF _ _ r f ts]) (simp_all add: permutes_def)
  then show ?thesis using s[OF ts] unfolding Let_def r prod.case f by (auto simp: progress_def)
qed

text \<open>
  Spends do not leak between keys or tenants: whatever records of other keys, or of times
  outside the span, are written and whichever of these writes fail, the total spend SQLite
  reports for a key over a span stays the same; likewise for a tenant.
\<close>

theorem spend_isolated:
  "\<forall>r \<in> set rs. (u_APIKeyHash r \<noteq> k \<or> \<not> in_span since until r) \<and> (u_TenantID r \<noteq> tid \<or> \<not> in_span since until r) \<Longrightarrow>
   sqlite_GetTotalSpend eng (foldl (\<lambda>db r. snd (sqlite_RecordUsage db (faults r) r)) db rs) fault k since until =
     sqlite_GetTotalSpend eng db fault k since until \<and>
   sqlite_GetTotalSpendByTenant eng (foldl (\<lambda>db r. snd (sqlite_RecordUsage db (faults r) r)) db rs) fault tid since until =
     sqlite_GetTotalSpendByTenant eng db fault tid since until"
proof -
  have fold: "foldl (\<lambda>db r. snd (sqlite_RecordUsage db (faults r) r)) db rs = sqlite_key.recd_all faults db rs" for db rs
    by (induction rs arbitrary: db) simp_all
  have fold': "foldl (\<lambda>db r. snd (sqlite_RecordUsage db (faults r) r)) db rs = sqlite_tenant.recd_all faults db rs" for db rs
    by (induction rs arbitrary: db) simp_all
  assume "\<forall>r \<in> set rs. (u_APIKeyHash r \<noteq> k \<or> \<not> in_span since until r) \<and> (u_TenantID r \<noteq> tid \<or> \<not> in_span since until r)"
  then show ?thesis
    using sqlite_key.recd_all_unaffected[where faults = faults and rs = rs and db = db, folded fold]
      sqlite_tenant.recd_all_unaffected[where faults = faults and rs = rs and db = db, folded fold'] by blast
qed

definition a_record :: "string \<Rightarrow> string \<Rightarrow> UsageRecord" where
  "a_record i h = \<lparr>u_ID = i, u_Timestamp = 5, u_Provider = ''openai'', u_Model = ''gpt-4o'', u_APIKeyHash = h, u_InputTokens = 10,
     u_OutputTokens = 5, u_TotalTokens = 15, u_CostUSD = 1, u_Estimated = False, u_DurationMS = 100, u_StatusCode = 200,
     u_Path = ''/v1'', u_AgentID = '''', u_SessionID = '''', u_UserID = '''', u_TenantID = h\<rparr>"

definition an_engine :: sql_engine where
  "an_engine = \<lparr>sql_SUM = foldl fadd 0, sql_AVG = (\<lambda>xs. fdiv (foldl fadd 0 xs) (float_of_int (int (length xs)))),
     sql_pick = last, sql_PERCENTILE_CONT = (\<lambda>p xs. 0)\<rparr>"

theorem spend_isolated_witness:
  "sqlite_GetTotalSpend an_engine (snd (sqlite_RecordUsage empty_db None (a_record ''1'' ''g''))) None ''h'' 0 10 = (0, None)"
  using spend_isolated[of "[a_record ''1'' ''g'']" "''h''" 0 10 "''h''" an_engine "\<lambda>_. None" empty_db None]
  by (simp add: a_record_def) (simp add: sqlite_GetTotalSpend_def empty_db_def sum_cost_def)



text \<open>
  A timeseries covers every record once, in order: the points of SQLite's
  \<open>QueryCostTimeseries\<close> have strictly rising timestamps, each a multiple of the interval's unit,
  and together they count exactly the records of the span and tenant.
\<close>

theorem QueryCostTimeseries_partition:
  assumes "sqlite_QueryCostTimeseries eng db fault interval since until tenantID = Inr ps"
  shows "sum_list (map tp_Requests ps) = int (length (usage_where db since until tenantID)) \<and>
    sorted_wrt (<) (map tp_Timestamp ps) \<and> (\<forall>p \<in> set ps. tp_Timestamp p mod bucket_unit interval = 0)"
proof -
  let ?f = "\<lambda>r. bucket interval (u_Timestamp r)"
  let ?gs = "sort_key fst (group_by ?f (usage_where db since until tenantID))"
  have ps: "ps = map (\<lambda>(b, rows). \<lparr>tp_Timestamp = b, tp_CostUSD = sum_cost eng (map u_CostUSD rows), tp_Requests = int (length rows)\<rparr>) ?gs"
    using assms by (simp add: sqlite_QueryCostTimeseries_def run_sql_def split: option.splits)
  have times: "map tp_Timestamp ps = map fst ?gs" by (simp add: ps comp_def case_prod_unfold)
  have "mset (map fst ?gs) = mset (remdups (map ?f (usage_where db since until tenantID)))"
    by (metis group_by_keys mset_map mset_sort)
  then have "distinct (map fst ?gs)" "set (map fst ?gs) = set (map ?f (usage_where db since until tenantID))"
    by (metis distinct_remdups mset_eq_imp_distinct_iff, metis mset_eq_setD set_remdups)
  moreover have "bucket interval t mod bucket_unit interval = 0" for t
    by (simp add: bucket_def minus_mod_eq_div_mult)
  ultimately have "sorted_wrt (<) (map tp_Timestamp ps)" "\<forall>b \<in> set (map tp_Timestamp ps). b mod bucket_unit interval = 0"
    unfolding times by (auto simp: strict_sorted_iff)
  moreover have "sum_list (map tp_Requests ps) = int (length (usage_where db since until tenantID))"
    using group_by_length[of ?f "usage_where db since until tenantID"] by (simp add: ps comp_def case_prod_unfold)
  ultimately show ?thesis by simp
qed

theorem QueryCostTimeseries_partition_witness:
  "let db = empty_db\<lparr>usage_records := [a_record ''1'' ''g'', a_record ''2'' ''h'']\<rparr>
   in \<exists>ps. sqlite_QueryCostTimeseries an_engine db None ''day'' 0 10 '''' = Inr ps \<and> sum_list (map tp_Requests ps) = 2"
proof -
  let ?db = "empty_db\<lparr>usage_records := [a_record ''1'' ''g'', a_record ''2'' ''h'']\<rparr>"
  obtain ps where "sqlite_QueryCostTimeseries an_engine ?db None ''day'' 0 10 '''' = Inr ps"
    by (simp add: sqlite_QueryCostTimeseries_def run_sql_def)
  with QueryCostTimeseries_partition[OF this] show ?thesis
    by (simp add: usage_where_def empty_db_def a_record_def in_span_def)
qed

text \<open>
  Every percentile is the largest value or interpolates between two neighbours of the slice:
  no index is out of range, and the weight is between 0 and 1.
\<close>

theorem percentile_in_range:
  assumes "xs \<noteq> []" "0 \<le> p" "length xs < 2 ^ 53"
  shows "percentile xs p = last xs \<or>
    (\<exists>i w. Suc i < length xs \<and> 0 \<le> w \<and> w \<le> 1 \<and>
       percentile xs p = fadd (fmul (xs ! i) (fsub 1 w)) (fmul (xs ! Suc i) w))"
proof -
  define n idx where "n = int (length xs)" and "idx = fmul p (float_of_int (n - 1))"
  have n: "n > 0" using assms(1) by (simp add: n_def)
  have idx: "0 \<le> idx" using assms(2) n by (simp add: idx_def fmul_def fl_nonneg float_of_int_def)
  show ?thesis
  proof (cases "\<lfloor>idx\<rfloor> + 1 \<ge> n")
    case True
    then have "percentile xs p = xs ! nat (n - 1)"
      using idx n by (simp add: percentile_def Let_def flip: n_def idx_def)
    also have "\<dots> = last xs" using assms(1) by (simp add: last_conv_nth n_def nat_diff_distrib')
    finally show ?thesis by simp
  next
    case False
    let ?i = "nat \<lfloor>idx\<rfloor>" and ?w = "fsub idx (float_of_int \<lfloor>idx\<rfloor>)"
    have "0 \<le> \<lfloor>idx\<rfloor>" using idx by simp
    moreover have "n < 2 ^ 53" using assms(3) by (simp add: n_def)
    ultimately have exact: "float_of_int \<lfloor>idx\<rfloor> = of_int \<lfloor>idx\<rfloor>"
      unfolding float_of_int_def using False by (intro fl_of_int) linarith
    have "0 \<le> ?w" by (simp add: fsub_def exact fl_nonneg)
    moreover have "?w \<le> 1" using fl_mono[of "idx - of_int \<lfloor>idx\<rfloor>" 1] by (simp add: fsub_def exact) linarith
    moreover have "Suc ?i < length xs" using False \<open>0 \<le> \<lfloor>idx\<rfloor>\<close> unfolding n_def by linarith
    moreover have "percentile xs p = fadd (fmul (xs ! ?i) (fsub 1 ?w)) (fmul (xs ! Suc ?i) ?w)"
      using False idx n \<open>0 \<le> \<lfloor>idx\<rfloor>\<close> by (auto simp: percentile_def Let_def nat_add_distrib simp flip: n_def idx_def)
    ultimately show ?thesis by blast
  qed
qed

theorem percentile_in_range_witness:
  "percentile [7] (1 / 2) = last [7] \<or> (\<exists>i w. Suc i < length [7 :: rat] \<and> 0 \<le> w \<and> w \<le> 1 \<and>
       percentile [7] (1 / 2) = fadd (fmul ([7] ! i) (fsub 1 w)) (fmul ([7] ! Suc i) w))"
  by (rule percentile_in_range) simp_all

text \<open>
  A flush that fails loses its changes: when the store rejects every session, nothing is
  written, yet the sessions are no longer marked dirty, so that the next flush, with the store
  working again, writes nothing either.
\<close>

theorem flush_error_loses:
  assumes "permutes ord'" "flush (sqlite_UpsertSession (\<lambda>_. Some err)) ord t db = (errs, t', db')"
  shows "length errs = length (fst (collect_dirty ord t)) \<and> db' = db \<and>
    snd (snd (flush (sqlite_UpsertSession (\<lambda>_. None)) ord' t' db')) = db"
proof -
  have fails: "upsert_all (sqlite_UpsertSession (\<lambda>_. Some err)) db ss = (map (\<lambda>_. wrap ''upserting session'' err) ss, db)" for ss
    by (induction ss) (simp_all add: sqlite_UpsertSession_def)
  have "t' = snd (collect_dirty ord t)" using assms(2) by (auto simp: flush_def Let_def split: prod.splits)
  then have "\<forall>(_, ts) \<in> set (t_sessions t'). \<not> dirty ts" by (auto simp: collect_dirty_def)
  then have clean: "fst (collect_dirty ord' t') = []"
    using permutes_set[OF assms(1), of "t_sessions t'"] by (auto simp: collect_dirty_def filter_empty_conv)
  show ?thesis
    using assms(2) clean by (auto simp: flush_def fails Let_def case_prod_unfold)
qed

theorem flush_error_loses_witness:
  "let t = \<lparr>t_cfg = loop_cfg, t_sessions = [(''s'', (new_session ''s'' ''a'' ''u'' ''t'' 0)\<lparr>dirty := True\<rparr>)],
            has_metrics = True, has_notifier = False\<rparr>;
       (errs, t', db') = flush (sqlite_UpsertSession (\<lambda>_. Some ''disk full'')) id t empty_db
   in length errs = 1 \<and> snd (snd (flush (sqlite_UpsertSession (\<lambda>_. None)) id t' db')) = empty_db"
proof -
  let ?t = "\<lparr>t_cfg = loop_cfg, t_sessions = [(''s'', (new_session ''s'' ''a'' ''u'' ''t'' 0)\<lparr>dirty := True\<rparr>)],
            has_metrics = True, has_notifier = False\<rparr>"
  obtain errs t' db' where f: "flush (sqlite_UpsertSession (\<lambda>_. Some ''disk full'')) id ?t empty_db = (errs, t', db')"
    by (metis prod.exhaust)
  from flush_error_loses[OF _ this, of id] show ?thesis
    unfolding Let_def f prod.case by (simp add: permutes_def collect_dirty_def) metis
qed

text \<open>
  On Postgres the cost query always fails, whatever the table holds and whichever grouping is
  asked for: its statement selects five plain columns and groups by one of them.
\<close>

theorem pg_QueryCosts_fails: "\<exists>err. pg_QueryCosts eng db fault flt = Inl err"
  by (simp add: pg_QueryCosts_def bare_columns_def group_column_name_def split: option.split)

text \<open>
  Error statistics over a span without records are an error on both stores, not zeros: the
  sums are not coalesced. With records they are consistent: rate-limited and server errors are
  among the errors, errors among the requests, and the rate is between 0 and 1.
\<close>

theorem QueryErrorStats_consistent:
  "(usage_where db since until tid = [] \<longrightarrow>
     (\<exists>e. sqlite_QueryErrorStats eng db fault since until tid = Inl e) \<and>
     (\<exists>e. pg_QueryErrorStats eng db fault since until tid = Inl e)) \<and>
   (sqlite_QueryErrorStats eng db fault since until tid = Inr s \<longrightarrow>
     0 < es_TotalRequests s \<and> es_Count429 s + es_Count5xx s \<le> es_ErrorRequests s \<and>
     es_ErrorRequests s \<le> es_TotalRequests s \<and> 0 \<le> es_ErrorRate s \<and> es_ErrorRate s \<le> 1)"
proof -
  let ?rows = "usage_where db since until tid"
  let ?n = "\<lambda>P. int (length (filter P ?rows))"
  have "length (filter (\<lambda>r. u_StatusCode r = 429) rows) + length (filter (\<lambda>r. u_StatusCode r \<ge> 500) rows)
      \<le> length (filter (\<lambda>r. u_StatusCode r \<ge> 400) rows)" for rows
    by (induction rows) auto
  then have "?n (\<lambda>r. u_StatusCode r = 429) + ?n (\<lambda>r. u_StatusCode r \<ge> 500) \<le> ?n (\<lambda>r. u_StatusCode r \<ge> 400)"
    by (simp flip: of_nat_add)
  moreover have "?n P \<le> int (length ?rows)" for P by simp
  moreover have "0 \<le> fdiv (float_of_int a) (float_of_int b) \<and> fdiv (float_of_int a) (float_of_int b) \<le> 1"
    if "0 \<le> a" "a \<le> b" "0 < b" for a b
  proof -
    have "0 \<le> float_of_int a" "float_of_int a \<le> float_of_int b" using that by (simp_all add: float_of_int_def fl_nonneg fl_mono)
    moreover from this have "float_of_int a / float_of_int b \<le> 1" by (auto simp: divide_le_eq_1)
    ultimately show ?thesis using fl_mono[of "float_of_int a / float_of_int b" 1]
      by (simp add: fdiv_def fl_nonneg)
  qed
  ultimately show ?thesis
    by (auto simp: sqlite_QueryErrorStats_def pg_QueryErrorStats_def Let_def split: option.splits if_splits)
qed

theorem QueryErrorStats_consistent_witness:
  "(\<exists>e. sqlite_QueryErrorStats an_engine empty_db None 0 10 '''' = Inl e) \<and>
   (\<exists>s. sqlite_QueryErrorStats an_engine (empty_db\<lparr>usage_records := [a_record ''1'' ''g'']\<rparr>) None 0 10 '''' = Inr s \<and>
     es_ErrorRequests s \<le> es_TotalRequests s)"
proof -
  obtain s where s: "sqlite_QueryErrorStats an_engine (empty_db\<lparr>usage_records := [a_record ''1'' ''g'']\<rparr>) None 0 10 '''' = Inr s"
    by (simp add: sqlite_QueryErrorStats_def usage_where_def empty_db_def a_record_def in_span_def)
  have "usage_where empty_db 0 10 '''' = []" by (simp add: usage_where_def empty_db_def)
  then show ?thesis
    using QueryErrorStats_consistent[of empty_db 0 10 "''''" an_engine None]
      QueryErrorStats_consistent[of "empty_db\<lparr>usage_records := [a_record ''1'' ''g'']\<rparr>" 0 10 "''''" an_engine None s] s
    by blast
qed

text \<open>
  Latency percentiles can be missing without an error: when reading the durations breaks off,
  SQLite's \<open>QueryLatencyPercentiles\<close> returns no statistics and no error. Otherwise they are
  computed from at most ten thousand positive durations, the smallest ones.
\<close>

theorem QueryLatencyPercentiles_sample:
  "sqlite_QueryLatencyPercentiles db (None, None) (None, Some err) since until tid = Inr None \<and>
   (let ds = filter (\<lambda>d. d > 0) (map u_DurationMS rows); sample = latency_sample rows in
      length sample = min 10000 (length ds) \<and>
      (\<exists>rest. mset (sample @ rest) = mset ds \<and> sorted (sample @ rest)))"
proof -
  let ?ds = "filter (\<lambda>d. d > 0) (map u_DurationMS rows)"
  have "take 10000 (sort ?ds) @ drop 10000 (sort ?ds) = sort ?ds" by (rule append_take_drop_id)
  then have "mset (take 10000 (sort ?ds) @ drop 10000 (sort ?ds)) = mset ?ds \<and>
      sorted (take 10000 (sort ?ds) @ drop 10000 (sort ?ds))" by (simp only: mset_sort sorted_sort)
  then have "\<exists>rest. mset (latency_sample rows @ rest) = mset ?ds \<and> sorted (latency_sample rows @ rest)"
    unfolding latency_sample_def by blast
  moreover have "length (latency_sample rows) = min 10000 (length ?ds)" by (simp add: latency_sample_def)
  ultimately show ?thesis unfolding Let_def by (simp add: sqlite_QueryLatencyPercentiles_def)
qed

text \<open>
  A broken ledger opens the budget. When the spend queries of SQLite fail, a check with nothing
  cached for the key and no tenant does not block, whatever the rule, and the zero spend is
  cached as if it had been reported.
\<close>

theorem budget_fail_open:
  assumes "m_cache m h = None"
  shows "let l = \<lparr>GetTotalSpend_i = sqlite_GetTotalSpend eng db (Some err),
                  GetTotalSpendByTenant_i = sqlite_GetTotalSpendByTenant eng db (Some err)\<rparr>;
             (res, evs, m') = Check l m rawKey h '''' (t\<^sub>1, now, t\<^sub>3) tclk
         in r_Decision res \<noteq> DBlock \<and>
            (limited (matchRule (m_config m) rawKey) \<longrightarrow> m_cache m' h = Some \<lparr>daily = 0, monthly = 0, fetched = t\<^sub>3\<rparr>)"
proof -
  let ?q = "sqlite_GetTotalSpend eng db (Some err)"
  let ?l = "\<lparr>GetTotalSpend_i = ?q, GetTotalSpendByTenant_i = sqlite_GetTotalSpendByTenant eng db (Some err)\<rparr>"
  have spend: "getSpend ?l m h (t\<^sub>1, now, t\<^sub>3) =
      ((0, 0), log_errors [(''budget: querying daily spend'', Some (wrap ''querying total spend'' err)),
                           (''budget: querying monthly spend'', Some (wrap ''querying total spend'' err))],
       m\<lparr>m_cache := (m_cache m)(h \<mapsto> \<lparr>daily = 0, monthly = 0, fetched = t\<^sub>3\<rparr>)\<rparr>)"
    using assms by (simp add: getSpend_def cachedSpend_def sqlite_GetTotalSpend_def)
  have "r_Decision (evaluateRule rule 0 0) \<noteq> DBlock" for rule
    using sqlite_spend.error_no_block[where eng = eng and db = db and fault = "Some err"]
    by (simp add: sqlite_GetTotalSpend_def)
  then show ?thesis
    by (simp add: Check_def spend Let_def no_result_def limited_def not_less[symmetric])
qed

theorem budget_fail_open_witness:
  "let l = \<lparr>GetTotalSpend_i = sqlite_GetTotalSpend an_engine empty_db (Some ''locked''),
            GetTotalSpendByTenant_i = sqlite_GetTotalSpendByTenant an_engine empty_db (Some ''locked'')\<rparr>;
       (res, evs, m') = Check l (NewManager ten_dollars) ''k'' ''h'' '''' (0, 0, 0) (0, 0, 0)
   in r_Decision res \<noteq> DBlock"
  using budget_fail_open[of "NewManager ten_dollars" "''h''" an_engine empty_db "''locked''" "''k''" 0 0 0 "(0, 0, 0)"]
  by (auto simp: NewManager_def Let_def split: prod.splits)

end
