(* ===== verification/Recorder.thy ===== *)
theory Recorder
  imports Ledger
begin

text \<open>
  The asynchronous recorder (\<open>internal/ledger/recorder.go\<close>): a bounded channel, the workers that
  drain it into the ledger, the count of dropped records and \<open>Close\<close>.

  The goroutines are interleaved: \<open>rstep\<close> is one atomic action of some goroutine. The queue of a
  channel is first in, first out; a send on a closed channel panics; a receive from a closed and
  empty channel ends the \<open>range\<close> loop. The ledger behind the recorder is the locale
  \<open>record_sink\<close>, interpreted on both stores.
\<close>

section \<open>State and operations\<close>

text \<open>A worker waits at the channel, is inside \<open>RecordUsage\<close>, or has returned.\<close>

datatype worker = Waiting | Writing UsageRecord | Returned

datatype once = NotRun | Running | Finished

record 'db recorder =
  r_buf :: "UsageRecord list"
  r_cap :: nat
  ch_closed :: bool
  r_workers :: "worker list"
  r_dropped :: int
  r_once :: once
  r_ledger :: 'db

definition NewRecorder :: "'db \<Rightarrow> int \<Rightarrow> int \<Rightarrow> 'db recorder" where
  "NewRecorder ledger bufSize workers =
    (let bufSize = (if bufSize \<le> 0 then 10000 else bufSize);
         workers = (if workers \<le> 0 then 4 else workers)
     in \<lparr>r_buf = [], r_cap = nat bufSize, ch_closed = False,
         r_workers = replicate (nat workers) Waiting, r_dropped = 0, r_once = NotRun, r_ledger = ledger\<rparr>)"

text \<open>\<open>Record\<close>: \<open>Inl\<close> is the panic of a send on a closed channel.\<close>

definition Record :: "'db recorder \<Rightarrow> UsageRecord \<Rightarrow> string + 'db recorder" where
  "Record r record =
    (if ch_closed r then Inl ''send on closed channel''
     else if length (r_buf r) < r_cap r then Inr (r\<lparr>r_buf := r_buf r @ [record]\<rparr>)
     else Inr (r\<lparr>r_dropped := i64 (r_dropped r + 1)\<rparr>))"

definition Dropped :: "'db recorder \<Rightarrow> int" where
  "Dropped r = r_dropped r"

text \<open>
  \<open>Close\<close> inside the \<open>sync.Once\<close>: the first call closes the channel and waits for the workers;
  the other calls return when the first has. \<open>None\<close>: the call has to wait.
\<close>

definition Close_begin :: "'db recorder \<Rightarrow> 'db recorder option" where
  "Close_begin r = (if r_once r = NotRun then Some (r\<lparr>ch_closed := True, r_once := Running\<rparr>) else None)"

definition Close_wait :: "'db recorder \<Rightarrow> 'db recorder option" where
  "Close_wait r =
    (case r_once r of
       NotRun \<Rightarrow> None
     | Running \<Rightarrow> if list_all (\<lambda>w. w = Returned) (r_workers r) then Some (r\<lparr>r_once := Finished\<rparr>) else None
     | Finished \<Rightarrow> Some r)"

text \<open>
  One action of worker \<open>i\<close>: it receives, returns when the channel is closed and empty, or finishes
  the write it is in; \<open>save\<close> is the ledger's \<open>RecordUsage\<close>. \<open>None\<close>: it is blocked or gone.
\<close>

definition worker_step ::
  "('db \<Rightarrow> UsageRecord \<Rightarrow> string option \<times> 'db) \<Rightarrow> 'db recorder \<Rightarrow> nat \<Rightarrow> 'db recorder option" where
  "worker_step save r i =
    (if i \<ge> length (r_workers r) then None
     else case r_workers r ! i of
       Waiting \<Rightarrow>
         (case r_buf r of
            x # xs \<Rightarrow> Some (r\<lparr>r_buf := xs, r_workers := (r_workers r)[i := Writing x]\<rparr>)
          | [] \<Rightarrow> if ch_closed r then Some (r\<lparr>r_workers := (r_workers r)[i := Returned]\<rparr>) else None)
     | Writing x \<Rightarrow> Some (r\<lparr>r_workers := (r_workers r)[i := Waiting], r_ledger := snd (save (r_ledger r) x)\<rparr>)
     | Returned \<Rightarrow> None)"

section \<open>Interleavings\<close>

text \<open>
  The labels carry the history: which records were accepted, dropped and handed to the ledger,
  with the answer of the ledger.
\<close>

datatype rlabel =
    Accepted UsageRecord
  | DroppedL UsageRecord
  | Taken UsageRecord
  | Written UsageRecord "string option"
  | Internal

inductive rstep ::
  "('db \<Rightarrow> UsageRecord \<Rightarrow> string option \<times> 'db) \<Rightarrow> 'db recorder \<Rightarrow> rlabel \<Rightarrow> 'db recorder \<Rightarrow> bool"
  for save where
  accept: "Record r x = Inr r' \<Longrightarrow> length (r_buf r) < r_cap r \<Longrightarrow> rstep save r (Accepted x) r'"
| drop: "Record r x = Inr r' \<Longrightarrow> \<not> length (r_buf r) < r_cap r \<Longrightarrow> rstep save r (DroppedL x) r'"
| take: "worker_step save r i = Some r' \<Longrightarrow> r_workers r ! i = Waiting \<Longrightarrow> r_buf r = x # xs \<Longrightarrow>
    rstep save r (Taken x) r'"
| leave: "worker_step save r i = Some r' \<Longrightarrow> r_workers r ! i = Waiting \<Longrightarrow> r_buf r = [] \<Longrightarrow>
    rstep save r Internal r'"
| finish: "worker_step save r i = Some r' \<Longrightarrow> r_workers r ! i = Writing x \<Longrightarrow>
    rstep save r (Written x (fst (save (r_ledger r) x))) r'"
| close: "Close_begin r = Some r' \<Longrightarrow> rstep save r Internal r'"
| closed: "Close_wait r = Some r' \<Longrightarrow> rstep save r Internal r'"

inductive rreaches ::
  "('db \<Rightarrow> UsageRecord \<Rightarrow> string option \<times> 'db) \<Rightarrow> 'db recorder \<Rightarrow> rlabel list \<Rightarrow> 'db recorder \<Rightarrow> bool"
  for save where
  rreaches_refl: "rreaches save r [] r"
| rreaches_step: "rreaches save r ls s \<Longrightarrow> rstep save s l t \<Longrightarrow> rreaches save r (ls @ [l]) t"

fun accepted_of :: "rlabel \<Rightarrow> UsageRecord list" where
  "accepted_of (Accepted x) = [x]"
| "accepted_of _ = []"

fun dropped_of :: "rlabel \<Rightarrow> UsageRecord list" where
  "dropped_of (DroppedL x) = [x]"
| "dropped_of _ = []"

fun taken_of :: "rlabel \<Rightarrow> UsageRecord list" where
  "taken_of (Taken x) = [x]"
| "taken_of _ = []"

fun written_of :: "rlabel \<Rightarrow> UsageRecord list" where
  "written_of (Written x e) = [x]"
| "written_of _ = []"

fun saved_of :: "rlabel \<Rightarrow> UsageRecord list" where
  "saved_of (Written x None) = [x]"
| "saved_of _ = []"

definition hist :: "(rlabel \<Rightarrow> UsageRecord list) \<Rightarrow> rlabel list \<Rightarrow> UsageRecord list" where
  "hist f ls = concat (map f ls)"

lemma hist_simps [simp]: "hist f [] = []" "hist f (ls @ [l]) = hist f ls @ f l"
  by (simp_all add: hist_def)

fun in_flight :: "worker \<Rightarrow> UsageRecord list" where
  "in_flight (Writing x) = [x]"
| "in_flight _ = []"

definition flying :: "worker list \<Rightarrow> UsageRecord multiset" where
  "flying ws = mset (concat (map in_flight ws))"

section \<open>Invariants\<close>

lemma flying_update:
  "i < length ws \<Longrightarrow> flying (ws[i := w]) + mset (in_flight (ws ! i)) = flying ws + mset (in_flight w)"
  by (induction ws arbitrary: i) (auto simp: flying_def nth_Cons ac_simps split: nat.splits)

lemma flying_replicate [simp]: "flying (replicate n Waiting) = {#}"
  by (induction n) (simp_all add: flying_def)

lemma flying_returned: "list_all (\<lambda>w. w = Returned) ws \<Longrightarrow> flying ws = {#}"
  by (induction ws) (simp_all add: flying_def)

lemmas rstep_defs = Record_def Close_begin_def Close_wait_def worker_step_def

text \<open>
  The bookkeeping invariant: what was accepted is, in this order, what was taken and what is still
  buffered; what was taken is written or in flight; the drop counter counts, modulo its width.
\<close>

definition r_inv :: "'db recorder \<Rightarrow> rlabel list \<Rightarrow> bool" where
  "r_inv r ls \<longleftrightarrow>
    hist accepted_of ls = hist taken_of ls @ r_buf r \<and>
    mset (hist taken_of ls) = mset (hist written_of ls) + flying (r_workers r) \<and>
    length (r_buf r) \<le> r_cap r \<and>
    r_dropped r = i64 (int (length (hist dropped_of ls))) \<and>
    (r_once r \<noteq> NotRun \<longleftrightarrow> ch_closed r) \<and>
    (Returned \<in> set (r_workers r) \<longrightarrow> ch_closed r \<and> r_buf r = []) \<and>
    (r_once r = Finished \<longrightarrow> list_all (\<lambda>w. w = Returned) (r_workers r))"

lemma i64_plus_one: "i64 (1 + i64 x) = i64 (1 + x)"
  unfolding i64_def by (simp add: mod_simps algebra_simps)

lemma r_inv_New: "r_inv (NewRecorder db b w) []"
  by (auto simp: r_inv_def NewRecorder_def Let_def i64_def)

lemma set_update_Returned: "w \<noteq> Returned \<Longrightarrow> Returned \<in> set (ws[i := w]) \<Longrightarrow> Returned \<in> set ws"
  using set_update_subset_insert by fastforce

inductive_cases rstepE: "rstep save r l r'"

lemma worker_step_cases:
  assumes "worker_step save r i = Some r'"
  obtains (take) x xs where "i < length (r_workers r)" "r_workers r ! i = Waiting" "r_buf r = x # xs"
      "r' = r\<lparr>r_buf := xs, r_workers := (r_workers r)[i := Writing x]\<rparr>"
    | (leave) "i < length (r_workers r)" "r_workers r ! i = Waiting" "r_buf r = []" "ch_closed r"
      "r' = r\<lparr>r_workers := (r_workers r)[i := Returned]\<rparr>"
    | (finish) x where "i < length (r_workers r)" "r_workers r ! i = Writing x"
      "r' = r\<lparr>r_workers := (r_workers r)[i := Waiting], r_ledger := snd (save (r_ledger r) x)\<rparr>"
  using assms by (auto simp: worker_step_def split: if_splits worker.splits list.splits)

lemma not_all_returned: "i < length ws \<Longrightarrow> ws ! i \<noteq> Returned \<Longrightarrow> \<not> list_all (\<lambda>w. w = Returned) ws"
  by (auto simp: list_all_length)

lemma r_inv_worker:
  assumes inv: "r_inv r ls" and w: "worker_step save r i = Some r'"
    and l: "l = (case r_workers r ! i of
        Waiting \<Rightarrow> (case r_buf r of x # xs \<Rightarrow> Taken x | [] \<Rightarrow> Internal)
      | Writing x \<Rightarrow> Written x (fst (save (r_ledger r) x)) | Returned \<Rightarrow> Internal)"
  shows "r_inv r' (ls @ [l])"
  using w
proof (cases rule: worker_step_cases)
  case (take x xs)
  then have "flying ((r_workers r)[i := Writing x]) = add_mset x (flying (r_workers r))"
    using flying_update[of i "r_workers r" "Writing x"] by simp
  then show ?thesis
    using take inv l not_all_returned[of i "r_workers r"] set_update_Returned[of "Writing x" "r_workers r" i]
    by (auto simp: r_inv_def)
next
  case leave
  then have "flying ((r_workers r)[i := Returned]) = flying (r_workers r)"
    using flying_update[of i "r_workers r" Returned] by simp
  then show ?thesis
    using leave inv l not_all_returned[of i "r_workers r"] by (auto simp: r_inv_def)
next
  case (finish x)
  then have "add_mset x (flying ((r_workers r)[i := Waiting])) = flying (r_workers r)"
    using flying_update[of i "r_workers r" Waiting] by simp
  then show ?thesis
    using finish inv l not_all_returned[of i "r_workers r"] set_update_Returned[of Waiting "r_workers r" i]
    by (auto simp: r_inv_def)
qed

lemma r_inv_step: "rstep save r l r' \<Longrightarrow> r_inv r ls \<Longrightarrow> r_inv r' (ls @ [l])"
proof (induction rule: rstep.induct)
  case (take r i r' x xs)
  then show ?case using r_inv_worker[of r ls save i r'] by simp
next
  case (leave r i r')
  then show ?case using r_inv_worker[of r ls save i r'] by simp
next
  case (finish r i r' x)
  then show ?case using r_inv_worker[of r ls save i r'] by simp
qed (auto simp: r_inv_def rstep_defs i64_plus_one add.commute split: if_splits once.splits)

lemma r_inv_reaches: "rreaches save r ls s \<Longrightarrow> r_inv r [] \<Longrightarrow> r_inv s ls"
  by (induction rule: rreaches.induct) (auto intro: r_inv_step)

lemma rstep_cap: "rstep save r l r' \<Longrightarrow> r_cap r' = r_cap r \<and> length (r_workers r') = length (r_workers r)"
  by (induction rule: rstep.induct)
     (auto simp: rstep_defs split: if_splits once.splits worker.splits list.splits)

lemma rreaches_cap: "rreaches save r ls s \<Longrightarrow> r_cap s = r_cap r \<and> length (r_workers s) = length (r_workers r)"
  by (induction rule: rreaches.induct) (auto dest: rstep_cap)

section \<open>The ledger behind the recorder\<close>

text \<open>What the recorder relies on: a write without error adds the record, one with an error nothing.\<close>

locale record_sink =
  fixes save :: "'db \<Rightarrow> UsageRecord \<Rightarrow> string option \<times> 'db" and contents :: "'db \<Rightarrow> UsageRecord list"
  assumes save_ok: "save db x = (None, db') \<Longrightarrow> mset (contents db') = add_mset x (mset (contents db))"
    and save_error: "save db x = (Some err, db') \<Longrightarrow> contents db' = contents db"
begin

lemma saved_step:
  "rstep save r l r' \<Longrightarrow>
    mset (contents (r_ledger r')) = mset (saved_of l) + mset (contents (r_ledger r))"
proof (induction rule: rstep.induct)
  case (finish r i r' x)
  then have "r_ledger r' = snd (save (r_ledger r) x)"
    by (auto elim!: worker_step_cases)
  then show ?case
    using save_ok[of "r_ledger r" x "r_ledger r'"] save_error[of "r_ledger r" x]
    by (cases "save (r_ledger r) x"; cases "fst (save (r_ledger r) x)") auto
qed (auto simp: rstep_defs split: if_splits once.splits worker.splits list.splits)

lemma saved_reaches:
  "rreaches save r ls s \<Longrightarrow>
    mset (contents (r_ledger s)) = mset (contents (r_ledger r)) + mset (hist saved_of ls)"
  by (induction rule: rreaches.induct) (auto dest!: saved_step)

text \<open>When \<open>Close\<close> has returned, every accepted record was handed to the ledger once.\<close>

lemma close_drains:
  assumes "rreaches save (NewRecorder db b w) ls s" and "r_once s = Finished"
  shows "mset (hist written_of ls) = mset (hist accepted_of ls) \<and> r_buf s = [] \<and>
    mset (contents (r_ledger s)) = mset (contents db) + mset (hist saved_of ls)"
proof -
  have inv: "r_inv s ls" using r_inv_reaches[OF assms(1) r_inv_New] .
  have "length (r_workers s) > 0"
    using rreaches_cap[OF assms(1)] by (simp add: NewRecorder_def Let_def)
  then have all: "list_all (\<lambda>w. w = Returned) (r_workers s)" "r_workers s \<noteq> []"
    using inv assms(2) by (auto simp: r_inv_def)
  then have "Returned \<in> set (r_workers s)" by (cases "r_workers s") auto
  with all show ?thesis
    using inv flying_returned saved_reaches[OF assms(1)]
    by (auto simp: r_inv_def NewRecorder_def Let_def)
qed

end

interpretation sqlite_sink: record_sink "\<lambda>db x. sqlite_RecordUsage db (faults x) x" usage_records
  for faults
  by unfold_locales (auto simp: sqlite_RecordUsage_def split: option.splits if_splits)

interpretation pg_sink: record_sink "\<lambda>db x. pg_RecordUsage db (faults x) x" usage_records
  for faults
  by unfold_locales (auto simp: pg_RecordUsage_def split: option.splits if_splits)

section \<open>Termination of the workers\<close>

text \<open>What the workers have left to do once the channel is closed.\<close>

fun weight :: "worker \<Rightarrow> nat" where
  "weight Waiting = 1"
| "weight (Writing x) = 2"
| "weight Returned = 0"

definition drain_work :: "'db recorder \<Rightarrow> nat" where
  "drain_work r = 2 * length (r_buf r) + sum_list (map weight (r_workers r))"

fun run_workers ::
  "('db \<Rightarrow> UsageRecord \<Rightarrow> string option \<times> 'db) \<Rightarrow> 'db recorder \<Rightarrow> nat list \<Rightarrow> 'db recorder option" where
  "run_workers save r [] = Some r"
| "run_workers save r (i # is) =
    (case worker_step save r i of None \<Rightarrow> None | Some r' \<Rightarrow> run_workers save r' is)"

lemma weight_update:
  "i < length ws \<Longrightarrow> sum_list (map weight (ws[i := w])) + weight (ws ! i) = sum_list (map weight ws) + weight w"
  by (induction ws arbitrary: i) (auto simp: nth_Cons split: nat.splits)

lemma worker_step_less:
  assumes "worker_step save r i = Some r'"
  shows "drain_work r' < drain_work r"
  using assms
proof (cases rule: worker_step_cases)
  case (take x xs)
  then show ?thesis using weight_update[of i "r_workers r" "Writing x"] by (simp add: drain_work_def)
next
  case leave
  then show ?thesis using weight_update[of i "r_workers r" Returned] by (simp add: drain_work_def)
next
  case (finish x)
  then show ?thesis using weight_update[of i "r_workers r" Waiting] by (simp add: drain_work_def)
qed

lemma worker_step_flags: "worker_step save r i = Some r' \<Longrightarrow> ch_closed r' = ch_closed r \<and> r_once r' = r_once r"
  by (auto elim!: worker_step_cases)

lemma run_workers_bound: "run_workers save r is = Some r' \<Longrightarrow> length is + drain_work r' \<le> drain_work r"
  by (induction save r "is" rule: run_workers.induct) (auto dest!: worker_step_less split: option.splits)

lemma run_workers_flags: "run_workers save r is = Some r' \<Longrightarrow> ch_closed r' = ch_closed r \<and> r_once r' = r_once r"
  by (induction save r "is" rule: run_workers.induct) (auto dest!: worker_step_flags split: option.splits)

lemma worker_enabled:
  assumes "ch_closed r" and "\<not> list_all (\<lambda>w. w = Returned) (r_workers r)"
  shows "\<exists>i r'. worker_step save r i = Some r'"
proof -
  obtain i where "i < length (r_workers r)" "r_workers r ! i \<noteq> Returned"
    using assms(2) by (auto simp: list_all_length)
  then have "worker_step save r i \<noteq> None"
    using assms(1) by (auto simp: worker_step_def split: worker.splits list.splits)
  then show ?thesis by blast
qed

section \<open>A sample run\<close>

text \<open>One record is accepted, taken and written by the only worker, and the recorder is closed.\<close>

definition sample_usage :: UsageRecord where
  "sample_usage = \<lparr>u_ID = ''01J'', u_Timestamp = 0, u_Provider = ''openai'', u_Model = ''gpt-4o'',
     u_APIKeyHash = ''abc'', u_InputTokens = 10, u_OutputTokens = 5, u_TotalTokens = 15, u_CostUSD = 1,
     u_Estimated = False, u_DurationMS = 20, u_StatusCode = 200, u_Path = ''/v1/chat/completions'',
     u_AgentID = '''', u_SessionID = '''', u_UserID = '''', u_TenantID = ''''\<rparr>"

definition after_close :: "nat \<Rightarrow> 'db \<Rightarrow> 'db recorder" where
  "after_close n db = \<lparr>r_buf = [], r_cap = n, ch_closed = True, r_workers = [Returned], r_dropped = 0,
     r_once = Finished, r_ledger = db\<rparr>"

lemma sample_run:
  assumes "0 < b"
  shows "rreaches save (NewRecorder db b 1)
     [Accepted x, Taken x, Written x (fst (save db x)), Internal, Internal, Internal] (after_close (nat b) (snd (save db x)))"
proof -
  define r0 where "r0 = NewRecorder db b 1"
  define r1 where "r1 = r0\<lparr>r_buf := [x]\<rparr>"
  define r2 where "r2 = r1\<lparr>r_buf := [], r_workers := [Writing x]\<rparr>"
  define r3 where "r3 = r2\<lparr>r_workers := [Waiting], r_ledger := snd (save db x)\<rparr>"
  define r4 where "r4 = r3\<lparr>ch_closed := True, r_once := Running\<rparr>"
  define r5 where "r5 = r4\<lparr>r_workers := [Returned]\<rparr>"
  note defs = r5_def r4_def r3_def r2_def r1_def r0_def NewRecorder_def Let_def rstep_defs
  have "rstep save r0 (Accepted x) r1" by (rule rstep.accept) (use assms in \<open>simp_all add: defs\<close>)
  moreover have "rstep save r1 (Taken x) r2" by (rule rstep.take[of _ _ 0]) (simp_all add: defs)
  moreover have "rstep save r2 (Written x (fst (save db x))) r3"
    using rstep.finish[of save r2 0 r3 x] by (simp add: defs)
  moreover have "rstep save r3 Internal r4" by (rule rstep.close) (simp add: defs)
  moreover have "rstep save r4 Internal r5" by (rule rstep.leave[of _ _ 0]) (simp_all add: defs)
  moreover have "rstep save r5 Internal (after_close (nat b) (snd (save db x)))"
    by (rule rstep.closed) (use assms in \<open>simp add: defs after_close_def\<close>)
  ultimately have "rreaches save r0 ([] @ [Accepted x] @ [Taken x] @ [Written x (fst (save db x))] @ [Internal]
      @ [Internal] @ [Internal]) (after_close (nat b) (snd (save db x)))"
    by (simp only: append_assoc [symmetric]) (blast intro: rreaches.intros)
  then show ?thesis by (simp add: r0_def)
qed

definition sample_labels :: "rlabel list" where
  "sample_labels = [Accepted sample_usage, Taken sample_usage, Written sample_usage None, Internal, Internal, Internal]"

definition sample_end :: "database recorder" where
  "sample_end = after_close 1 \<lparr>usage_records = [sample_usage], agent_sessions = []\<rparr>"

lemma sample_sqlite_run:
  "rreaches (\<lambda>db x. sqlite_RecordUsage db None x) (NewRecorder \<lparr>usage_records = [], agent_sessions = []\<rparr> 1 1)
     sample_labels sample_end"
  using sample_run[where save = "\<lambda>db x. sqlite_RecordUsage db None x" and x = sample_usage and b = 1
      and db = "\<lparr>usage_records = [], agent_sessions = []\<rparr>"]
  by (simp add: sample_labels_def sample_end_def sqlite_RecordUsage_def)

section \<open>Properties\<close>

text \<open>
  C3. Under every interleaving of callers, workers and \<open>Close\<close>, no accepted record is lost or
  written twice: the accepted records are, in this order, those taken by the workers and those
  in the buffer, those taken are handed to the ledger or in flight, the table holds what it held
  and the records saved without error, the buffer is within its capacity, and the drop counter
  is the number of dropped records.
\<close>

theorem recorder_accounts:
  assumes "rreaches (\<lambda>db x. sqlite_RecordUsage db (faults x) x) (NewRecorder db bufSize workers) ls s"
  shows "hist accepted_of ls = hist taken_of ls @ r_buf s \<and>
    mset (hist taken_of ls) = mset (hist written_of ls) + flying (r_workers s) \<and>
    mset (usage_records (r_ledger s)) = mset (usage_records db) + mset (hist saved_of ls) \<and>
    int (length (r_buf s)) \<le> (if bufSize \<le> 0 then 10000 else bufSize) \<and>
    Dropped s = i64 (int (length (hist dropped_of ls)))"
proof -
  have "r_inv s ls" using r_inv_reaches[OF assms r_inv_New] .
  moreover have "int (r_cap s) = (if bufSize \<le> 0 then 10000 else bufSize)"
    using rreaches_cap[OF assms] by (simp add: NewRecorder_def Let_def)
  moreover have "r_ledger (NewRecorder db bufSize workers) = db" by (simp add: NewRecorder_def Let_def)
  ultimately show ?thesis
    using sqlite_sink.saved_reaches[OF assms] unfolding r_inv_def Dropped_def by fastforce
qed

theorem recorder_accounts_witness:
  "rreaches (\<lambda>db x. sqlite_RecordUsage db None x) (NewRecorder \<lparr>usage_records = [], agent_sessions = []\<rparr> 1 1)
     sample_labels sample_end \<and>
   hist accepted_of sample_labels = [sample_usage] \<and> hist taken_of sample_labels = [sample_usage] \<and>
   mset (usage_records (r_ledger sample_end)) = {#sample_usage#} \<and> Dropped sample_end = 0"
  using recorder_accounts[OF sample_sqlite_run] sample_sqlite_run
  by (simp add: sample_labels_def hist_def i64_def)

text \<open>
  When \<open>Close\<close> has returned, the buffer is empty, every accepted record was handed to the
  ledger exactly once, and each of them that the ledger did not refuse is in the table.
\<close>

theorem recorder_close_drains:
  assumes "rreaches (\<lambda>db x. sqlite_RecordUsage db (faults x) x) (NewRecorder db bufSize workers) ls s"
    and "r_once s = Finished"
  shows "mset (hist written_of ls) = mset (hist accepted_of ls) \<and> r_buf s = [] \<and>
    mset (usage_records (r_ledger s)) = mset (usage_records db) + mset (hist saved_of ls)"
  using sqlite_sink.close_drains[OF assms] .

theorem recorder_close_drains_witness:
  "r_once sample_end = Finished \<and> hist accepted_of sample_labels = [sample_usage] \<and>
   mset (hist written_of sample_labels) = {#sample_usage#} \<and>
   mset (usage_records (r_ledger sample_end)) = {#sample_usage#}"
  using recorder_close_drains[OF sample_sqlite_run]
  by (simp add: sample_labels_def hist_def sample_end_def after_close_def)

text \<open>
  \<open>Close\<close> returns: once the channel is closed, the workers take at most \<open>drain_work\<close> more
  actions in any order, some worker can act until all have returned, and then the waiting
  \<open>Close\<close> returns.
\<close>

theorem recorder_close_terminates:
  assumes "ch_closed r" and "r_once r = Running" and "run_workers save r is = Some r'"
  shows "length is \<le> drain_work r \<and>
    (if list_all (\<lambda>w. w = Returned) (r_workers r') then Close_wait r' = Some (r'\<lparr>r_once := Finished\<rparr>)
     else \<exists>i r''. worker_step save r' i = Some r'')"
  using assms run_workers_bound[OF assms(3)] run_workers_flags[OF assms(3)] worker_enabled[of r' save]
  by (simp add: Close_wait_def)

theorem recorder_close_terminates_witness:
  "let save = (\<lambda>db x. sqlite_RecordUsage db None x);
       r = \<lparr>r_buf = [sample_usage], r_cap = 1, ch_closed = True, r_workers = [Waiting, Waiting], r_dropped = 0,
            r_once = Running, r_ledger = \<lparr>usage_records = [], agent_sessions = []\<rparr>\<rparr>
   in drain_work r = 4 \<and> (\<exists>r'. run_workers save r [1, 1, 0, 1] = Some r' \<and>
        Close_wait r' = Some (r'\<lparr>r_once := Finished\<rparr>))"
  using recorder_close_terminates[of
      "\<lparr>r_buf = [sample_usage], r_cap = 1, ch_closed = True, r_workers = [Waiting, Waiting], r_dropped = 0,
        r_once = Running, r_ledger = \<lparr>usage_records = [], agent_sessions = []\<rparr>\<rparr>"
      "\<lambda>db x. sqlite_RecordUsage db None x" "[1, 1, 0, 1]"]
  by (simp add: drain_work_def worker_step_def)

text \<open>
  A record that comes after \<open>Close\<close> is neither accepted nor counted as dropped: \<open>Record\<close>
  panics.
\<close>

theorem Record_after_Close:
  assumes "rreaches (\<lambda>db x. sqlite_RecordUsage db (faults x) x) (NewRecorder db bufSize workers) ls s"
    and "r_once s \<noteq> NotRun"
  shows "Record s x = Inl ''send on closed channel''"
  using r_inv_reaches[OF assms(1) r_inv_New] assms(2) by (simp add: r_inv_def Record_def)

theorem Record_after_Close_witness:
  "Record sample_end sample_usage = Inl ''send on closed channel''"
  using Record_after_Close[OF sample_sqlite_run, of sample_usage]
  by (simp add: sample_end_def after_close_def)

end
