(* ===== verification/Meter.thy ===== *)
theory Meter
  imports Float64 "HOL-Library.Sublist"
begin

text \<open>
  The cost meter (\<open>internal/meter\<close>): the pricing table, the longest-prefix lookup of a
  model's price, the cost of a call and the token estimator.

  A Go map is iterated in an unspecified order, so the pricing table is an association
  list and every list with the same entries stands for one possible order of iteration:
  \<open>findPricing_longest\<close> characterises the lookup without mentioning the order. The tokenizer
  (\<open>tiktoken\<close>) is third-party code: its two functions are parameters.
\<close>

section \<open>Prices\<close>

record ModelPricing =
  InputPerMTok :: float64
  OutputPerMTok :: float64

type_synonym pricing = "(string \<times> ModelPricing) list"

text \<open>A pair of literals of the table, each rounded to the nearest \<open>float64\<close>.\<close>

definition price :: "rat \<Rightarrow> rat \<Rightarrow> ModelPricing" where
  "price i ou = \<lparr>InputPerMTok = fl i, OutputPerMTok = fl ou\<rparr>"

text \<open>The literals of the table, in source order: model, input price, output price.\<close>

definition pricing_literals :: "(string \<times> rat \<times> rat) list" where
  "pricing_literals = [
    (''gpt-4.1'', 2, 8),
    (''gpt-4.1-mini'', 2 / 5, 8 / 5),
    (''gpt-4.1-nano'', 1 / 10, 2 / 5),
    (''gpt-4o'', 5 / 2, 10),
    (''gpt-4o-mini'', 3 / 20, 3 / 5),
    (''o3'', 10, 40),
    (''o3-pro'', 150, 600),
    (''o3-mini'', 11 / 10, 22 / 5),
    (''o4-mini'', 11 / 10, 22 / 5),
    (''o1'', 15, 60),
    (''o1-pro'', 150, 600),
    (''o1-mini'', 3, 12),
    (''gpt-5.4-pro'', 30, 180),
    (''gpt-5.4'', 5 / 2, 15),
    (''gpt-5.3-codex'', 7 / 4, 14),
    (''gpt-5.3-chat'', 7 / 4, 14),
    (''gpt-5.2-pro'', 21 / 2, 84),
    (''gpt-5.2-codex'', 7 / 4, 14),
    (''gpt-5.2-chat'', 7 / 8, 7),
    (''gpt-5.2'', 7 / 4, 14),
    (''gpt-5.1-codex-max'', 5 / 4, 10),
    (''gpt-5.1-codex-mini'', 1 / 4, 2),
    (''gpt-5.1-codex'', 5 / 4, 10),
    (''gpt-5.1-chat'', 5 / 8, 5),
    (''gpt-5.1'', 5 / 8, 5),
    (''gpt-5-pro'', 15, 120),
    (''gpt-5-codex'', 5 / 4, 10),
    (''gpt-5-chat'', 5 / 4, 10),
    (''gpt-5-mini'', 1 / 8, 1),
    (''gpt-5-nano'', 1 / 20, 2 / 5),
    (''gpt-5'', 5 / 4, 10),
    (''gpt-4-turbo'', 10, 30),
    (''gpt-4'', 30, 60),
    (''gpt-3.5-turbo'', 1 / 2, 3 / 2),
    (''claude-opus-4.6'', 5, 25),
    (''claude-opus-4.5'', 5, 25),
    (''claude-sonnet-4.6'', 3, 15),
    (''claude-sonnet-4.5'', 3, 15),
    (''claude-haiku-4.5'', 1, 5),
    (''claude-opus-4.1'', 15, 75),
    (''claude-opus-4'', 15, 75),
    (''claude-sonnet-4'', 3, 15),
    (''claude-3.7-sonnet'', 3, 15),
    (''claude-3.5-sonnet'', 3, 15),
    (''claude-3.5-haiku'', 4 / 5, 4),
    (''claude-3-opus'', 15, 75),
    (''claude-3-haiku'', 1 / 4, 5 / 4),
    (''gemini-2.5-pro'', 5 / 4, 10),
    (''gemini-2.5-flash'', 3 / 20, 3 / 5),
    (''gemini-2.0-flash'', 1 / 10, 2 / 5),
    (''gemini-1.5-pro'', 5 / 4, 5),
    (''gemini-1.5-flash'', 3 / 40, 3 / 10),
    (''mistral-large-latest'', 2, 6),
    (''mistral-small-latest'', 1 / 5, 3 / 5),
    (''codestral-latest'', 3 / 10, 9 / 10),
    (''open-mistral-nemo'', 3 / 20, 3 / 20),
    (''llama-3.3-70b-versatile'', 59 / 100, 79 / 100),
    (''llama-3.1-8b-instant'', 1 / 20, 2 / 25),
    (''mixtral-8x7b-32768'', 6 / 25, 6 / 25),
    (''gemma2-9b-it'', 1 / 5, 1 / 5),
    (''deepseek-chat'', 7 / 50, 7 / 25),
    (''deepseek-reasoner'', 11 / 20, 219 / 100),
    (''command-r-plus'', 5 / 2, 10),
    (''command-r'', 3 / 20, 3 / 5),
    (''command-light'', 3 / 10, 3 / 5),
    (''grok-3'', 3, 15),
    (''grok-3-mini'', 3 / 10, 1 / 2),
    (''grok-2'', 2, 10),
    (''sonar-pro'', 3, 15),
    (''sonar'', 1, 1),
    (''sonar-reasoning'', 1, 5),
    (''meta-llama/Llama-3.3-70B-Instruct-Turbo'', 22 / 25, 22 / 25),
    (''meta-llama/Meta-Llama-3.1-405B-Instruct-Turbo'', 7 / 2, 7 / 2),
    (''meta-llama/Meta-Llama-3.1-8B-Instruct-Turbo'', 9 / 50, 9 / 50),
    (''Qwen/Qwen2.5-72B-Instruct-Turbo'', 6 / 5, 6 / 5),
    (''deepseek-ai/DeepSeek-V3'', 9 / 10, 9 / 10),
    (''accounts/fireworks/models/llama-v3p3-70b-instruct'', 9 / 10, 9 / 10),
    (''accounts/fireworks/models/llama-v3p1-8b-instruct'', 1 / 5, 1 / 5),
    (''accounts/fireworks/models/qwen2p5-72b-instruct'', 9 / 10, 9 / 10),
    (''llama-3.3-70b'', 17 / 20, 17 / 20),
    (''llama-3.1-8b'', 1 / 10, 1 / 10),
    (''Meta-Llama-3.3-70B-Instruct'', 3 / 5, 3 / 5),
    (''Meta-Llama-3.1-8B-Instruct'', 1 / 10, 1 / 10)]"

definition DefaultPricing :: pricing where
  "DefaultPricing = map (\<lambda>(k, i, ou). (k, price i ou)) pricing_literals"

section \<open>Lookup and cost\<close>

text \<open>The loop over the table: \<open>bestKey\<close> and \<open>bestPricing\<close>.\<close>

fun best_prefix :: "string \<Rightarrow> pricing \<Rightarrow> string \<times> ModelPricing \<Rightarrow> string \<times> ModelPricing" where
  "best_prefix model [] best = best"
| "best_prefix model ((key, p) # rest) best =
    best_prefix model rest
      (if HasPrefix model key \<and> length (fst best) < length key then (key, p) else best)"

definition findPricing :: "pricing \<Rightarrow> string \<Rightarrow> ModelPricing option" where
  "findPricing pr model =
    (case map_of pr model of
       Some p \<Rightarrow> Some p
     | None \<Rightarrow> (case best_prefix model pr ([], \<lparr>InputPerMTok = 0, OutputPerMTok = 0\<rparr>) of
         (bestKey, bestPricing) \<Rightarrow> if bestKey \<noteq> [] then Some bestPricing else None))"

definition Calculate :: "pricing \<Rightarrow> string \<Rightarrow> int \<Rightarrow> int \<Rightarrow> float64" where
  "Calculate pr model inputTokens outputTokens =
    (case findPricing pr model of
       None \<Rightarrow> 0
     | Some p \<Rightarrow>
        (let inputCost = fmul (fdiv (float_of_int inputTokens) 1000000) (InputPerMTok p);
             outputCost = fmul (fdiv (float_of_int outputTokens) 1000000) (OutputPerMTok p)
         in fadd inputCost outputCost))"

definition KnownModel :: "pricing \<Rightarrow> string \<Rightarrow> bool" where
  "KnownModel pr model \<longleftrightarrow> findPricing pr model \<noteq> None"

section \<open>The token estimator\<close>

definition encoding_prefixes :: "(string \<times> string) list" where
  "encoding_prefixes = [
    (''gpt-4.1'', ''o200k_base''), (''gpt-4o'', ''o200k_base''), (''o1'', ''o200k_base''),
    (''o3'', ''o200k_base''), (''o4'', ''o200k_base''), (''gpt-4'', ''cl100k_base''),
    (''gpt-3.5'', ''cl100k_base''), (''claude'', ''cl100k_base'')]"

definition encodingForModel :: "string \<Rightarrow> string" where
  "encodingForModel model =
    (case find (\<lambda>(pre, enc). length pre \<le> length model \<and> take (length pre) model = pre) encoding_prefixes of
       Some (_, enc) \<Rightarrow> enc
     | None \<Rightarrow> [])"

text \<open>
  The estimator's state is its cache of encoders. \<open>get_encoding\<close> is \<open>tiktoken.GetEncoding\<close>
  (\<open>None\<close> for an error) and \<open>encode\<close> the encoder's \<open>Encode\<close>.
\<close>

type_synonym 'enc encoders = "string \<rightharpoonup> 'enc"

definition getEncoder :: "(string \<Rightarrow> 'enc option) \<Rightarrow> 'enc encoders \<Rightarrow> string \<Rightarrow> 'enc option \<times> 'enc encoders" where
  "getEncoder get_encoding encs model =
    (let encoding = encodingForModel model in
     if encoding = [] then (None, encs)
     else (case encs encoding of
         Some enc \<Rightarrow> (Some enc, encs)
       | None \<Rightarrow> (case get_encoding encoding of
           None \<Rightarrow> (None, encs)
         | Some enc \<Rightarrow> (Some enc, encs(encoding \<mapsto> enc)))))"

definition CountTokens ::
  "(string \<Rightarrow> 'enc option) \<Rightarrow> ('enc \<Rightarrow> string \<Rightarrow> nat list) \<Rightarrow> 'enc encoders \<Rightarrow> string \<Rightarrow> string \<Rightarrow> int \<times> 'enc encoders" where
  "CountTokens get_encoding encode encs model text =
    (case getEncoder get_encoding encs model of
       (None, encs') \<Rightarrow> (0, encs')
     | (Some enc, encs') \<Rightarrow> (int (length (encode enc text)), encs'))"

section \<open>The lookup finds the longest prefix\<close>

lemma best_prefix_result:
  assumes "best_prefix model pr best = (k, p)"
  shows "(k, p) = best \<or> (k, p) \<in> set pr \<and> HasPrefix model k \<and> length (fst best) < length k"
  using assms
  by (induction model pr best arbitrary: k p rule: best_prefix.induct) (fastforce split: if_splits)+

lemma best_prefix_ge_start: "length (fst best) \<le> length (fst (best_prefix model pr best))"
  by (induction model pr best rule: best_prefix.induct) (auto split: if_splits)

lemma best_prefix_longest:
  "(k', p') \<in> set pr \<Longrightarrow> HasPrefix model k' \<Longrightarrow> length k' \<le> length (fst (best_prefix model pr best))"
proof (induction model pr best rule: best_prefix.induct)
  case (2 model key p rest best)
  then show ?case
    using best_prefix_ge_start[of "(key, p)" model rest] best_prefix_ge_start[of best model rest]
    by (fastforce split: if_splits)
qed simp

text \<open>\<open>k\<close> is the longest key of the table that begins the model's name.\<close>

definition longest_key :: "pricing \<Rightarrow> string \<Rightarrow> string \<Rightarrow> bool" where
  "longest_key pr model k \<longleftrightarrow> HasPrefix model k \<and> k \<in> fst ` set pr \<and>
     (\<forall>k' \<in> fst ` set pr. HasPrefix model k' \<longrightarrow> length k' \<le> length k)"

lemma longest_key_unique: "longest_key pr model k \<Longrightarrow> longest_key pr model k' \<Longrightarrow> k = k'"
  by (metis HasPrefix_antisym longest_key_def order_antisym)

lemma findPricing_sound:
  assumes "findPricing pr model = Some p" and "distinct (map fst pr)"
  shows "\<exists>k. longest_key pr model k \<and> map_of pr k = Some p \<and> (k = [] \<longrightarrow> model = [])"
proof (cases "map_of pr model")
  case None
  then obtain k where k: "best_prefix model pr ([], \<lparr>InputPerMTok = 0, OutputPerMTok = 0\<rparr>) = (k, p)" "k \<noteq> []"
    using assms(1) by (auto simp: findPricing_def split: prod.splits if_splits)
  then have kp: "(k, p) \<in> set pr" "HasPrefix model k"
    using best_prefix_result[OF k(1)] by auto
  have "length k' \<le> length k" if "(k', q) \<in> set pr" "HasPrefix model k'" for k' q
    using best_prefix_longest[OF that, of "([], \<lparr>InputPerMTok = 0, OutputPerMTok = 0\<rparr>)"] k(1) by simp
  then have "longest_key pr model k" using kp by (force simp: longest_key_def)
  then show ?thesis using kp k(2) assms(2) by (auto intro: map_of_is_SomeI)
next
  case (Some q)
  then have "longest_key pr model model"
    using HasPrefix_length by (force simp: longest_key_def HasPrefix_def dest: map_of_SomeD)
  then show ?thesis using Some assms(1) by (auto simp: findPricing_def)
qed

lemma findPricing_complete:
  assumes "longest_key pr model k" and "k = [] \<longrightarrow> model = []" and "distinct (map fst pr)"
  shows "findPricing pr model = map_of pr k"
proof -
  obtain p where p: "map_of pr k = Some p" and kp: "(k, p) \<in> set pr"
    using assms(1,3) by (force simp: longest_key_def)
  have "findPricing pr model \<noteq> None"
  proof (cases "map_of pr model")
    case None
    then have "k \<noteq> []" using assms(2) p by auto
    moreover have "length k \<le> length (fst (best_prefix model pr ([], \<lparr>InputPerMTok = 0, OutputPerMTok = 0\<rparr>)))"
      using best_prefix_longest[OF kp] assms(1) by (simp add: longest_key_def)
    ultimately show ?thesis using None by (auto simp: findPricing_def split: prod.splits)
  qed (simp add: findPricing_def)
  then obtain q where q: "findPricing pr model = Some q" by blast
  with assms(3) obtain k' where "longest_key pr model k'" "map_of pr k' = Some q"
    using findPricing_sound by blast
  then show ?thesis using q p longest_key_unique[OF assms(1)] by simp
qed

text \<open>The order in which the Go map is iterated does not matter.\<close>

lemma findPricing_order:
  assumes "set pr = set pr'" "distinct (map fst pr)" "distinct (map fst pr')"
  shows "findPricing pr model = findPricing pr' model"
proof -
  have m: "map_of pr = map_of pr'" using assms by (simp add: map_of_inject_set)
  have l: "longest_key pr = longest_key pr'" using assms(1) by (simp add: longest_key_def fun_eq_iff)
  have half: "findPricing q model = Some p \<Longrightarrow> findPricing q' model = Some p"
    if "longest_key q = longest_key q'" "map_of q = map_of q'" "distinct (map fst q)" "distinct (map fst q')"
    for q q' p
    using findPricing_sound[of q model p] findPricing_complete[of q' model] that by metis
  show ?thesis
    using half[OF l m assms(2,3)] half[OF l[symmetric] m[symmetric] assms(3,2)]
    by (metis not_Some_eq)
qed

section \<open>Costs\<close>

definition prices_nonneg :: "pricing \<Rightarrow> bool" where
  "prices_nonneg pr \<longleftrightarrow> (\<forall>(k, p) \<in> set pr. 0 \<le> InputPerMTok p \<and> 0 \<le> OutputPerMTok p)"

lemma findPricing_in_table: "findPricing pr model = Some p \<Longrightarrow> \<exists>k. (k, p) \<in> set pr"
  using best_prefix_result[of model pr "([], \<lparr>InputPerMTok = 0, OutputPerMTok = 0\<rparr>)"]
  by (auto simp: findPricing_def split: option.splits prod.splits if_splits dest: map_of_SomeD)

lemma findPricing_nonneg:
  "prices_nonneg pr \<Longrightarrow> findPricing pr model = Some p \<Longrightarrow> 0 \<le> InputPerMTok p \<and> 0 \<le> OutputPerMTok p"
  by (force simp: prices_nonneg_def dest: findPricing_in_table)

lemma Calculate_unknown: "\<not> KnownModel pr model \<Longrightarrow> Calculate pr model i ou = 0"
  by (simp add: KnownModel_def Calculate_def)

lemma token_cost_mono:
  "m \<le> n \<Longrightarrow> 0 \<le> c \<Longrightarrow> fmul (fdiv (float_of_int m) 1000000) c \<le> fmul (fdiv (float_of_int n) 1000000) c"
  by (intro fmul_mono fdiv_mono float_of_int_mono) auto

lemma token_cost_nonneg: "0 \<le> n \<Longrightarrow> 0 \<le> c \<Longrightarrow> 0 \<le> fmul (fdiv (float_of_int n) 1000000) c"
  by (intro fmul_nonneg fdiv_nonneg float_of_int_nonneg) auto

lemma Calculate_mono_gen:
  assumes "prices_nonneg pr" "i \<le> i'" "ou \<le> ou'"
  shows "Calculate pr model i ou \<le> Calculate pr model i' ou'"
  using findPricing_nonneg[OF assms(1)] assms(2,3)
  by (auto simp: Calculate_def Let_def split: option.splits intro!: fadd_mono token_cost_mono)

lemma Calculate_0 [simp]: "Calculate pr model 0 0 = 0"
  by (simp add: Calculate_def float_ops split: option.splits)

lemma Calculate_nonneg_gen:
  "prices_nonneg pr \<Longrightarrow> 0 \<le> i \<Longrightarrow> 0 \<le> ou \<Longrightarrow> 0 \<le> Calculate pr model i ou"
  using Calculate_mono_gen[of pr 0 i 0 ou model] by simp

lemma is_float_Calculate [simp, intro]: "is_float (Calculate pr model i ou)"
  by (simp add: Calculate_def Let_def split: option.splits)

lemma pricing_literals_nonneg: "list_all (\<lambda>(k, i, ou). 0 \<le> i \<and> 0 \<le> ou) pricing_literals"
  by (simp add: pricing_literals_def)

lemma DefaultPricing_nonneg [simp]: "prices_nonneg DefaultPricing"
  using pricing_literals_nonneg
  by (auto simp: prices_nonneg_def DefaultPricing_def price_def list_all_iff intro!: fl_nonneg)

lemma DefaultPricing_keys: "distinct (map fst DefaultPricing)"
  by (simp add: DefaultPricing_def pricing_literals_def)

section \<open>Accuracy\<close>

text \<open>The cost in exact arithmetic.\<close>

definition exact_cost :: "ModelPricing \<Rightarrow> int \<Rightarrow> int \<Rightarrow> rat" where
  "exact_cost p i ou = of_int i / 1000000 * InputPerMTok p + of_int ou / 1000000 * OutputPerMTok p"

text \<open>One token count: two roundings. A cent per million tokens keeps the product normal.\<close>

lemma token_cost_accurate:
  assumes n: "0 \<le> n" "n < 2 ^ 53" and c: "1 / 100 \<le> c"
  defines "x \<equiv> fmul (fdiv (float_of_int n) 1000000) c"
  shows "rel_err (5 / 2 ^ 54) x (of_int n / 1000000 * c) \<and> (x = 0 \<or> 1 / 10 ^ 10 \<le> x)"
proof (cases "n = 0")
  case True
  then show ?thesis by (simp add: x_def rel_err_def float_ops)
next
  case False
  define t where "t = (of_int n / 1000000 :: rat)"
  have t: "1 / 1000000 \<le> t" using False n(1) by (simp add: t_def)
  have a: "fdiv (float_of_int n) 1000000 = fl t"
    using n by (simp add: fdiv_def float_of_int_def fl_of_int t_def)
  have err_a: "rel_err (1 / 2 ^ 53) (fl t) t" using t by (intro fl_rel) simp
  have low_a: "t / 2 \<le> fl t" using t by (intro fl_ge_half) simp
  have low: "1 / 10 ^ 9 \<le> fl t * c"
    using mult_mono[of "1 / 2000000" "fl t" "1 / 100" c] low_a t c by simp
  have "rel_err (1 / 2 ^ 53 + (1 + 1 / 2 ^ 53) / 2 ^ 53) (fl (fl t * c)) (t * c)"
    using low c by (intro fl_rel_step rel_err_mult err_a) auto
  then have "rel_err (5 / 2 ^ 54) x (t * c)"
    using t c by (auto simp: x_def a fmul_def intro: rel_err_weaken)
  moreover have "1 / 10 ^ 10 \<le> x"
    using low fl_ge_half[of "fl t * c"] by (simp add: x_def a fmul_def)
  ultimately show ?thesis by (simp add: t_def)
qed

lemma Calculate_accurate_gen:
  assumes p: "findPricing pr model = Some p" and pp: "1 / 100 \<le> InputPerMTok p" "1 / 100 \<le> OutputPerMTok p"
    and i: "0 \<le> i" "i < 2 ^ 53" and ou: "0 \<le> ou" "ou < 2 ^ 53"
  shows "rel_err (1 / 2 ^ 51) (Calculate pr model i ou) (exact_cost p i ou)"
proof -
  define x where "x = fmul (fdiv (float_of_int i) 1000000) (InputPerMTok p)"
  define y where "y = fmul (fdiv (float_of_int ou) 1000000) (OutputPerMTok p)"
  have x: "rel_err (5 / 2 ^ 54) x (of_int i / 1000000 * InputPerMTok p)" "x = 0 \<or> 1 / 10 ^ 10 \<le> x"
    using token_cost_accurate[OF i pp(1)] by (auto simp: x_def)
  have y: "rel_err (5 / 2 ^ 54) y (of_int ou / 1000000 * OutputPerMTok p)" "y = 0 \<or> 1 / 10 ^ 10 \<le> y"
    using token_cost_accurate[OF ou pp(2)] by (auto simp: y_def)
  have "rel_err (5 / 2 ^ 54 + (1 + 5 / 2 ^ 54) / 2 ^ 53) (fl (x + y)) (exact_cost p i ou)"
    unfolding exact_cost_def using x(2) y(2) by (intro fl_rel_step rel_err_add x(1) y(1)) auto
  moreover have "0 \<le> exact_cost p i ou" using i ou pp by (simp add: exact_cost_def)
  ultimately have "rel_err (1 / 2 ^ 51) (fl (x + y)) (exact_cost p i ou)"
    by (auto intro: rel_err_weaken)
  then show ?thesis using p by (simp add: Calculate_def x_def y_def fadd_def)
qed

lemma pricing_literals_cent: "list_all (\<lambda>(k, i, ou). 1 / 50 \<le> i \<and> 1 / 50 \<le> ou) pricing_literals"
  by (simp add: pricing_literals_def)

lemma fl_cent: "1 / 50 \<le> x \<Longrightarrow> 1 / 100 \<le> fl x"
  using fl_ge_half[of x] by simp

lemma DefaultPricing_cent:
  "findPricing DefaultPricing model = Some p \<Longrightarrow> 1 / 100 \<le> InputPerMTok p \<and> 1 / 100 \<le> OutputPerMTok p"
proof -
  assume "findPricing DefaultPricing model = Some p"
  then obtain k i ou where "(k, i, ou) \<in> set pricing_literals" and p: "p = price i ou"
    by (auto simp: DefaultPricing_def dest!: findPricing_in_table)
  then have "1 / 50 \<le> i" "1 / 50 \<le> ou" using pricing_literals_cent by (auto simp: list_all_iff)
  then show ?thesis using fl_cent by (simp add: p price_def)
qed

section \<open>The estimator's cache\<close>

definition encoders_ok :: "(string \<Rightarrow> 'enc option) \<Rightarrow> 'enc encoders \<Rightarrow> bool" where
  "encoders_ok get_encoding encs \<longleftrightarrow> encs \<subseteq>\<^sub>m get_encoding"

lemma getEncoder_ok:
  assumes "encoders_ok get_encoding encs"
  shows "fst (getEncoder get_encoding encs model) =
      (if encodingForModel model = [] then None else get_encoding (encodingForModel model))
    \<and> encoders_ok get_encoding (snd (getEncoder get_encoding encs model))"
  using assms unfolding encoders_ok_def
  by (auto simp: getEncoder_def Let_def map_le_def split: option.splits; force)

section \<open>Properties\<close>

text \<open>
  \<open>findPricing\<close> returns a price exactly when some key of the table begins the model's name,
  and then it is the price of the longest such key, an exact match being the longest of
  all. The order in which the Go map is iterated has no influence, since the right-hand
  side does not mention it. An empty key counts only for the empty model name.
\<close>

theorem findPricing_longest:
  assumes "distinct (map fst pr)"
  shows "findPricing pr model = Some p \<longleftrightarrow>
    (\<exists>k. longest_key pr model k \<and> map_of pr k = Some p \<and> (k = [] \<longrightarrow> model = []))"
  using findPricing_sound[OF _ assms] findPricing_complete[OF _ _ assms] by metis

theorem findPricing_longest_witness:
  "distinct (map fst [(''gpt-4'', price 30 60), (''gpt-4o'', price 2 10)]) \<and>
   findPricing [(''gpt-4'', price 30 60), (''gpt-4o'', price 2 10)] ''gpt-4o-2024'' = Some (price 2 10)"
proof -
  let ?pr = "[(''gpt-4'', price 30 60), (''gpt-4o'', price 2 10)]"
  have d: "distinct (map fst ?pr)" by simp
  have "longest_key ?pr ''gpt-4o-2024'' ''gpt-4o''" by (simp add: longest_key_def HasPrefix_def)
  then have "findPricing ?pr ''gpt-4o-2024'' = Some (price 2 10)"
    by (intro findPricing_longest[OF d, THEN iffD2] exI[of _ "''gpt-4o''"]) simp
  then show ?thesis using d by simp
qed

text \<open>
  The cost of a call is never negative and never falls when a token count grows, in spite
  of the three roundings that compute it.
\<close>

theorem Calculate_monotone:
  assumes "0 \<le> i" "i \<le> i'" "0 \<le> ou" "ou \<le> ou'"
  shows "0 \<le> Calculate DefaultPricing model i ou \<and>
    Calculate DefaultPricing model i ou \<le> Calculate DefaultPricing model i' ou'"
  using assms by (intro conjI Calculate_nonneg_gen Calculate_mono_gen) auto

theorem Calculate_monotone_witness:
  "(0::int) \<le> 10 \<and> 0 \<le> Calculate DefaultPricing ''gpt-4o'' 10 0 \<and>
   Calculate DefaultPricing ''gpt-4o'' 10 0 \<le> Calculate DefaultPricing ''gpt-4o'' 20 7"
  using Calculate_monotone[of 10 20 0 7 "''gpt-4o''"] by simp

text \<open>
  C33. For every model of the built-in table and all token counts below \<open>2 ^ 53\<close>, the cost that
  \<open>float64\<close> arithmetic computes differs from the cost in exact arithmetic by at most one part
  in \<open>2 ^ 51\<close>.
\<close>

theorem Calculate_accurate:
  assumes "findPricing DefaultPricing model = Some p"
    and "0 \<le> i" "i < 2 ^ 53" and "0 \<le> ou" "ou < 2 ^ 53"
  shows "\<bar>Calculate DefaultPricing model i ou - exact_cost p i ou\<bar> \<le> exact_cost p i ou / 2 ^ 51"
  using Calculate_accurate_gen[OF assms(1) _ _ assms(2-5)] DefaultPricing_cent[OF assms(1)]
  by (simp add: rel_err_def)

lemma findPricing_gpt4o: "findPricing DefaultPricing ''gpt-4o'' = Some (price (5 / 2) 10)"
  by (simp add: findPricing_def DefaultPricing_def pricing_literals_def)

theorem Calculate_accurate_witness:
  "findPricing DefaultPricing ''gpt-4o'' = Some (price (5 / 2) 10) \<and>
   \<bar>Calculate DefaultPricing ''gpt-4o'' 1234567 89 - exact_cost (price (5 / 2) 10) 1234567 89\<bar>
     \<le> exact_cost (price (5 / 2) 10) 1234567 89 / 2 ^ 51"
  using findPricing_gpt4o Calculate_accurate[OF findPricing_gpt4o, of 1234567 89] by simp

text \<open>
  The estimator's cache is invisible: from a cache that holds only what the tokenizer library
  returned, the count is the one a fresh encoder gives (zero for a model without an
  encoding or when the library fails), and the cache stays of that kind.
\<close>

theorem CountTokens_cache:
  assumes "encoders_ok get_encoding encs"
  shows "fst (CountTokens get_encoding encode encs model text) =
      (case (if encodingForModel model = [] then None else get_encoding (encodingForModel model)) of
         None \<Rightarrow> 0 | Some enc \<Rightarrow> int (length (encode enc text)))
    \<and> encoders_ok get_encoding (snd (CountTokens get_encoding encode encs model text))"
  using getEncoder_ok[OF assms, of model]
  by (auto simp: CountTokens_def split: prod.splits option.splits if_splits)

theorem CountTokens_cache_witness:
  "encoders_ok (\<lambda>e. if e = ''o200k_base'' then Some (2::nat) else None) Map.empty \<and>
   fst (CountTokens (\<lambda>e. if e = ''o200k_base'' then Some (2::nat) else None)
      (\<lambda>k t. replicate (length t div k) 7) Map.empty ''gpt-4o-mini'' ''hello!'') = 3"
proof -
  have h: "encoders_ok (\<lambda>e. if e = ''o200k_base'' then Some (2::nat) else None) Map.empty"
    by (simp add: encoders_ok_def)
  show ?thesis
    using h CountTokens_cache[OF h, of "\<lambda>k t. replicate (length t div k) 7" "''gpt-4o-mini''" "''hello!''"]
    by (simp add: encodingForModel_def encoding_prefixes_def)
qed

end
