(* ===== verification/Streaming.thy ===== *)
theory Streaming
  imports Provider Recorder Meter
begin

text \<open>
  The interceptor of streamed responses (\<open>internal/proxy/streaming.go\<close>): a wrapper of the response
  body that passes the bytes through, parses the server-sent events in them, and records the
  usage once when the stream ends.

  The source is a sequence of \<open>Read\<close> results; what the interceptor does to the recorder, the tracker
  and the metrics is a list of effects, which the proxy carries out.
\<close>

section \<open>The meter and its effects\<close>

text \<open>
  The meter with its prices and its estimator; \<open>get_encoding\<close> and \<open>encode\<close> are the tokenizer's.
\<close>

record 'enc meter =
  mt_pricing :: pricing
  mt_get_encoding :: "string \<Rightarrow> 'enc option"
  mt_encode :: "'enc \<Rightarrow> string \<Rightarrow> nat list"
  mt_encoders :: "'enc encoders"

definition EstimateTokens :: "'enc meter \<Rightarrow> string \<Rightarrow> string \<Rightarrow> int \<times> 'enc meter" where
  "EstimateTokens m model text =
    (case CountTokens (mt_get_encoding m) (mt_encode m) (mt_encoders m) model text of
       (n, encs) \<Rightarrow> (n, m\<lparr>mt_encoders := encs\<rparr>))"

record request_metrics =
  rm_provider :: string
  rm_model :: string
  rm_statusCode :: int
  rm_durationMS :: int
  rm_inputTokens :: int
  rm_outputTokens :: int
  rm_costUSD :: float64
  rm_streaming :: bool
  rm_apiKeyHash :: string

datatype usage_effect =
    EffRecord UsageRecord
  | EffCost string float64 int
  | EffMetrics request_metrics

text \<open>\<open>d.Milliseconds()\<close> rounds toward zero.\<close>

definition Milliseconds :: "duration \<Rightarrow> int" where
  "Milliseconds d = (if d \<ge> 0 then d div 1000000 else - ((- d) div 1000000))"

text \<open>Which of the optional parts the proxy was built with.\<close>

record parts =
  with_tracker :: bool
  with_metrics :: bool

text \<open>Record, session cost, metrics: the end of both \<open>finalize\<close> and \<open>modifyResponse\<close>.\<close>

definition usage_effects :: "parts \<Rightarrow> bool \<Rightarrow> UsageRecord \<Rightarrow> usage_effect list" where
  "usage_effects ps streaming r =
    [EffRecord r] @
    (if with_tracker ps \<and> u_SessionID r \<noteq> '''' then [EffCost (u_SessionID r) (u_CostUSD r) (u_TotalTokens r)] else []) @
    (if with_metrics ps
     then [EffMetrics \<lparr>rm_provider = u_Provider r, rm_model = u_Model r, rm_statusCode = u_StatusCode r,
             rm_durationMS = u_DurationMS r, rm_inputTokens = u_InputTokens r, rm_outputTokens = u_OutputTokens r,
             rm_costUSD = u_CostUSD r, rm_streaming = streaming, rm_apiKeyHash = u_APIKeyHash r\<rparr>] else [])"

section \<open>The interceptor\<close>

record streamInterceptor =
  si_prov :: provider
  si_reqMeta :: "RequestMeta option"
  si_parts :: parts
  parseBuf :: string
  textBuf :: string
  si_model :: string
  si_inputTokens :: int
  si_outputTokens :: int
  si_start :: time
  si_apiKeyHash :: string
  si_path :: string
  si_agentID :: string
  si_sessionID :: string
  si_userID :: string
  si_tenantID :: string
  si_finalized :: bool

definition newStreamInterceptor ::
  "provider \<Rightarrow> RequestMeta option \<Rightarrow> parts \<Rightarrow> time \<Rightarrow> string \<Rightarrow> string \<Rightarrow> string \<Rightarrow> string \<Rightarrow> string \<Rightarrow> string \<Rightarrow> streamInterceptor" where
  "newStreamInterceptor prov reqMeta ps start apiKeyHash path agentID sessionID userID tenantID =
    \<lparr>si_prov = prov, si_reqMeta = reqMeta, si_parts = ps, parseBuf = '''', textBuf = '''', si_model = '''',
     si_inputTokens = 0, si_outputTokens = 0, si_start = start, si_apiKeyHash = apiKeyHash, si_path = path,
     si_agentID = agentID, si_sessionID = sessionID, si_userID = userID, si_tenantID = tenantID,
     si_finalized = False\<rparr>"

definition LF :: char where "LF = CHR 10"
definition CR :: char where "CR = CHR 13"

definition TrimRightCR :: "string \<Rightarrow> string" where
  "TrimRightCR line = rev (dropWhile (\<lambda>c. c = CR) (rev line))"

text \<open>One line of an event: the event type and the data payload so far.\<close>

definition sse_line :: "string \<times> string \<Rightarrow> string \<Rightarrow> string \<times> string" where
  "sse_line acc line0 =
    (case acc of (eventType, dataPayload) \<Rightarrow>
       let line = TrimRightCR line0 in
       if HasPrefix line ''event:'' then (TrimSpace (TrimPrefix line ''event:''), dataPayload)
       else if HasPrefix line ''data:'' then
         (eventType, dataPayload @ (if dataPayload \<noteq> [] then [LF] else []) @ TrimSpace (TrimPrefix line ''data:''))
       else (eventType, dataPayload))"

definition sse_event :: "string \<Rightarrow> string \<times> string" where
  "sse_event raw = foldl sse_line ('''', '''') (Split LF raw)"

definition add_chunk :: "streamInterceptor \<Rightarrow> StreamChunkMeta \<Rightarrow> streamInterceptor" where
  "add_chunk s chunk = s\<lparr>
     si_model := (if sc_Model chunk \<noteq> '''' then sc_Model chunk else si_model s),
     si_inputTokens := (if sc_InputTokens chunk > 0 then sc_InputTokens chunk else si_inputTokens s),
     si_outputTokens := (if sc_OutputTokens chunk > 0 then sc_OutputTokens chunk else si_outputTokens s),
     textBuf := textBuf s @ sc_Text chunk\<rparr>"

definition parseSSEEvent :: "streamInterceptor \<Rightarrow> string \<Rightarrow> streamInterceptor" where
  "parseSSEEvent s raw =
    (case sse_event raw of (eventType, dataPayload) \<Rightarrow>
       if dataPayload = [] \<or> dataPayload = ''[DONE]'' then s
       else case pv_ParseStreamChunk (si_prov s) eventType dataPayload of
         None \<Rightarrow> s
       | Some chunk \<Rightarrow> add_chunk s chunk)"

text \<open>The next complete event of the buffer and what remains; two line feeds are looked for first.\<close>

definition next_event :: "string \<Rightarrow> (string \<times> string) option" where
  "next_event buf =
    (case Index buf [LF, LF] of
       Some i \<Rightarrow> Some (take i buf, drop (i + 2) buf)
     | None \<Rightarrow>
         (case Index buf [CR, LF, CR, LF] of
            Some i \<Rightarrow> Some (take i buf, drop (i + 4) buf)
          | None \<Rightarrow> None))"

lemma next_event_length: "next_event buf = Some (ev, rest) \<Longrightarrow> length rest < length buf"
  by (auto simp: next_event_def split: option.splits dest!: Index_bound)

lemma parseSSEEvent_buf [simp]: "parseBuf (parseSSEEvent s raw) = parseBuf s"
  by (auto simp: parseSSEEvent_def add_chunk_def split: prod.splits option.splits)

function processEvents :: "streamInterceptor \<Rightarrow> streamInterceptor" where
  "processEvents s =
    (case next_event (parseBuf s) of
       None \<Rightarrow> s
     | Some (event, rest) \<Rightarrow> processEvents (parseSSEEvent (s\<lparr>parseBuf := rest\<rparr>) event))"
  by pat_completeness auto
termination
  by (relation "measure (\<lambda>s. length (parseBuf s))") (auto dest: next_event_length)

declare processEvents.simps [simp del]

text \<open>
  \<open>finalize\<close> under its \<open>sync.Once\<close>. \<open>ulid\<close> is the identifier \<open>ulid.Make()\<close> gives and \<open>now\<close> the clock
  of \<open>time.Since\<close>.
\<close>

definition final_model :: "streamInterceptor \<Rightarrow> string" where
  "final_model s = (if si_model s = '''' then (case si_reqMeta s of None \<Rightarrow> '''' | Some q \<Rightarrow> rq_Model q) else si_model s)"

definition final_output :: "'enc meter \<Rightarrow> streamInterceptor \<Rightarrow> string \<Rightarrow> int \<times> bool \<times> 'enc meter" where
  "final_output m s model =
    (if si_outputTokens s = 0 \<and> textBuf s \<noteq> '''' then
       (case EstimateTokens m model (textBuf s) of (n, m') \<Rightarrow> (n, True, m'))
     else (si_outputTokens s, False, m))"

definition finalize ::
  "'enc meter \<Rightarrow> streamInterceptor \<Rightarrow> string \<Rightarrow> time \<Rightarrow> usage_effect list \<times> 'enc meter \<times> streamInterceptor" where
  "finalize m s ulid now =
    (if si_finalized s then ([], m, s)
     else
       let model = final_model s;
           (outputTokens, estimated, m1) = final_output m s model;
           cost = Calculate (mt_pricing m) model (si_inputTokens s) outputTokens;
           record = \<lparr>u_ID = ulid, u_Timestamp = si_start s, u_Provider = pv_Name (si_prov s), u_Model = model,
             u_APIKeyHash = si_apiKeyHash s, u_InputTokens = si_inputTokens s, u_OutputTokens = outputTokens,
             u_TotalTokens = i64 (si_inputTokens s + outputTokens), u_CostUSD = cost, u_Estimated = estimated,
             u_DurationMS = Milliseconds (time_Sub now (si_start s)), u_StatusCode = 200, u_Path = si_path s,
             u_AgentID = si_agentID s, u_SessionID = si_sessionID s, u_UserID = si_userID s,
             u_TenantID = si_tenantID s\<rparr>
       in (usage_effects (si_parts s) True record, m1, s\<lparr>si_outputTokens := outputTokens, si_finalized := True\<rparr>))"

text \<open>The error of a \<open>Read\<close>.\<close>

datatype read_error = NoErr | EOF | ReadErr string

text \<open>
  \<open>Read\<close> when the source returned \<open>chunk\<close> and \<open>err\<close>: the bytes and the error go to the caller as
  they are.
\<close>

definition si_Read ::
  "'enc meter \<Rightarrow> streamInterceptor \<Rightarrow> string \<Rightarrow> read_error \<Rightarrow> string \<Rightarrow> time \<Rightarrow>
   (string \<times> read_error) \<times> usage_effect list \<times> 'enc meter \<times> streamInterceptor" where
  "si_Read m s chunk err ulid now =
    (let s1 = (if chunk \<noteq> [] then processEvents (s\<lparr>parseBuf := parseBuf s @ chunk\<rparr>) else s) in
     ((chunk, err), if err = EOF then finalize m s1 ulid now else ([], m, s1)))"

definition si_Close ::
  "'enc meter \<Rightarrow> streamInterceptor \<Rightarrow> string \<Rightarrow> time \<Rightarrow> usage_effect list \<times> 'enc meter \<times> streamInterceptor" where
  "si_Close m s ulid now = finalize m s ulid now"

section \<open>A run of the interceptor\<close>

datatype stream_op =
    OpRead string read_error string time
  | OpClose string time

fun si_step :: "'enc meter \<Rightarrow> streamInterceptor \<Rightarrow> stream_op \<Rightarrow> string \<times> usage_effect list \<times> 'enc meter \<times> streamInterceptor" where
  "si_step m s (OpRead chunk err ulid now) =
    (case si_Read m s chunk err ulid now of ((bytes, _), res) \<Rightarrow> (bytes, res))"
| "si_step m s (OpClose ulid now) = ('''', si_Close m s ulid now)"

text \<open>The bytes the caller gets, the effects in order, and the state at the end.\<close>

fun si_run :: "'enc meter \<Rightarrow> streamInterceptor \<Rightarrow> stream_op list \<Rightarrow> string \<times> usage_effect list \<times> 'enc meter \<times> streamInterceptor" where
  "si_run m s [] = ('''', [], m, s)"
| "si_run m s (x # xs) =
    (case si_step m s x of (bytes, effs, m1, s1) \<Rightarrow>
     case si_run m1 s1 xs of (bytes', effs', m2, s2) \<Rightarrow> (bytes @ bytes', effs @ effs', m2, s2))"

fun op_bytes :: "stream_op \<Rightarrow> string" where
  "op_bytes (OpRead chunk err ulid now) = chunk"
| "op_bytes (OpClose ulid now) = ''''"

fun op_ends :: "stream_op \<Rightarrow> bool" where
  "op_ends (OpRead chunk err ulid now) \<longleftrightarrow> err = EOF"
| "op_ends (OpClose ulid now) \<longleftrightarrow> True"

section \<open>The reference: events of the whole stream\<close>

function events :: "string \<Rightarrow> string list" where
  "events buf = (case next_event buf of None \<Rightarrow> [] | Some (ev, rest) \<Rightarrow> ev # events rest)"
  by pat_completeness auto
termination by (relation "measure length") (auto dest: next_event_length)

function leftover :: "string \<Rightarrow> string" where
  "leftover buf = (case next_event buf of None \<Rightarrow> buf | Some (ev, rest) \<Rightarrow> leftover rest)"
  by pat_completeness auto
termination by (relation "measure length") (auto dest: next_event_length)

declare events.simps [simp del] leftover.simps [simp del]

definition event_chunk :: "provider \<Rightarrow> string \<Rightarrow> StreamChunkMeta option" where
  "event_chunk prov raw =
    (case sse_event raw of (eventType, dataPayload) \<Rightarrow>
       if dataPayload = [] \<or> dataPayload = ''[DONE]'' then None
       else pv_ParseStreamChunk prov eventType dataPayload)"

definition chunks_of :: "provider \<Rightarrow> string \<Rightarrow> StreamChunkMeta list" where
  "chunks_of prov bytes = List.map_filter (event_chunk prov) (events bytes)"

text \<open>The last value that satisfies a condition.\<close>

definition last_of :: "('a \<Rightarrow> bool) \<Rightarrow> 'a \<Rightarrow> 'a list \<Rightarrow> 'a" where
  "last_of P d xs = (case filter P xs of [] \<Rightarrow> d | ys \<Rightarrow> last ys)"

lemma last_of_simps: "last_of P d [] = d" "last_of P d (x # xs) = last_of P (if P x then x else d) xs"
  by (auto simp: last_of_def split: list.splits)

lemma last_of_default: "\<not> P d \<Longrightarrow> last_of P e xs = (if P (last_of P d xs) then last_of P d xs else e)"
proof (cases "filter P xs = []")
  case False
  then have "P (last (filter P xs))" using last_in_set[OF False] by simp
  then show ?thesis using False by (auto simp: last_of_def split: list.splits)
qed (simp add: last_of_def)

lemma last_of_zero: "last_of (\<lambda>x. x > (0::int)) 0 (map f xs) = 0 \<longleftrightarrow> list_all (\<lambda>c. f c \<le> 0) xs"
proof (cases "filter (\<lambda>x. x > 0) (map f xs) = []")
  case True
  then show ?thesis by (simp add: last_of_def list_all_iff filter_empty_conv not_less)
next
  case False
  then have "last (filter (\<lambda>x. x > 0) (map f xs)) \<in> {x \<in> f ` set xs. x > 0}" using last_in_set by fastforce
  moreover have "last_of (\<lambda>x. x > 0) 0 (map f xs) = last (filter (\<lambda>x. x > 0) (map f xs))"
    using False by (auto simp: last_of_def split: list.splits)
  ultimately show ?thesis by (fastforce simp: list_all_iff)
qed

lemma parseSSEEvent_chunk:
  "parseSSEEvent s raw = (case event_chunk (si_prov s) raw of None \<Rightarrow> s | Some c \<Rightarrow> add_chunk s c)"
  by (auto simp: parseSSEEvent_def event_chunk_def split: prod.splits)

lemma si_prov_add [simp]: "si_prov (add_chunk s c) = si_prov s"
  by (simp add: add_chunk_def)

lemma foldl_add_chunk:
  "foldl add_chunk s cs = s\<lparr>
     si_model := last_of (\<lambda>x. x \<noteq> '''') (si_model s) (map sc_Model cs),
     si_inputTokens := last_of (\<lambda>x. x > 0) (si_inputTokens s) (map sc_InputTokens cs),
     si_outputTokens := last_of (\<lambda>x. x > 0) (si_outputTokens s) (map sc_OutputTokens cs),
     textBuf := textBuf s @ concat (map sc_Text cs)\<rparr>"
  by (induction cs arbitrary: s) (simp_all add: last_of_simps add_chunk_def)

text \<open>\<open>processEvents\<close> folds the chunks of the buffer's events.\<close>

lemma processEvents_reference:
  "processEvents s = (foldl add_chunk s (chunks_of (si_prov s) (parseBuf s)))\<lparr>parseBuf := leftover (parseBuf s)\<rparr>"
proof (induction s rule: processEvents.induct)
  case (1 s)
  show ?case
  proof (cases "next_event (parseBuf s)")
    case None
    then show ?thesis
      by (simp add: processEvents.simps chunks_of_def events.simps leftover.simps List.map_filter_def)
  next
    case (Some p)
    obtain ev rest where p: "p = (ev, rest)" by (cases p)
    let ?s = "parseSSEEvent (s\<lparr>parseBuf := rest\<rparr>) ev"
    have "processEvents s = processEvents ?s" using Some p by (subst processEvents.simps) simp
    moreover have "si_prov ?s = si_prov s" by (simp add: parseSSEEvent_chunk split: option.splits)
    moreover have "foldl add_chunk s (chunks_of (si_prov s) (parseBuf s)) =
        foldl add_chunk (parseSSEEvent s ev) (chunks_of (si_prov s) rest)"
      using Some p by (simp add: chunks_of_def events.simps[of "parseBuf s"] List.map_filter_simps parseSSEEvent_chunk split: option.splits)
    moreover have "leftover (parseBuf s) = leftover rest" using Some p by (simp add: leftover.simps[of "parseBuf s"])
    moreover have "foldl add_chunk ?s cs = (foldl add_chunk (parseSSEEvent s ev) cs)\<lparr>parseBuf := rest\<rparr>" for cs
      by (simp add: foldl_add_chunk parseSSEEvent_chunk add_chunk_def split: option.splits)
    ultimately show ?thesis using 1[OF Some p[symmetric]] by simp
  qed
qed

section \<open>Chunk boundaries\<close>

lemma HasPrefix_append_iff: "length p \<le> length s \<Longrightarrow> HasPrefix (s @ t) p \<longleftrightarrow> HasPrefix s p"
  by (simp add: HasPrefix_def)

lemma Index_append: "Index s p = Some i \<Longrightarrow> Index (s @ t) p = Some i"
proof (induction s arbitrary: i)
  case Nil
  then have "p = []" "i = 0" by (auto simp: Index.simps[of "[]"] HasPrefix_def split: if_splits)
  then show ?case by (simp add: Index.simps[of t])
next
  case (Cons c s)
  have le: "length p \<le> length (c # s)" using Index_bound[OF Cons(2)] by simp
  show ?case
  proof (cases "HasPrefix (c # s) p")
    case True
    then have "HasPrefix ((c # s) @ t) p" using HasPrefix_append_iff[OF le] by blast
    then show ?thesis using Cons(2) True by (simp add: Index.simps[of "c # s"] Index.simps[of "c # s @ t"])
  next
    case False
    then have "\<not> HasPrefix ((c # s) @ t) p" using HasPrefix_append_iff[OF le] by blast
    moreover obtain j where "Index s p = Some j" "i = Suc j" using Cons(2) False by (auto simp: Index.simps[of "c # s"])
    ultimately show ?thesis using Cons(1) by (simp add: Index.simps[of "c # s @ t"])
  qed
qed

lemma Index_suffix: "Index (a @ s) p = None \<Longrightarrow> Index s p = None"
  by (induction a) (auto simp: Index.simps[of "_ # _"] split: if_splits)

lemma Index_absent: "c \<notin> set s \<Longrightarrow> Index s (c # p) = None"
  by (induction s) (auto simp: Index.simps[of "[]"] Index.simps[of "_ # _"] HasPrefix_def)

text \<open>A stream that ends its lines in one way: with line feeds only, or never with two in a row.\<close>

definition uniform :: "string \<Rightarrow> bool" where
  "uniform bytes \<longleftrightarrow> CR \<notin> set bytes \<or> Index bytes [LF, LF] = None"

lemma next_event_append:
  assumes "uniform (b @ c)" and "next_event b = Some (ev, rest)"
  shows "next_event (b @ c) = Some (ev, rest @ c) \<and> uniform (rest @ c)"
proof (cases "Index b [LF, LF]")
  case (Some i)
  then have i: "i + 2 \<le> length b" using Index_bound by fastforce
  then have "next_event (b @ c) = Some (ev, rest @ c)"
    using Some assms(2) Index_append[OF Some, of c] by (simp add: next_event_def)
  moreover have "CR \<notin> set (b @ c)" using assms(1) Index_append[OF Some, of c] by (simp add: uniform_def)
  then have "CR \<notin> set (rest @ c)" using Some assms(2) by (auto simp: next_event_def dest: in_set_dropD)
  ultimately show ?thesis by (simp add: uniform_def)
next
  case None
  then obtain i where i: "Index b [CR, LF, CR, LF] = Some i" "ev = take i b" "rest = drop (i + 4) b"
    using assms(2) by (auto simp: next_event_def split: option.splits)
  then have le: "i + 4 \<le> length b" using Index_bound by fastforce
  have "CR \<in> set b" using i(1) Index_absent[of CR b] by fastforce
  then have none: "Index (b @ c) [LF, LF] = None" using assms(1) by (simp add: uniform_def)
  moreover have "b @ c = take (i + 4) b @ rest @ c" using i(3) by simp
  ultimately have "Index (rest @ c) [LF, LF] = None" by (metis Index_suffix)
  then show ?thesis using none i le Index_append[OF i(1), of c] by (simp add: next_event_def uniform_def)
qed

lemma uniform_prefix: "uniform (a @ b) \<Longrightarrow> uniform a"
  unfolding uniform_def using Index_append[of a "[LF, LF]" _ b] by (cases "Index a [LF, LF]") auto

text \<open>Events that are complete stay what they are when more bytes arrive.\<close>

lemma events_append: "uniform (b @ c) \<Longrightarrow> events (b @ c) = events b @ events (leftover b @ c) \<and>
  leftover (b @ c) = leftover (leftover b @ c) \<and> uniform (leftover b @ c)"
proof (induction b rule: events.induct)
  case (1 b)
  show ?case
  proof (cases "next_event b")
    case None
    then show ?thesis using 1(2) by (simp add: events.simps[of b] leftover.simps[of b])
  next
    case (Some p)
    obtain ev rest where p: "p = (ev, rest)" by (cases p)
    have "next_event (b @ c) = Some (ev, rest @ c)" "uniform (rest @ c)"
      using next_event_append[OF 1(2)] Some p by auto
    then show ?thesis
      using 1(1)[OF Some p[symmetric]] Some p
      by (simp add: events.simps[of "b @ c"] events.simps[of b] leftover.simps[of "b @ c"] leftover.simps[of b])
  qed
qed

lemma chunks_of_append:
  "uniform (b @ c) \<Longrightarrow> chunks_of p (b @ c) = chunks_of p b @ chunks_of p (leftover b @ c)"
  using events_append[of b c] by (simp add: chunks_of_def List.map_filter_def)

text \<open>What the interceptor knows after the bytes \<open>b\<close> of the stream.\<close>

definition seen :: "streamInterceptor \<Rightarrow> string \<Rightarrow> streamInterceptor" where
  "seen s b = (foldl add_chunk s (chunks_of (si_prov s) b))\<lparr>parseBuf := leftover b\<rparr>"

lemma seen_more:
  assumes "uniform (b @ c)"
  shows "processEvents ((seen s b)\<lparr>parseBuf := parseBuf (seen s b) @ c\<rparr>) = seen s (b @ c)"
  using chunks_of_append[OF assms, of "si_prov s"] events_append[OF assms]
  by (simp add: processEvents_reference seen_def foldl_append[symmetric] del: foldl_append)
     (simp add: foldl_add_chunk)

section \<open>Runs\<close>

definition is_EffRecord :: "usage_effect \<Rightarrow> bool" where
  "is_EffRecord e \<longleftrightarrow> (case e of EffRecord r \<Rightarrow> True | _ \<Rightarrow> False)"

lemma usage_effects_once: "length (filter is_EffRecord (usage_effects ps st r)) = 1"
  by (simp add: usage_effects_def is_EffRecord_def)

lemma processEvents_keeps:
  "si_finalized (processEvents s) = si_finalized s" "si_parts (processEvents s) = si_parts s"
  by (simp_all add: processEvents_reference foldl_add_chunk)

lemma finalize_count:
  assumes "finalize m s ulid now = (effs, m', s')"
  shows "length (filter is_EffRecord effs) = (if si_finalized s then 0 else 1) \<and> si_finalized s'"
  using assms usage_effects_once
  by (auto simp: finalize_def Let_def split: if_splits prod.splits)

lemma si_step_count:
  assumes "si_step m s x = (bytes, effs, m', s')"
  shows "bytes = op_bytes x \<and> length (filter is_EffRecord effs) = (if op_ends x \<and> \<not> si_finalized s then 1 else 0) \<and>
    (si_finalized s' \<longleftrightarrow> si_finalized s \<or> op_ends x)"
proof (cases x)
  case (OpRead chunk err ulid now)
  let ?s = "if chunk \<noteq> [] then processEvents (s\<lparr>parseBuf := parseBuf s @ chunk\<rparr>) else s"
  have "si_finalized ?s = si_finalized s" by (simp add: processEvents_keeps)
  then show ?thesis
    using assms OpRead finalize_count[of m ?s ulid now effs m' s']
    by (cases "err = EOF") (auto simp: si_Read_def Let_def)
next
  case (OpClose ulid now)
  then show ?thesis using assms finalize_count[of m s ulid now effs m' s'] by (auto simp: si_Close_def)
qed

lemma si_run_count:
  "si_run m s ops = (bytes, effs, m', s') \<Longrightarrow>
    bytes = concat (map op_bytes ops) \<and>
    length (filter is_EffRecord effs) = (if list_ex op_ends ops \<and> \<not> si_finalized s then 1 else 0)"
proof (induction ops arbitrary: m s bytes effs m' s')
  case (Cons x xs)
  obtain b1 e1 m1 s1 where st: "si_step m s x = (b1, e1, m1, s1)" by (cases "si_step m s x") auto
  obtain b2 e2 m2 s2 where rn: "si_run m1 s1 xs = (b2, e2, m2, s2)" by (cases "si_run m1 s1 xs") auto
  show ?case using Cons(2) st rn si_step_count[OF st] Cons(1)[OF rn] by auto
qed simp

text \<open>Reads before the end of the stream, on a uniform stream.\<close>

lemma si_run_reads:
  assumes "list_all (\<lambda>x. \<not> op_ends x) ops" and "uniform (b @ concat (map op_bytes ops))"
  shows "si_run m (seen s b) ops =
    (concat (map op_bytes ops), [], m, seen s (b @ concat (map op_bytes ops)))"
  using assms
proof (induction ops arbitrary: b)
  case (Cons x xs)
  then obtain chunk err ulid now where x: "x = OpRead chunk err ulid now" "err \<noteq> EOF" by (cases x) auto
  have u: "uniform (b @ chunk)" using Cons(3) x uniform_prefix[of "b @ chunk"] by simp
  have "si_step m (seen s b) x = (chunk, [], m, seen s (b @ chunk))"
    using x seen_more[OF u, of s] by (simp add: si_Read_def Let_def)
  moreover have "si_run m (seen s (b @ chunk)) xs =
      (concat (map op_bytes xs), [], m, seen s ((b @ chunk) @ concat (map op_bytes xs)))"
    using Cons x by (intro Cons(1)) auto
  ultimately show ?case using x by simp
qed simp

lemma seen_nothing: "seen s '''' = s\<lparr>parseBuf := ''''\<rparr>"
proof -
  have "next_event '''' = None" by (simp add: next_event_def Index.simps HasPrefix_def)
  then show ?thesis by (simp add: seen_def chunks_of_def events.simps leftover.simps List.map_filter_def)
qed

lemma si_run_append:
  "si_run m s (xs @ ys) =
    (case si_run m s xs of (b1, e1, m1, s1) \<Rightarrow> case si_run m1 s1 ys of (b2, e2, m2, s2) \<Rightarrow> (b1 @ b2, e1 @ e2, m2, s2))"
  by (induction xs arbitrary: m s) (auto split: prod.splits)

definition op_id :: "stream_op \<Rightarrow> string \<times> time" where
  "op_id x = (case x of OpRead chunk err ulid now \<Rightarrow> (ulid, now) | OpClose ulid now \<Rightarrow> (ulid, now))"

lemma si_run_whole:
  assumes "parseBuf s = ''''" and "list_all (\<lambda>x. \<not> op_ends x) reads" and "op_ends lst"
    and "uniform (concat (map op_bytes (reads @ [lst])))"
  shows "si_run m s (reads @ [lst]) =
    (concat (map op_bytes (reads @ [lst])),
     finalize m (seen s (concat (map op_bytes (reads @ [lst])))) (fst (op_id lst)) (snd (op_id lst)))"
proof -
  let ?b = "concat (map op_bytes reads)"
  have s: "seen s '''' = s" using assms(1) by (simp add: seen_nothing)
  have "si_run m s reads = (?b, [], m, seen s ?b)"
    using si_run_reads[OF assms(2), of "''''" m s] uniform_prefix[of ?b "op_bytes lst"] assms(4) s by simp
  moreover have "si_step m (seen s ?b) lst = (op_bytes lst, finalize m (seen s (?b @ op_bytes lst)) (fst (op_id lst)) (snd (op_id lst)))"
    using assms(3,4) seen_more[of ?b "op_bytes lst" s]
    by (cases lst) (auto simp: si_Read_def si_Close_def Let_def op_id_def)
  ultimately show ?thesis by (simp add: si_run_append split: prod.splits)
qed

section \<open>Properties\<close>


text \<open>A stream of one event, and what it says.\<close>

definition sample_prov :: provider where
  "sample_prov = POpenAI (NewOpenAI ''u'')"

definition sample_head :: string where
  "sample_head = ''data: {\"model\":\"gpt-''"

definition sample_tail :: string where
  "sample_tail = ''4o\",\"usage\":{\"prompt_tokens\":8,\"completion_tokens\":4}}''"

definition sample_meter :: "unit meter" where
  "sample_meter = \<lparr>mt_pricing = [], mt_get_encoding = (\<lambda>_. None), mt_encode = (\<lambda>_ _. []), mt_encoders = Map.empty\<rparr>"

definition no_parts :: parts where
  "no_parts = \<lparr>with_tracker = False, with_metrics = False\<rparr>"

definition sample_stream :: streamInterceptor where
  "sample_stream = newStreamInterceptor sample_prov None no_parts 0 ''h'' ''/v1/chat/completions'' '''' '''' '''' ''''"

lemma sample_chunks:
  "chunks_of sample_prov (sample_head @ sample_tail @ [LF, LF]) =
     [\<lparr>sc_Model = ''gpt-4o'', sc_InputTokens = 8, sc_OutputTokens = 4, sc_Text = '''', sc_Done = True\<rparr>]"
  by code_simp

lemma sample_values: "pv_Name sample_prov = ''openai''" "Calculate (mt_pricing sample_meter) model a b = 0"
  "\<not> with_tracker no_parts" "\<not> with_metrics no_parts"
  by (simp_all add: sample_prov_def NewOpenAI_def NewOpenAICompatible_def sample_meter_def Calculate_def
      findPricing_def no_parts_def)

lemma sample_uniform: "uniform (sample_head @ sample_tail @ [LF, LF])"
  by code_simp


text \<open>
  C31. However the reads and closes of a stream come, with errors and repeated closes among them,
  the caller gets the bytes of the source, and exactly one record is written if the stream
  was read to its end or closed, none otherwise.
\<close>

theorem stream_records_once:
  "\<exists>effs m' s'. si_run m (newStreamInterceptor prov reqMeta ps start h path agentID sessionID userID tenantID) ops =
     (concat (map op_bytes ops), effs, m', s') \<and>
     length (filter is_EffRecord effs) = (if list_ex op_ends ops then 1 else 0)"
proof -
  let ?s = "newStreamInterceptor prov reqMeta ps start h path agentID sessionID userID tenantID"
  obtain b effs m' s' where r: "si_run m ?s ops = (b, effs, m', s')" by (cases "si_run m ?s ops") auto
  from si_run_count[OF r] show ?thesis using r by (auto simp: newStreamInterceptor_def)
qed

text \<open>
  With mixed line ends the chunk boundaries do matter: of the same bytes, an event that ends in
  CR LF CR LF and one that ends in two line feeds, the usage is recorded when they arrive in
  two reads and lost when they arrive in one.
\<close>

theorem stream_mixed_line_ends:
  "let first = (sample_head @ sample_tail) @ [CR, LF, CR, LF]; second = ''data: {}'' @ [LF, LF];
       tokens = (\<lambda>ops. map (\<lambda>e. case e of EffRecord r \<Rightarrow> (u_Model r, u_InputTokens r, u_OutputTokens r) | _ \<Rightarrow> ('''', 0, 0))
          (fst (snd (si_run sample_meter sample_stream ops))))
   in tokens [OpRead first NoErr ''a'' 1, OpRead second EOF ''b'' 2] = [(''gpt-4o'', 8, 4)] \<and>
      tokens [OpRead (first @ second) EOF ''b'' 2] = [('''', 0, 0)]"
proof -
  have a: "processEvents (sample_stream\<lparr>parseBuf := (sample_head @ sample_tail) @ [CR, LF, CR, LF]\<rparr>) =
      sample_stream\<lparr>si_model := ''gpt-4o'', si_inputTokens := 8, si_outputTokens := 4\<rparr>"
    by code_simp
  have b: "processEvents (sample_stream\<lparr>si_model := ''gpt-4o'', si_inputTokens := 8, si_outputTokens := 4,
      parseBuf := ''data: {}'' @ [LF, LF]\<rparr>) =
      sample_stream\<lparr>si_model := ''gpt-4o'', si_inputTokens := 8, si_outputTokens := 4\<rparr>"
    by code_simp
  have c: "processEvents (sample_stream\<lparr>parseBuf := ((sample_head @ sample_tail) @ [CR, LF, CR, LF]) @ ''data: {}'' @ [LF, LF]\<rparr>) = sample_stream"
    by code_simp
  have s: "sample_stream\<lparr>parseBuf := parseBuf sample_stream @ x\<rparr> = sample_stream\<lparr>parseBuf := x\<rparr>" for x
    by (simp add: sample_stream_def newStreamInterceptor_def)
  show ?thesis
    using a b c by (simp add: s si_Read_def Let_def) (simp add: finalize_def sample_stream_def newStreamInterceptor_def
        Let_def final_model_def final_output_def usage_effects_def no_parts_def)
qed

end
