(* ===== verification/Admin.thy ===== *)
theory Admin
  imports Ledger Provider
begin

text \<open>
  The admin API (\<open>internal/admin\<close>): the runtime configuration store, the blocklist of API keys with
  its cache, and the REST handlers.

  A stored value is the document \<open>SetJSON\<close> was given: the JSON text in the column decodes to the
  value it was made from. A row that was not written for the type it is read as is \<open>Garbled\<close>, with
  what the decoder stores before it fails. A store operation fails when its \<open>fault\<close> says so.
\<close>

section \<open>Store\<close>

datatype document =
    RulesDoc "Rule list"
  | PatternsDoc "string list"
  | FlagsDoc "(string \<times> bool) list"
  | Garbled "Rule list" "string list" "(string \<times> bool) list"

type_synonym admin_config = "string \<rightharpoonup> document"

definition store_Get :: "admin_config \<Rightarrow> fault \<Rightarrow> string \<Rightarrow> string + document option" where
  "store_Get st fault key =
    (case fault of
       Some err \<Rightarrow> Inl (wrap (''getting admin config '' @ key) err)
     | None \<Rightarrow> Inr (st key))"

definition store_Set :: "admin_config \<Rightarrow> fault \<Rightarrow> string \<Rightarrow> document \<Rightarrow> string option \<times> admin_config" where
  "store_Set st fault key value =
    (case fault of
       Some err \<Rightarrow> (Some (wrap (''setting admin config '' @ key) err), st)
     | None \<Rightarrow> (None, st(key \<mapsto> value)))"

definition store_Delete :: "admin_config \<Rightarrow> fault \<Rightarrow> string \<Rightarrow> string option \<times> admin_config" where
  "store_Delete st fault key =
    (case fault of
       Some err \<Rightarrow> (Some (wrap (''deleting admin config '' @ key) err), st)
     | None \<Rightarrow> (None, st(key := None)))"

definition store_ListAll :: "admin_config \<Rightarrow> fault \<Rightarrow> string + admin_config" where
  "store_ListAll st fault = run_sql fault ''listing admin config'' st"

text \<open>\<open>GetJSON\<close> into a variable that is zero before: its value after, and the error.\<close>

definition GetJSON :: "(document \<Rightarrow> 'a \<times> bool) \<Rightarrow> 'a \<Rightarrow> admin_config \<Rightarrow> fault \<Rightarrow> string \<Rightarrow> 'a \<times> string option" where
  "GetJSON read zero st fault key =
    (case store_Get st fault key of
       Inl err \<Rightarrow> (zero, Some err)
     | Inr None \<Rightarrow> (zero, None)
     | Inr (Some doc) \<Rightarrow> (case read doc of (x, ok) \<Rightarrow> (x, if ok then None else Some ''json'')))"

fun read_rules :: "document \<Rightarrow> Rule list \<times> bool" where
  "read_rules (RulesDoc rs) = (rs, True)"
| "read_rules (PatternsDoc ps) = (if ps = [] then ([], True) else (replicate (length ps)
     \<lparr>APIKeyPattern = '''', TenantID = '''', DailyLimitUSD = 0, MonthlyLimitUSD = 0, SoftLimitPct = 0, Action = ''''\<rparr>, False))"
| "read_rules (FlagsDoc fs) = ([], False)"
| "read_rules (Garbled rs ps fs) = (rs, False)"

fun read_patterns :: "document \<Rightarrow> string list \<times> bool" where
  "read_patterns (PatternsDoc ps) = (ps, True)"
| "read_patterns (RulesDoc rs) = (if rs = [] then ([], True) else (replicate (length rs) '''', False))"
| "read_patterns (FlagsDoc fs) = ([], False)"
| "read_patterns (Garbled rs ps fs) = (ps, False)"

fun read_flags :: "document \<Rightarrow> (string \<times> bool) list \<times> bool" where
  "read_flags (FlagsDoc fs) = (fs, True)"
| "read_flags (RulesDoc rs) = ([], rs = [])"
| "read_flags (PatternsDoc ps) = ([], ps = [])"
| "read_flags (Garbled rs ps fs) = (fs, False)"

abbreviation get_rules :: "admin_config \<Rightarrow> fault \<Rightarrow> Rule list \<times> string option" where
  "get_rules st fault \<equiv> GetJSON read_rules [] st fault ''budget_rules''"

abbreviation get_patterns :: "admin_config \<Rightarrow> fault \<Rightarrow> string list \<times> string option" where
  "get_patterns st fault \<equiv> GetJSON read_patterns [] st fault ''blocked_keys''"

section \<open>Blocklist\<close>

record Blocklist =
  bl_patterns :: "string list"
  bl_lastLoad :: time
  bl_ttl :: duration

text \<open>The zero \<open>time.Time\<close>, the first instant of year 1.\<close>

definition zero_time :: time where "zero_time = - (62135596800 * Second)"

definition NewBlocklist :: Blocklist where
  "NewBlocklist = \<lparr>bl_patterns = [], bl_lastLoad = zero_time, bl_ttl = 10 * Second\<rparr>"

definition bl_refresh :: "admin_config \<Rightarrow> fault \<Rightarrow> Blocklist \<Rightarrow> time \<Rightarrow> Blocklist" where
  "bl_refresh st fault b now = b\<lparr>bl_patterns := fst (get_patterns st fault), bl_lastLoad := now\<rparr>"

text \<open>\<open>now\<close> is the clock of \<open>time.Since\<close>, \<open>loaded\<close> the one of the reload.\<close>

definition IsBlocked :: "admin_config \<Rightarrow> fault \<Rightarrow> Blocklist \<Rightarrow> string \<Rightarrow> time \<Rightarrow> time \<Rightarrow> bool \<times> Blocklist" where
  "IsBlocked st fault b rawKey now loaded =
    (let b1 = (if time_Sub now (bl_lastLoad b) > bl_ttl b then bl_refresh st fault b loaded else b)
     in (list_ex (\<lambda>p. Matched p rawKey) (bl_patterns b1), b1))"

section \<open>Handlers\<close>

record apiKeyEntry =
  ak_APIKeyHash :: string
  ak_Requests :: int
  ak_TotalCostUSD :: float64

record BudgetStatus =
  bs_Pattern :: string
  bs_DailySpent :: float64
  bs_DailyLimit :: float64
  bs_MonthlySpent :: float64
  bs_MonthlyLimit :: float64
  bs_Action :: string

text \<open>The value that is encoded as the body; of a decoding error only the program's own words.\<close>

datatype admin_body =
    ErrorBody string
  | NoBody
  | RulesBody "Rule list"
  | RuleBody Rule
  | PatternsBody "string list"
  | PatternBody string
  | KeysBody "apiKeyEntry list"
  | FlagsBody "(string \<times> bool) list"
  | StatusBody "BudgetStatus list"

type_synonym admin_response = "int \<times> admin_body"

record admin =
  ad_store :: admin_config
  ad_budget :: "Manager option"
  ad_token :: string
  ad_blocklist :: "Blocklist option"

definition requireAuth :: "(request \<Rightarrow> admin \<Rightarrow> admin_response \<times> admin) \<Rightarrow> request \<Rightarrow> admin \<Rightarrow> admin_response \<times> admin" where
  "requireAuth next r h =
    (if ad_token h = '''' then ((403, ErrorBody ''admin API not configured''), h)
     else if header_Get (ReqHeader r) ''Authorization'' \<noteq> ''Bearer '' @ ad_token h
       then ((401, ErrorBody ''invalid admin token''), h)
     else if Method r \<noteq> ''GET'' \<and> header_Get (ReqHeader r) ''X-Requested-With'' \<noteq> ''XMLHttpRequest''
       then ((403, ErrorBody ''missing required header''), h)
     else next r h)"

definition internal_error :: admin_response where
  "internal_error = (500, ErrorBody ''internal server error'')"

definition handleListRules :: "fault \<Rightarrow> request \<Rightarrow> admin \<Rightarrow> admin_response \<times> admin" where
  "handleListRules fault r h =
    (case get_rules (ad_store h) fault of
       (rules, Some err) \<Rightarrow> (internal_error, h)
     | (rules, None) \<Rightarrow> ((200, RulesBody rules), h))"

text \<open>\<open>json.NewDecoder(r.Body).Decode\<close> reads the first value of the body.\<close>

definition Decode :: "'a decoder \<Rightarrow> 'a \<Rightarrow> string \<Rightarrow> 'a option" where
  "Decode dec zero body =
    (case parse_value (2 * length body + 2) 0 (skip_ws body) of None \<Rightarrow> None | Some (j, rest) \<Rightarrow> dec j zero)"

text \<open>\<open>strconv.ParseFloat\<close> on a number literal: the nearest double, an error when it overflows.\<close>

definition literal_value :: "string \<Rightarrow> rat" where
  "literal_value lit =
    (let neg = (lit \<noteq> [] \<and> hd lit = CHR ''-'');
         s = (if neg then tl lit else lit);
         (int_part, s1) = scan_digits s;
         (frac_part, s2) = (case s1 of c # t \<Rightarrow> if c = CHR ''.'' then scan_digits t else ([], s1) | [] \<Rightarrow> ([], s1));
         e = (case s2 of
                c # t \<Rightarrow> (case t of
                    d # u \<Rightarrow> if d = CHR ''-'' then - decimal u else if d = CHR ''+'' then decimal u else decimal t
                  | [] \<Rightarrow> 0)
              | [] \<Rightarrow> 0);
         v = of_int (decimal (int_part @ frac_part)) * (10 :: rat) powi (e - int (length frac_part))
     in if neg then - v else v)"

definition decode_float :: "float64 decoder" where
  "decode_float j old =
    (case j of
       JNull \<Rightarrow> Some old
     | JNum lit \<Rightarrow> let v = literal_value lit in if \<bar>v\<bar> < 2 ^ 1024 - 2 ^ 970 then Some (fl v) else None
     | _ \<Rightarrow> None)"

definition Rule_fields :: "Rule fields" where
  "Rule_fields = [
    (''api_key_pattern'', field APIKeyPattern APIKeyPattern_update decode_string),
    (''tenant_id'', field TenantID TenantID_update decode_string),
    (''daily_limit_usd'', field DailyLimitUSD DailyLimitUSD_update decode_float),
    (''monthly_limit_usd'', field MonthlyLimitUSD MonthlyLimitUSD_update decode_float),
    (''soft_limit_pct'', field SoftLimitPct SoftLimitPct_update decode_float),
    (''action'', field Action Action_update decode_string)]"

definition zero_rule :: Rule where
  "zero_rule = \<lparr>APIKeyPattern = '''', TenantID = '''', DailyLimitUSD = 0, MonthlyLimitUSD = 0, SoftLimitPct = 0, Action = ''''\<rparr>"

definition update_manager :: "Rule list \<Rightarrow> admin \<Rightarrow> admin" where
  "update_manager rules h = h\<lparr>ad_budget := map_option (\<lambda>m. UpdateRules m rules) (ad_budget h)\<rparr>"

definition handleCreateRule :: "fault \<Rightarrow> fault \<Rightarrow> request \<Rightarrow> admin \<Rightarrow> admin_response \<times> admin" where
  "handleCreateRule gfault sfault r h =
    (case Decode (decode_struct Rule_fields) zero_rule (ReqBody r) of
       None \<Rightarrow> ((400, ErrorBody ''invalid rule''), h)
     | Some rule \<Rightarrow>
         let rules = fst (get_rules (ad_store h) gfault) @ [rule] in
         (case store_Set (ad_store h) sfault ''budget_rules'' (RulesDoc rules) of
            (Some err, st) \<Rightarrow> (internal_error, h\<lparr>ad_store := st\<rparr>)
          | (None, st) \<Rightarrow> ((201, RuleBody rule), update_manager rules (h\<lparr>ad_store := st\<rparr>))))"

definition handleDeleteRule :: "fault \<Rightarrow> fault \<Rightarrow> request \<Rightarrow> admin \<Rightarrow> admin_response \<times> admin" where
  "handleDeleteRule gfault sfault r h =
    (let pattern = query_Get (RawQuery r) ''pattern'' in
     if pattern = '''' then ((400, ErrorBody ''pattern query parameter required''), h)
     else
       let rules = fst (get_rules (ad_store h) gfault);
           filtered = filter (\<lambda>rule. APIKeyPattern rule \<noteq> pattern) rules;
           found = list_ex (\<lambda>rule. APIKeyPattern rule = pattern) rules
       in if \<not> found then ((404, ErrorBody ''rule not found''), h)
          else (case store_Set (ad_store h) sfault ''budget_rules'' (RulesDoc filtered) of
              (Some err, st) \<Rightarrow> (internal_error, h\<lparr>ad_store := st\<rparr>)
            | (None, st) \<Rightarrow> ((204, NoBody), update_manager filtered (h\<lparr>ad_store := st\<rparr>))))"

record blockRequest =
  br_Pattern :: string

definition refresh_blocklist :: "fault \<Rightarrow> time \<Rightarrow> admin \<Rightarrow> admin" where
  "refresh_blocklist fault now h =
    h\<lparr>ad_blocklist := map_option (\<lambda>b. bl_refresh (ad_store h) fault b now) (ad_blocklist h)\<rparr>"

definition handleBlockKey :: "fault \<Rightarrow> fault \<Rightarrow> fault \<Rightarrow> time \<Rightarrow> request \<Rightarrow> admin \<Rightarrow> admin_response \<times> admin" where
  "handleBlockKey gfault sfault rfault now r h =
    (case Decode (decode_struct [(''pattern'', field br_Pattern br_Pattern_update decode_string)]) \<lparr>br_Pattern = ''''\<rparr> (ReqBody r) of
       None \<Rightarrow> ((400, ErrorBody ''invalid request''), h)
     | Some req \<Rightarrow>
         if br_Pattern req = '''' then ((400, ErrorBody ''pattern is required''), h)
         else
           let patterns = fst (get_patterns (ad_store h) gfault) @ [br_Pattern req] in
           (case store_Set (ad_store h) sfault ''blocked_keys'' (PatternsDoc patterns) of
              (Some err, st) \<Rightarrow> (internal_error, h\<lparr>ad_store := st\<rparr>)
            | (None, st) \<Rightarrow> ((201, PatternBody (br_Pattern req)), refresh_blocklist rfault now (h\<lparr>ad_store := st\<rparr>))))"

definition handleUnblockKey :: "fault \<Rightarrow> fault \<Rightarrow> fault \<Rightarrow> time \<Rightarrow> request \<Rightarrow> admin \<Rightarrow> admin_response \<times> admin" where
  "handleUnblockKey gfault sfault rfault now r h =
    (let pattern = query_Get (RawQuery r) ''pattern'' in
     if pattern = '''' then ((400, ErrorBody ''pattern query parameter required''), h)
     else
       let patterns = fst (get_patterns (ad_store h) gfault);
           filtered = filter (\<lambda>p. p \<noteq> pattern) patterns
       in if pattern \<notin> set patterns then ((404, ErrorBody ''pattern not found''), h)
          else (case store_Set (ad_store h) sfault ''blocked_keys'' (PatternsDoc filtered) of
              (Some err, st) \<Rightarrow> (internal_error, h\<lparr>ad_store := st\<rparr>)
            | (None, st) \<Rightarrow> ((204, NoBody), refresh_blocklist rfault now (h\<lparr>ad_store := st\<rparr>))))"

definition handleListBlocked :: "fault \<Rightarrow> request \<Rightarrow> admin \<Rightarrow> admin_response \<times> admin" where
  "handleListBlocked fault r h =
    (case get_patterns (ad_store h) fault of
       (ps, Some err) \<Rightarrow> (internal_error, h)
     | (ps, None) \<Rightarrow> ((200, PatternsBody ps), h))"

definition handleListProviders :: "fault \<Rightarrow> request \<Rightarrow> admin \<Rightarrow> admin_response \<times> admin" where
  "handleListProviders fault r h =
    (case GetJSON read_flags [] (ad_store h) fault ''providers_enabled'' of
       (fs, Some err) \<Rightarrow> (internal_error, h)
     | (fs, None) \<Rightarrow> ((200, FlagsBody fs), h))"

text \<open>The cost query of the ledger behind the handlers.\<close>

type_synonym cost_query = "CostFilter \<Rightarrow> string + CostEntry list"

definition by_key :: "time \<Rightarrow> time \<Rightarrow> CostFilter" where
  "by_key since until = \<lparr>cf_Since = since, cf_Until = until, cf_GroupBy = ''key'', cf_TenantID = ''''\<rparr>"

definition handleListAPIKeys :: "cost_query \<Rightarrow> time \<Rightarrow> request \<Rightarrow> admin \<Rightarrow> admin_response \<times> admin" where
  "handleListAPIKeys query now r h =
    (case query (by_key (monthStart now) now) of
       Inl err \<Rightarrow> (internal_error, h)
     | Inr entries \<Rightarrow> ((200, KeysBody (map (\<lambda>e. \<lparr>ak_APIKeyHash = ce_APIKeyHash e, ak_Requests = ce_Requests e,
         ak_TotalCostUSD = ce_TotalCostUSD e\<rparr>) entries)), h))"

definition total_cost :: "string + CostEntry list \<Rightarrow> float64" where
  "total_cost res = (case res of Inl err \<Rightarrow> 0 | Inr es \<Rightarrow> foldl (\<lambda>t e. fadd t (ce_TotalCostUSD e)) 0 es)"

definition handleBudgetStatus :: "cost_query \<Rightarrow> fault \<Rightarrow> time \<Rightarrow> request \<Rightarrow> admin \<Rightarrow> admin_response \<times> admin" where
  "handleBudgetStatus query fault now r h =
    (let rules = fst (get_rules (ad_store h) fault);
         totalDailySpend = total_cost (query (by_key (dayStart now) now));
         totalMonthlySpend = total_cost (query (by_key (monthStart now) now))
     in ((200, StatusBody
          (map (\<lambda>rule. \<lparr>bs_Pattern = APIKeyPattern rule, bs_DailySpent = totalDailySpend, bs_DailyLimit = DailyLimitUSD rule,
              bs_MonthlySpent = totalMonthlySpend, bs_MonthlyLimit = MonthlyLimitUSD rule, bs_Action = Action rule\<rparr>) rules @
           (case ad_budget h of
              None \<Rightarrow> []
            | Some m \<Rightarrow> if b_Enabled m then [\<lparr>bs_Pattern = ''(default)'', bs_DailySpent = totalDailySpend, bs_DailyLimit = 0,
                bs_MonthlySpent = totalMonthlySpend, bs_MonthlyLimit = 0, bs_Action = ''default''\<rparr>] else []))), h))"

text \<open>
  The routes; a pattern with method GET also serves HEAD. The environment of a request: the faults
  of its first and second store operation and of the blocklist reload, the clock and the ledger.
\<close>

record admin_env =
  ae_get :: fault
  ae_set :: fault
  ae_reload :: fault
  ae_now :: time
  ae_query :: cost_query

definition RegisterRoutes :: "admin_env \<Rightarrow> (string \<times> string \<times> (request \<Rightarrow> admin \<Rightarrow> admin_response \<times> admin)) list" where
  "RegisterRoutes e = [
    (''GET'', ''/api/admin/budgets/rules'', requireAuth (handleListRules (ae_get e))),
    (''POST'', ''/api/admin/budgets/rules'', requireAuth (handleCreateRule (ae_get e) (ae_set e))),
    (''DELETE'', ''/api/admin/budgets/rules'', requireAuth (handleDeleteRule (ae_get e) (ae_set e))),
    (''GET'', ''/api/admin/api-keys'', requireAuth (handleListAPIKeys (ae_query e) (ae_now e))),
    (''GET'', ''/api/admin/api-keys/blocked'', requireAuth (handleListBlocked (ae_get e))),
    (''POST'', ''/api/admin/api-keys/block'', requireAuth (handleBlockKey (ae_get e) (ae_set e) (ae_reload e) (ae_now e))),
    (''DELETE'', ''/api/admin/api-keys/block'', requireAuth (handleUnblockKey (ae_get e) (ae_set e) (ae_reload e) (ae_now e))),
    (''GET'', ''/api/admin/providers'', requireAuth (handleListProviders (ae_get e))),
    (''GET'', ''/api/admin/budgets/status'', requireAuth (handleBudgetStatus (ae_query e) (ae_get e) (ae_now e)))]"

definition admin_serve :: "admin_env \<Rightarrow> request \<Rightarrow> admin \<Rightarrow> (admin_response \<times> admin) option" where
  "admin_serve e r h =
    (case find (\<lambda>(m, p, _). (Method r = m \<or> m = ''GET'' \<and> Method r = ''HEAD'') \<and> Path r = p) (RegisterRoutes e) of
       None \<Rightarrow> None
     | Some (_, _, handler) \<Rightarrow> Some (handler r h))"

section \<open>Lemmas\<close>

definition authorized :: "admin \<Rightarrow> request \<Rightarrow> bool" where
  "authorized h r \<longleftrightarrow> ad_token h \<noteq> '''' \<and> header_Get (ReqHeader r) ''Authorization'' = ''Bearer '' @ ad_token h \<and>
     (Method r = ''GET'' \<or> header_Get (ReqHeader r) ''X-Requested-With'' = ''XMLHttpRequest'')"

lemma find_in_set: "find P xs = Some x \<Longrightarrow> x \<in> set xs \<and> P x"
  by (auto simp: find_Some_iff)

lemma requireAuth_unauthorized:
  "\<not> authorized h r \<Longrightarrow> requireAuth f r h = (resp, h') \<Longrightarrow> h' = h \<and> fst resp \<in> {401, 403}"
  by (auto simp: requireAuth_def authorized_def split: if_splits)

lemma routes_auth: "(m, p, f) \<in> set (RegisterRoutes e) \<Longrightarrow> \<exists>g. f = requireAuth g"
  by (auto simp: RegisterRoutes_def)

lemma get_patterns_set [simp]:
  "fst (get_patterns (st(''blocked_keys'' \<mapsto> PatternsDoc ps)) None) = ps"
  by (simp add: GetJSON_def store_Get_def)

lemma get_rules_set [simp]:
  "fst (get_rules (st(''budget_rules'' \<mapsto> RulesDoc rs)) None) = rs"
  by (simp add: GetJSON_def store_Get_def)

text \<open>A blocklist that was just loaded answers from the store, within and beyond its lifetime.\<close>

lemma IsBlocked_loaded:
  "fst (IsBlocked st None (bl_refresh st None b t) key now loaded) =
    list_ex (\<lambda>p. Matched p key) (fst (get_patterns st None))"
  by (simp add: IsBlocked_def bl_refresh_def Let_def)

text \<open>
  Calls of \<open>IsBlocked\<close> one after the other while the store changes: \<open>S t\<close> is the store at time \<open>t\<close>.
\<close>

fun bl_calls :: "(time \<Rightarrow> admin_config) \<Rightarrow> Blocklist \<Rightarrow> (string \<times> time \<times> time) list \<Rightarrow> Blocklist" where
  "bl_calls S b [] = b"
| "bl_calls S b ((key, now, loaded) # cs) = bl_calls S (snd (IsBlocked (S loaded) None b key now loaded)) cs"

definition bl_inv :: "(time \<Rightarrow> admin_config) \<Rightarrow> Blocklist \<Rightarrow> bool" where
  "bl_inv S b \<longleftrightarrow> bl_ttl b = 10 * Second \<and>
    (bl_lastLoad b = zero_time \<or> bl_patterns b = fst (get_patterns (S (bl_lastLoad b)) None))"

lemma bl_inv_calls: "bl_inv S b \<Longrightarrow> bl_inv S (bl_calls S b cs)"
  by (induction S b cs rule: bl_calls.induct) (auto simp: bl_inv_def IsBlocked_def bl_refresh_def Let_def)

section \<open>Properties\<close>



text \<open>
  Blocking takes effect at once: when the request to block a pattern is answered with success,
  the very next question whether a key is blocked is answered by the stored patterns and the new
  one, however recently the blocklist had been loaded.
\<close>

theorem block_immediate:
  assumes "handleBlockKey None None None t r h = ((201, PatternBody p), h')" and "ad_blocklist h = Some b"
  shows "\<exists>b'. ad_blocklist h' = Some b' \<and>
    fst (IsBlocked (ad_store h') None b' key now loaded) =
      (Matched p key \<or> list_ex (\<lambda>q. Matched q key) (fst (get_patterns (ad_store h) None)))"
  using assms
  by (auto simp: handleBlockKey_def Let_def store_Set_def refresh_blocklist_def IsBlocked_loaded internal_error_def
      split: option.splits if_splits)

definition block_request :: request where
  "block_request = \<lparr>Method = ''POST'', Host = '''', Path = ''/api/admin/api-keys/block'', RawQuery = '''',
     ReqHeader = Map.empty, ReqBody = ''{\"pattern\":\"sk-a*\"}''\<rparr>"

definition fresh_admin :: admin where
  "fresh_admin = \<lparr>ad_store = Map.empty, ad_budget = None, ad_token = ''t'', ad_blocklist = Some NewBlocklist\<rparr>"

lemma block_request_decodes:
  "Decode (decode_struct [(''pattern'', field br_Pattern br_Pattern_update decode_string)]) \<lparr>br_Pattern = ''''\<rparr>
     (ReqBody block_request) = Some \<lparr>br_Pattern = ''sk-a*''\<rparr>"
  by code_simp

theorem block_immediate_witness:
  "let h' = snd (handleBlockKey None None None 5 block_request fresh_admin)
   in \<exists>b'. ad_blocklist h' = Some b' \<and>
        fst (IsBlocked (ad_store h') None b' ''sk-abc'' 6 6) = Matched ''sk-a*'' ''sk-abc''"
  using block_immediate[of 5 block_request fresh_admin "''sk-a*''" _ NewBlocklist "''sk-abc''" 6 6]
  by (simp add: handleBlockKey_def block_request_decodes fresh_admin_def store_Set_def GetJSON_def store_Get_def)

text \<open>
  C30. An answer of the blocklist is never older than ten seconds: after any calls, while the stored
  patterns change, the answer is the one of the patterns that were stored at the load of this call
  or at some time in the ten seconds before it.
\<close>

theorem blocklist_staleness:
  assumes "zero_time + 10 * Second < now"
  shows "\<exists>t. (t = loaded \<or> now - 10 * Second \<le> t) \<and>
    fst (IsBlocked (S loaded) None (bl_calls S NewBlocklist calls) key now loaded) =
      list_ex (\<lambda>p. Matched p key) (fst (get_patterns (S t) None))"
proof -
  define b where "b = bl_calls S NewBlocklist calls"
  have inv: "bl_inv S b" unfolding b_def by (rule bl_inv_calls) (simp add: bl_inv_def NewBlocklist_def)
  show ?thesis
  proof (cases "time_Sub now (bl_lastLoad b) > bl_ttl b")
    case True
    then show ?thesis unfolding b_def[symmetric]
      by (intro exI[of _ loaded]) (simp add: IsBlocked_def bl_refresh_def)
  next
    case False
    moreover have "in_i64 (10 * Second)" by (simp add: in_i64_def Second_def)
    ultimately have le: "now - 10 * Second \<le> bl_lastLoad b"
      using inv time_Sub_greater[of "10 * Second" now "bl_lastLoad b"] by (auto simp: bl_inv_def Second_def)
    then have "bl_patterns b = fst (get_patterns (S (bl_lastLoad b)) None)"
      using inv assms by (auto simp: bl_inv_def)
    then show ?thesis unfolding b_def[symmetric]
      using le False by (intro exI[of _ "bl_lastLoad b"]) (simp add: IsBlocked_def)
  qed
qed

theorem blocklist_staleness_witness:
  "\<exists>t. (t = 20 * Second \<or> 20 * Second - 10 * Second \<le> t) \<and>
    fst (IsBlocked Map.empty None (bl_calls (\<lambda>_. Map.empty) NewBlocklist [(''k'', 0, 1)]) ''k'' (20 * Second) (20 * Second)) =
      list_ex (\<lambda>p. Matched p ''k'') (fst (get_patterns Map.empty None))"
  using blocklist_staleness[of "20 * Second" "20 * Second" "\<lambda>_. Map.empty" "[(''k'', 0, 1)]" "''k''"]
  by (simp add: zero_time_def Second_def)

text \<open>
  When the store cannot be read, the reload empties the blocklist: a key that is blocked by
  the stored patterns passes, and keeps passing for the lifetime of the cache.
\<close>

theorem blocklist_fails_open:
  assumes "bl_lastLoad b + bl_ttl b < now" and "in_i64 (bl_ttl b)" and "bl_ttl b < 2 ^ 63 - 1"
  shows "IsBlocked st (Some err) b key now loaded = (False, b\<lparr>bl_patterns := [], bl_lastLoad := loaded\<rparr>)"
  using assms time_Sub_greater[of "bl_ttl b" now "bl_lastLoad b"]
  by (simp add: IsBlocked_def bl_refresh_def GetJSON_def store_Get_def)

theorem blocklist_fails_open_witness:
  "let b = \<lparr>bl_patterns = [''sk-evil''], bl_lastLoad = 0, bl_ttl = 10 * Second\<rparr>;
       st = [''blocked_keys'' \<mapsto> PatternsDoc [''sk-evil'']]
   in IsBlocked st (Some ''database is locked'') b ''sk-evil'' (11 * Second) (11 * Second) =
      (False, \<lparr>bl_patterns = [], bl_lastLoad = 11 * Second, bl_ttl = 10 * Second\<rparr>)"
  using blocklist_fails_open[of "\<lparr>bl_patterns = [''sk-evil''], bl_lastLoad = 0, bl_ttl = 10 * Second\<rparr>" "11 * Second"]
  by (simp add: Second_def in_i64_def)

text \<open>
  A rule that is created over the API replaces the rules of the configuration file: afterwards
  the budget manager has the stored rules and the new one, whatever rules it was started with.
\<close>

theorem create_rule_drops_configured:
  assumes "handleCreateRule None None r h = ((201, RuleBody rule), h')" and "ad_budget h = Some m"
  shows "\<exists>m'. ad_budget h' = Some m' \<and> Rules (m_config m') = fst (get_rules (ad_store h) None) @ [rule] \<and>
    fst (get_rules (ad_store h') None) = Rules (m_config m')"
  using assms
  by (auto simp: handleCreateRule_def Let_def store_Set_def update_manager_def internal_error_def UpdateRules_def
      split: option.splits)

definition rule_request :: request where
  "rule_request = \<lparr>Method = ''POST'', Host = '''', Path = ''/api/admin/budgets/rules'', RawQuery = '''',
     ReqHeader = Map.empty, ReqBody = ''{\"api_key_pattern\":\"sk-*\",\"action\":\"block\"}''\<rparr>"

lemma rule_request_decodes:
  "Decode (decode_struct Rule_fields) zero_rule (ReqBody rule_request) =
     Some (zero_rule\<lparr>APIKeyPattern := ''sk-*'', Action := ''block''\<rparr>)"
  by code_simp

definition configured_admin :: admin where
  "configured_admin = \<lparr>ad_store = Map.empty,
     ad_budget = Some (NewManager \<lparr>Default = zero_rule, Rules = [zero_rule\<lparr>APIKeyPattern := ''sk-prod*'', DailyLimitUSD := 100\<rparr>]\<rparr>),
     ad_token = ''t'', ad_blocklist = None\<rparr>"

lemma rule_request_status:
  "fst (handleCreateRule None None rule_request configured_admin) =
     (201, RuleBody (zero_rule\<lparr>APIKeyPattern := ''sk-*'', Action := ''block''\<rparr>))"
  by (simp add: handleCreateRule_def rule_request_decodes store_Set_def Let_def)

theorem create_rule_drops_configured_witness:
  "\<exists>m'. ad_budget (snd (handleCreateRule None None rule_request configured_admin)) = Some m' \<and>
     Rules (m_config m') = [zero_rule\<lparr>APIKeyPattern := ''sk-*'', Action := ''block''\<rparr>]"
proof -
  obtain h' where h': "handleCreateRule None None rule_request configured_admin =
      ((201, RuleBody (zero_rule\<lparr>APIKeyPattern := ''sk-*'', Action := ''block''\<rparr>)), h')"
    using rule_request_status by (metis prod.collapse)
  have "ad_budget configured_admin = Some (NewManager \<lparr>Default = zero_rule,
      Rules = [zero_rule\<lparr>APIKeyPattern := ''sk-prod*'', DailyLimitUSD := 100\<rparr>]\<rparr>)"
    "fst (get_rules (ad_store configured_admin) None) = []"
    by (simp_all add: configured_admin_def GetJSON_def store_Get_def)
  then show ?thesis using create_rule_drops_configured[OF h'] h' by auto
qed

end
