(* ===== verification/RateLimit.thy ===== *)
theory RateLimit
  imports Glob
begin

text \<open>
  The request rate limiter (\<open>internal/ratelimit\<close>): a rule per API-key pattern, and per key
  hash one counter with an end time for the minute limit and one for the hour limit. Each
  operation runs under the limiter's mutex, so a run of the limiter is a sequence of
  \<open>Allow\<close> calls and of the cleanup goroutine's evictions.

  The locale \<open>window_limit\<close> is the contract of one table of windows; it is interpreted for
  the minute table and for the hour table, and carries the bounds on the number of requests
  that pass.
\<close>

section \<open>State and operations\<close>

record rl_rule =
  rl_APIKeyPattern :: string
  RequestsPerMinute :: int
  RequestsPerHour :: int

record rl_config =
  rl_Default :: rl_rule
  rl_Rules :: "rl_rule list"

record slidingWindow =
  sw_count :: int
  windowEnd :: time

type_synonym counters = "string \<rightharpoonup> slidingWindow"

record limiter =
  l_config :: rl_config
  minuteCounters :: counters
  hourCounters :: counters

definition rl_New :: "rl_config \<Rightarrow> limiter" where
  "rl_New cfg = \<lparr>l_config = cfg, minuteCounters = Map.empty, hourCounters = Map.empty\<rparr>"

definition rl_Enabled :: "limiter \<Rightarrow> bool" where
  "rl_Enabled l \<longleftrightarrow> RequestsPerMinute (rl_Default (l_config l)) > 0
     \<or> RequestsPerHour (rl_Default (l_config l)) > 0
     \<or> length (rl_Rules (l_config l)) > 0"

definition rl_mergeWithDefault :: "rl_config \<Rightarrow> rl_rule \<Rightarrow> rl_rule" where
  "rl_mergeWithDefault cfg r0 =
    (let r1 = (if RequestsPerMinute r0 \<le> 0
               then r0\<lparr>RequestsPerMinute := RequestsPerMinute (rl_Default cfg)\<rparr> else r0)
     in if RequestsPerHour r1 \<le> 0
        then r1\<lparr>RequestsPerHour := RequestsPerHour (rl_Default cfg)\<rparr> else r1)"

fun rl_firstMatch :: "rl_config \<Rightarrow> string \<Rightarrow> rl_rule list \<Rightarrow> rl_rule" where
  "rl_firstMatch cfg rawKey [] = rl_Default cfg"
| "rl_firstMatch cfg rawKey (r # rs) =
    (if Matched (rl_APIKeyPattern r) rawKey then rl_mergeWithDefault cfg r
     else rl_firstMatch cfg rawKey rs)"

definition rl_matchRule :: "rl_config \<Rightarrow> string \<Rightarrow> rl_rule" where
  "rl_matchRule cfg rawKey = rl_firstMatch cfg rawKey (rl_Rules cfg)"

definition getOrCreateWindow :: "counters \<Rightarrow> string \<Rightarrow> time \<Rightarrow> duration \<Rightarrow> slidingWindow \<times> counters" where
  "getOrCreateWindow cs key now dur =
    (let fresh = \<lparr>sw_count = 0, windowEnd = time_Add now dur\<rparr> in
     case cs key of
       None \<Rightarrow> (fresh, cs(key \<mapsto> fresh))
     | Some w \<Rightarrow> if time_After now (windowEnd w) then (fresh, cs(key \<mapsto> fresh)) else (w, cs))"

text \<open>\<open>counters[key].count++\<close>\<close>

definition incr :: "counters \<Rightarrow> string \<Rightarrow> counters" where
  "incr cs key = cs(key := map_option (\<lambda>w. w\<lparr>sw_count := i64 (sw_count w + 1)\<rparr>) (cs key))"

text \<open>
  \<open>Allow\<close>: the answer with its \<open>retryAfter\<close>, and the new state. \<open>now\<close> is the one clock
  reading it takes, under the lock.
\<close>

definition Allow :: "limiter \<Rightarrow> string \<Rightarrow> string \<Rightarrow> time \<Rightarrow> (bool \<times> duration) \<times> limiter" where
  "Allow l rawKey apiKeyHash now =
    (let rule = rl_matchRule (l_config l) rawKey in
     if RequestsPerMinute rule \<le> 0 \<and> RequestsPerHour rule \<le> 0 then ((True, 0), l)
     else
       let (minuteBlock, l1) =
         (if RequestsPerMinute rule > 0 then
            let (w, cs) = getOrCreateWindow (minuteCounters l) apiKeyHash now Minute in
            (if sw_count w \<ge> RequestsPerMinute rule then Some (time_Sub (windowEnd w) now) else None,
             l\<lparr>minuteCounters := cs\<rparr>)
          else (None, l))
       in case minuteBlock of
         Some retryAfter \<Rightarrow> ((False, retryAfter), l1)
       | None \<Rightarrow>
         let (hourBlock, l2) =
           (if RequestsPerHour rule > 0 then
              let (w, cs) = getOrCreateWindow (hourCounters l1) apiKeyHash now Hour in
              (if sw_count w \<ge> RequestsPerHour rule then Some (time_Sub (windowEnd w) now) else None,
               l1\<lparr>hourCounters := cs\<rparr>)
            else (None, l1))
         in case hourBlock of
           Some retryAfter \<Rightarrow> ((False, retryAfter), l2)
         | None \<Rightarrow>
            let l3 = (if RequestsPerMinute rule > 0
                      then l2\<lparr>minuteCounters := incr (minuteCounters l2) apiKeyHash\<rparr> else l2);
                l4 = (if RequestsPerHour rule > 0
                      then l3\<lparr>hourCounters := incr (hourCounters l3) apiKeyHash\<rparr> else l3)
            in ((True, 0), l4))"

definition drop_expired :: "time \<Rightarrow> counters \<Rightarrow> counters" where
  "drop_expired now cs = (\<lambda>key. case cs key of
     None \<Rightarrow> None | Some w \<Rightarrow> if time_After now (windowEnd w) then None else Some w)"

definition rl_evictExpired :: "limiter \<Rightarrow> time \<Rightarrow> limiter" where
  "rl_evictExpired l now =
    l\<lparr>minuteCounters := drop_expired now (minuteCounters l),
      hourCounters := drop_expired now (hourCounters l)\<rparr>"

section \<open>Runs\<close>

datatype rl_event = Req string string time | Evict time

fun rl_time :: "rl_event \<Rightarrow> time" where
  "rl_time (Req rawKey apiKeyHash now) = now"
| "rl_time (Evict now) = now"

text \<open>The number of requests with key hash \<open>h\<close> that a run lets through.\<close>

fun passed :: "string \<Rightarrow> limiter \<Rightarrow> rl_event list \<Rightarrow> nat" where
  "passed h l [] = 0"
| "passed h l (Req rawKey apiKeyHash now # es) =
    (case Allow l rawKey apiKeyHash now of ((ok, _), l') \<Rightarrow>
       (if ok \<and> apiKeyHash = h then 1 else 0) + passed h l' es)"
| "passed h l (Evict now # es) = passed h (rl_evictExpired l now) es"

fun rl_run :: "limiter \<Rightarrow> rl_event list \<Rightarrow> limiter" where
  "rl_run l [] = l"
| "rl_run l (Req rawKey apiKeyHash now # es) = rl_run (snd (Allow l rawKey apiKeyHash now)) es"
| "rl_run l (Evict now # es) = rl_run (rl_evictExpired l now) es"

text \<open>The limits of a configuration are Go \<open>int\<close>s.\<close>

definition rl_config_ok :: "rl_config \<Rightarrow> bool" where
  "rl_config_ok cfg \<longleftrightarrow> (\<forall>r \<in> set (rl_Default cfg # rl_Rules cfg).
     in_i64 (RequestsPerMinute r) \<and> in_i64 (RequestsPerHour r))"

text \<open>Whether an event is a request of the key \<open>h\<close>.\<close>

fun is_request_of :: "string \<Rightarrow> rl_event \<Rightarrow> bool" where
  "is_request_of h (Req rawKey apiKeyHash now) = (apiKeyHash = h)"
| "is_request_of h (Evict now) = False"

lemma rl_matchRule_ok:
  "rl_config_ok cfg \<Longrightarrow> in_i64 (RequestsPerMinute (rl_matchRule cfg rawKey))
     \<and> in_i64 (RequestsPerHour (rl_matchRule cfg rawKey))"
proof -
  assume ok: "rl_config_ok cfg"
  have "set rs \<subseteq> set (rl_Rules cfg) \<Longrightarrow> in_i64 (RequestsPerMinute (rl_firstMatch cfg rawKey rs))
     \<and> in_i64 (RequestsPerHour (rl_firstMatch cfg rawKey rs))" for rs
    using ok by (induction rs) (auto simp: rl_config_ok_def rl_mergeWithDefault_def Let_def)
  then show ?thesis by (simp add: rl_matchRule_def)
qed

section \<open>The contract of a table of windows\<close>

text \<open>The window a request at time \<open>now\<close> is counted in.\<close>

definition live_window :: "duration \<Rightarrow> time \<Rightarrow> slidingWindow option \<Rightarrow> slidingWindow" where
  "live_window dur now w =
    (case w of Some w' \<Rightarrow> if now > windowEnd w' then \<lparr>sw_count = 0, windowEnd = now + dur\<rparr> else w'
     | None \<Rightarrow> \<lparr>sw_count = 0, windowEnd = now + dur\<rparr>)"

locale window_limit =
  fixes allow :: "limiter \<Rightarrow> string \<Rightarrow> string \<Rightarrow> time \<Rightarrow> (bool \<times> duration) \<times> limiter"
    and evict :: "limiter \<Rightarrow> time \<Rightarrow> limiter"
    and table :: "limiter \<Rightarrow> counters"
    and dur :: duration
    and limit :: "rl_rule \<Rightarrow> int"
  assumes config_allow: "allow l rawKey key now = (r, l') \<Longrightarrow> l_config l' = l_config l"
    and config_evict: "l_config (evict l now) = l_config l"
    and other_key: "allow l rawKey key now = (r, l') \<Longrightarrow> key \<noteq> h \<Longrightarrow> table l' h = table l h"
    and refused: "allow l rawKey key now = ((False, d), l') \<Longrightarrow>
      table l' key = table l key \<or> table l' key = Some (live_window dur now (table l key))"
    and admitted: "allow l rawKey key now = ((True, d), l') \<Longrightarrow>
      0 < limit (rl_matchRule (l_config l) rawKey) \<Longrightarrow>
      (let w = live_window dur now (table l key) in
         sw_count w < limit (rl_matchRule (l_config l) rawKey) \<and>
         table l' key = Some (w\<lparr>sw_count := i64 (sw_count w + 1)\<rparr>))"
    and unlimited: "allow l rawKey key now = (r, l') \<Longrightarrow>
      limit (rl_matchRule (l_config l) rawKey) \<le> 0 \<Longrightarrow> table l' = table l"
    and evicted: "table (evict l now) h =
      (case table l h of None \<Rightarrow> None | Some w \<Rightarrow> if now > windowEnd w then None else Some w)"
    and dur_pos: "0 < dur"
begin

text \<open>The requests that pass, for any implementation of the contract.\<close>

fun count_passed :: "string \<Rightarrow> limiter \<Rightarrow> rl_event list \<Rightarrow> nat" where
  "count_passed h l [] = 0"
| "count_passed h l (Req rawKey key now # es) =
    (case allow l rawKey key now of ((ok, _), l') \<Rightarrow>
       (if ok \<and> key = h then 1 else 0) + count_passed h l' es)"
| "count_passed h l (Evict now # es) = count_passed h (evict l now) es"

text \<open>All requests of key \<open>h\<close> in \<open>es\<close> fall under a rule with the limit \<open>n\<close>.\<close>

definition governed :: "string \<Rightarrow> int \<Rightarrow> rl_config \<Rightarrow> rl_event list \<Rightarrow> bool" where
  "governed h n cfg es \<longleftrightarrow> (\<forall>rawKey now. Req rawKey h now \<in> set es \<longrightarrow> limit (rl_matchRule cfg rawKey) = n)"

lemma governed_Cons [simp]:
  "governed h n cfg (e # es) \<longleftrightarrow>
    (\<forall>rawKey now. e = Req rawKey h now \<longrightarrow> limit (rl_matchRule cfg rawKey) = n) \<and> governed h n cfg es"
  by (auto simp: governed_def)

definition nonneg :: "limiter \<Rightarrow> string \<Rightarrow> bool" where
  "nonneg l h \<longleftrightarrow> (\<forall>w. table l h = Some w \<longrightarrow> 0 \<le> sw_count w)"

text \<open>What one call does to the table entry of \<open>h\<close>: nothing, or a tick of the live window.\<close>

lemma allow_step:
  assumes al: "allow l rawKey key now = ((ok, d), l')" and nn: "nonneg l h"
    and lim: "key = h \<Longrightarrow> limit (rl_matchRule (l_config l) rawKey) = n" and n: "0 < n" "in_i64 n"
  defines "w \<equiv> live_window dur now (table l h)" and "tick \<equiv> (if ok \<and> key = h then 1 else 0 :: int)"
  shows "tick = 0 \<and> table l' h = table l h \<or>
    table l' h = Some (w\<lparr>sw_count := sw_count w + tick\<rparr>) \<and> (tick = 1 \<longrightarrow> sw_count w < n)"
proof (cases "ok \<and> key = h")
  case True
  have "0 \<le> sw_count w" using nn by (auto simp: w_def nonneg_def live_window_def split: option.splits)
  moreover have "sw_count w < n \<and> table l' h = Some (w\<lparr>sw_count := i64 (sw_count w + 1)\<rparr>)"
    using admitted[of l rawKey h now d l'] al lim n(1) True by (simp add: w_def Let_def)
  ultimately show ?thesis using n(2) True by (simp add: tick_def in_i64_def)
next
  case False
  then show ?thesis
    using other_key[OF al] refused[of l rawKey h now d l'] al
    by (cases "key = h") (auto simp: w_def tick_def)
qed

lemma live_window_nonneg: "nonneg l h \<Longrightarrow> 0 \<le> sw_count (live_window dur now (table l h))"
  by (auto simp: nonneg_def live_window_def split: option.splits)

lemma nonneg_allow:
  assumes al: "allow l rawKey key now = (r, l')" and nn: "nonneg l h"
    and lim: "in_i64 (limit (rl_matchRule (l_config l) rawKey))"
  shows "nonneg l' h"
proof (cases "0 < limit (rl_matchRule (l_config l) rawKey)")
  case True
  obtain ok d where "r = (ok, d)" by (cases r)
  then show ?thesis
    using allow_step[of l rawKey key now ok d l' h, OF _ nn _ True lim] al nn
      live_window_nonneg[OF nn, of now]
    by (auto simp: nonneg_def split: if_splits)
next
  case False
  then show ?thesis using unlimited[OF al] nn by (simp add: nonneg_def)
qed

lemma nonneg_evict: "nonneg l h \<Longrightarrow> nonneg (evict l now) h"
  by (auto simp: nonneg_def evicted split: option.splits if_splits)

text \<open>While a window lives, at most the rest of its allowance passes.\<close>

lemma within_window:
  assumes "table l h = Some w" "0 \<le> sw_count w" "0 < n" "in_i64 n"
    and "governed h n (l_config l) es" and "\<forall>e \<in> set es. rl_time e \<le> windowEnd w"
  shows "int (count_passed h l es) \<le> max 0 (n - sw_count w)"
  using assms
proof (induction es arbitrary: l w)
  case (Cons e es)
  show ?case
  proof (cases e)
    case (Evict now)
    have "table (evict l now) h = Some w" using Cons.prems by (simp add: Evict evicted)
    then show ?thesis using Cons.prems Cons.IH[of "evict l now" w] by (simp add: Evict config_evict)
  next
    case (Req rawKey key now)
    obtain ok d l' where al: "allow l rawKey key now = ((ok, d), l')" by (metis prod.exhaust)
    define tick where "tick = (if ok \<and> key = h then 1 else 0 :: int)"
    have total: "int (count_passed h l (e # es)) = tick + int (count_passed h l' es)"
      by (simp add: Req al tick_def)
    have "live_window dur now (table l h) = w"
      using Cons.prems(1,6) by (simp add: Req live_window_def)
    then have step: "tick = 0 \<and> table l' h = Some w \<or>
        table l' h = Some (w\<lparr>sw_count := sw_count w + tick\<rparr>) \<and> (tick = 1 \<longrightarrow> sw_count w < n)"
      using allow_step[OF al, of h n] Cons.prems by (auto simp: Req nonneg_def tick_def)
    then have "table l' h = Some (w\<lparr>sw_count := sw_count w + tick\<rparr>)" by auto
    then have "int (count_passed h l' es) \<le> max 0 (n - (sw_count w + tick))"
      using Cons.prems config_allow[OF al] Cons.IH[of l' "w\<lparr>sw_count := sw_count w + tick\<rparr>"]
      by (simp add: tick_def)
    then show ?thesis using step total by (auto simp: tick_def)
  qed
qed simp

text \<open>
  Over a span no longer than the window at most one window can begin, so at most twice the
  limit passes.
\<close>

definition allowance :: "int \<Rightarrow> slidingWindow option \<Rightarrow> int" where
  "allowance n w = (case w of None \<Rightarrow> 0 | Some w \<Rightarrow> max 0 (n - sw_count w))"

lemma allowance_nonneg [simp]: "0 \<le> allowance n w"
  by (simp add: allowance_def split: option.splits)

text \<open>A call that begins a new window: what is left of the span fits into that window.\<close>

lemma fresh_window:
  assumes "table l' h = Some (\<lparr>sw_count = tick, windowEnd = now + dur\<rparr>)" "0 \<le> tick" "tick \<le> 1"
    and "0 < n" "in_i64 n" "governed h n (l_config l') es" "\<forall>e \<in> set es. rl_time e \<le> now + dur"
  shows "tick + int (count_passed h l' es) \<le> n"
  using within_window[OF assms(1), of n es] assms(2-) by simp

lemma within_span:
  assumes "nonneg l h" "0 < n" "in_i64 n" and "governed h n (l_config l) es"
    and "\<forall>e \<in> set es. t \<le> rl_time e \<and> rl_time e \<le> t + dur"
  shows "int (count_passed h l es) \<le> allowance n (table l h) + n"
  using assms
proof (induction es arbitrary: l)
  case (Cons e es)
  show ?case
  proof (cases e)
    case (Evict now)
    have "int (count_passed h (evict l now) es) \<le> allowance n (table (evict l now) h) + n"
      using Cons.prems
      by (intro Cons.IH) (auto simp: evicted config_evict nonneg_def split: option.splits if_splits)
    then show ?thesis by (auto simp: Evict evicted allowance_def split: option.splits if_splits)
  next
    case (Req rawKey key now)
    obtain ok d l' where al: "allow l rawKey key now = ((ok, d), l')" by (metis prod.exhaust)
    define tick where "tick = (if ok \<and> key = h then 1 else 0 :: int)"
    define w where "w = live_window dur now (table l h)"
    have total: "int (count_passed h l (e # es)) = tick + int (count_passed h l' es)"
      by (simp add: Req al tick_def)
    have step: "tick = 0 \<and> table l' h = table l h \<or>
        table l' h = Some (w\<lparr>sw_count := sw_count w + tick\<rparr>) \<and> (tick = 1 \<longrightarrow> sw_count w < n)"
      using allow_step[OF al Cons.prems(1), of n] Cons.prems by (auto simp: Req tick_def w_def)
    have "nonneg l' h"
      using step Cons.prems(1) live_window_nonneg[OF Cons.prems(1), of now]
      by (auto simp: nonneg_def w_def tick_def)
    then have rest: "int (count_passed h l' es) \<le> allowance n (table l' h) + n"
      using Cons.prems config_allow[OF al] by (intro Cons.IH) simp_all
    consider "tick = 0" "table l' h = table l h" | "table l h = Some w" "table l' h = Some (w\<lparr>sw_count := sw_count w + tick\<rparr>)"
      | "w = \<lparr>sw_count = 0, windowEnd = now + dur\<rparr>" "table l' h = Some (w\<lparr>sw_count := sw_count w + tick\<rparr>)"
      using step by (auto simp: w_def live_window_def split: option.splits if_splits)
    then show ?thesis
    proof cases
      case 3
      have "tick + int (count_passed h l' es) \<le> n"
        using 3 Cons.prems config_allow[OF al] by (intro fresh_window) (auto simp: Req tick_def)
      then show ?thesis using total allowance_nonneg[of n "table l h"] by linarith
    qed (use total rest step in \<open>auto simp: allowance_def tick_def\<close>)
  qed
qed (simp add: allowance_def split: option.splits)

lemma allowance_le: "nonneg l h \<Longrightarrow> 0 < n \<Longrightarrow> allowance n (table l h) \<le> n"
  by (auto simp: allowance_def nonneg_def split: option.splits)

end

section \<open>The two tables\<close>

lemmas rl_defs = Let_def getOrCreateWindow_def live_window_def incr_def time_defs

interpretation minute: window_limit Allow rl_evictExpired minuteCounters Minute RequestsPerMinute
proof
  show "0 < Minute" by (simp add: duration_units)
next
  fix l now h
  show "minuteCounters (rl_evictExpired l now) h =
    (case minuteCounters l h of None \<Rightarrow> None | Some w \<Rightarrow> if now > windowEnd w then None else Some w)"
    by (simp add: rl_evictExpired_def drop_expired_def time_defs split: option.splits)
qed (auto simp: Allow_def rl_defs rl_evictExpired_def split: option.splits if_splits)

interpretation hour: window_limit Allow rl_evictExpired hourCounters Hour RequestsPerHour
proof
  show "0 < Hour" by (simp add: duration_units)
next
  fix l now h
  show "hourCounters (rl_evictExpired l now) h =
    (case hourCounters l h of None \<Rightarrow> None | Some w \<Rightarrow> if now > windowEnd w then None else Some w)"
    by (simp add: rl_evictExpired_def drop_expired_def time_defs split: option.splits)
qed (auto simp: Allow_def rl_defs rl_evictExpired_def split: option.splits if_splits)

lemma minute_count [simp]: "minute.count_passed = passed"
proof (intro ext)
  show "minute.count_passed h l es = passed h l es" for h l es
    by (induction h l es rule: passed.induct) (auto split: prod.splits)
qed

lemma hour_count [simp]: "hour.count_passed = passed"
proof (intro ext)
  show "hour.count_passed h l es = passed h l es" for h l es
    by (induction h l es rule: passed.induct) (auto split: prod.splits)
qed

section \<open>Invariants of a run\<close>

lemma rl_run_config [simp]: "l_config (rl_run l es) = l_config l"
  by (induction l es rule: rl_run.induct)
     (auto simp: minute.config_evict minute.config_allow[OF surjective_pairing])

lemma rl_run_nonneg:
  assumes "rl_config_ok (l_config l)" "minute.nonneg l h" "hour.nonneg l h"
  shows "minute.nonneg (rl_run l es) h \<and> hour.nonneg (rl_run l es) h"
  using assms
proof (induction l es rule: rl_run.induct)
  case (2 l rawKey key now es)
  obtain r l' where al: "Allow l rawKey key now = (r, l')" by (metis prod.exhaust)
  have "minute.nonneg l' h" "hour.nonneg l' h"
    using minute.nonneg_allow[OF al] hour.nonneg_allow[OF al] 2 rl_matchRule_ok by blast+
  then show ?case using 2 minute.config_allow[OF al] by (simp add: al)
next
  case (3 l now es)
  then show ?case by (simp add: minute.config_evict minute.nonneg_evict hour.nonneg_evict)
qed simp

lemma rl_New_nonneg [simp]: "minute.nonneg (rl_New cfg) h" "hour.nonneg (rl_New cfg) h"
  by (simp_all add: minute.nonneg_def hour.nonneg_def rl_New_def)

lemma rl_New_config [simp]: "l_config (rl_New cfg) = cfg"
  by (simp add: rl_New_def)

lemma passed_none: "\<nexists>rawKey now. Req rawKey h now \<in> set es \<Longrightarrow> passed h l es = 0"
proof (induction es arbitrary: l)
  case (Cons e es)
  then show ?case by (cases e) (auto split: prod.splits)
qed simp

text \<open>With a clock that does not go back, no window ends more than its length ahead.\<close>

definition windows_end :: "time \<Rightarrow> limiter \<Rightarrow> bool" where
  "windows_end t l \<longleftrightarrow>
    (\<forall>h w. minuteCounters l h = Some w \<longrightarrow> windowEnd w \<le> t + Minute) \<and>
    (\<forall>h w. hourCounters l h = Some w \<longrightarrow> windowEnd w \<le> t + Hour)"

lemma windows_end_Allow:
  "windows_end t l \<Longrightarrow> now \<le> t \<Longrightarrow> windows_end t (snd (Allow l rawKey key now))"
  by (auto simp: windows_end_def Allow_def rl_defs split: option.splits if_splits)

lemma windows_end_evict: "windows_end t l \<Longrightarrow> windows_end t (rl_evictExpired l now)"
  by (auto simp: windows_end_def rl_evictExpired_def drop_expired_def split: option.splits if_splits)

lemma windows_end_run:
  "windows_end t l \<Longrightarrow> \<forall>e \<in> set es. rl_time e \<le> t \<Longrightarrow> windows_end t (rl_run l es)"
  by (induction l es rule: rl_run.induct) (simp_all add: windows_end_Allow windows_end_evict)

text \<open>Two limiters that no request of key \<open>h\<close> from time \<open>t\<close> on can tell apart.\<close>

definition agree :: "string \<Rightarrow> time \<Rightarrow> limiter \<Rightarrow> limiter \<Rightarrow> bool" where
  "agree h t l m \<longleftrightarrow> l_config l = l_config m \<and>
    (\<forall>now \<ge> t. live_window Minute now (minuteCounters l h) = live_window Minute now (minuteCounters m h)
            \<and> live_window Hour now (hourCounters l h) = live_window Hour now (hourCounters m h))"

lemma agree_refl [simp]: "agree h t l l"
  by (simp add: agree_def)

lemma agree_later: "agree h t l m \<Longrightarrow> t \<le> t' \<Longrightarrow> agree h t' l m"
  by (simp add: agree_def)

lemma live_window_evicted:
  "now \<le> now' \<Longrightarrow> live_window dur now'
     (case w of None \<Rightarrow> None | Some w \<Rightarrow> if now > windowEnd w then None else Some w) = live_window dur now' w"
  by (simp add: live_window_def split: option.splits)

lemma agree_evict: "agree h t l m \<Longrightarrow> agree h (max t now) (rl_evictExpired l now) m"
  unfolding agree_def minute.evicted hour.evicted minute.config_evict
  by (simp add: live_window_evicted)

lemma agree_other:
  assumes "agree h t l m" "key \<noteq> h"
  shows "agree h t (snd (Allow l rawKey key now)) m"
proof -
  have al: "Allow l rawKey key now = (fst (Allow l rawKey key now), snd (Allow l rawKey key now))" by simp
  show ?thesis
    using assms(1)
    unfolding agree_def minute.other_key[OF al assms(2)] hour.other_key[OF al assms(2)] minute.config_allow[OF al]
    by assumption
qed

text \<open>\<open>Allow\<close> in terms of the windows that are live when it runs.\<close>

lemma getOrCreateWindow_live:
  "getOrCreateWindow cs key now dur =
    (live_window dur now (cs key), cs(key \<mapsto> live_window dur now (cs key)))"
  by (cases "cs key") (simp_all add: getOrCreateWindow_def live_window_def time_defs Let_def fun_upd_idem)

lemma agree_same:
  assumes ag: "agree h t l m" and now: "t \<le> now"
  shows "fst (Allow l rawKey h now) = fst (Allow m rawKey h now)
    \<and> agree h t (snd (Allow l rawKey h now)) (snd (Allow m rawKey h now))"
proof -
  have cfg: "l_config m = l_config l"
    and wm: "live_window Minute now (minuteCounters m h) = live_window Minute now (minuteCounters l h)"
    and wh: "live_window Hour now (hourCounters m h) = live_window Hour now (hourCounters l h)"
    using ag now by (simp_all add: agree_def)
  show ?thesis
    using ag unfolding Allow_def getOrCreateWindow_live Let_def cfg prod.case wm wh agree_def
    by (simp add: incr_def cfg wh)
qed

lemma passed_agree:
  assumes "agree h t l m" "sorted (map rl_time es)" "\<forall>e \<in> set es. t \<le> rl_time e"
  shows "passed h l es = passed h m (filter (is_request_of h) es)"
  using assms
proof (induction es arbitrary: l m t)
  case (Cons e es)
  show ?case
  proof (cases e)
    case (Req rawKey key now)
    have later: "agree h t l' m' \<Longrightarrow> passed h l' es = passed h m' (filter (is_request_of h) es)" for l' m'
      using Cons.IH[of t l' m'] Cons.prems by simp
    show ?thesis
    proof (cases "key = h")
      case True
      then show ?thesis
        using agree_same[OF Cons.prems(1), of now rawKey] later Cons.prems(3) by (simp add: Req case_prod_unfold)
    next
      case False
      then show ?thesis
        using agree_other[OF Cons.prems(1) False, of rawKey now] later by (simp add: Req case_prod_unfold)
    qed
  next
    case (Evict now)
    then show ?thesis
      using Cons.IH[of "max t now" "rl_evictExpired l now" m] agree_evict[OF Cons.prems(1), of now] Cons.prems
      by simp
  qed
qed simp

section \<open>Properties\<close>

text \<open>
  C7. After any history, the requests of one key that fall under a minute limit \<open>n\<close> and arrive
  within some span of one minute: at most \<open>2 n\<close> of them pass, whatever other keys, other
  requests and evictions the run interleaves.
\<close>

theorem Allow_minute_bound:
  assumes "rl_config_ok cfg" "0 < n"
    and "\<forall>rawKey now. Req rawKey h now \<in> set es \<longrightarrow> RequestsPerMinute (rl_matchRule cfg rawKey) = n"
    and "\<forall>e \<in> set es. t \<le> rl_time e \<and> rl_time e \<le> t + Minute"
  shows "int (passed h (rl_run (rl_New cfg) history) es) \<le> 2 * n"
proof (cases "\<exists>rawKey now. Req rawKey h now \<in> set es")
  case True
  let ?l = "rl_run (rl_New cfg) history"
  have "in_i64 n" using True assms(1,3) rl_matchRule_ok by blast
  then show ?thesis
    using minute.within_span[of ?l h n es t] minute.allowance_le[of ?l h n] rl_run_nonneg assms
    by (simp add: minute.governed_def)
qed (use assms(2) passed_none in simp)

theorem Allow_minute_bound_witness:
  "let cfg = \<lparr>rl_Default = \<lparr>rl_APIKeyPattern = '''', RequestsPerMinute = 1, RequestsPerHour = 0\<rparr>, rl_Rules = []\<rparr>;
       es = [Req ''sk-a'' ''h'' 5, Req ''sk-b'' ''g'' 5, Evict 6, Req ''sk-a'' ''h'' 7]
   in int (passed ''h'' (rl_run (rl_New cfg) [Req ''sk-a'' ''h'' 2]) es) \<le> 2 * 1"
  unfolding Let_def
  by (rule Allow_minute_bound[where t = 5])
     (auto simp: rl_config_ok_def in_i64_def rl_matchRule_def duration_units)

text \<open>
  The same for the hour limit: of the requests of one key that fall under an hour limit \<open>n\<close>
  and arrive within some span of one hour, at most \<open>2 n\<close> pass.
\<close>

theorem Allow_hour_bound:
  assumes "rl_config_ok cfg" "0 < n"
    and "\<forall>rawKey now. Req rawKey h now \<in> set es \<longrightarrow> RequestsPerHour (rl_matchRule cfg rawKey) = n"
    and "\<forall>e \<in> set es. t \<le> rl_time e \<and> rl_time e \<le> t + Hour"
  shows "int (passed h (rl_run (rl_New cfg) history) es) \<le> 2 * n"
proof (cases "\<exists>rawKey now. Req rawKey h now \<in> set es")
  case True
  let ?l = "rl_run (rl_New cfg) history"
  have "in_i64 n" using True assms(1,3) rl_matchRule_ok by blast
  then show ?thesis
    using hour.within_span[of ?l h n es t] hour.allowance_le[of ?l h n] rl_run_nonneg assms
    by (simp add: hour.governed_def)
qed (use assms(2) passed_none in simp)

theorem Allow_hour_bound_witness:
  "let cfg = \<lparr>rl_Default = \<lparr>rl_APIKeyPattern = '''', RequestsPerMinute = 0, RequestsPerHour = 1\<rparr>, rl_Rules = []\<rparr>;
       es = [Req ''sk-a'' ''h'' 5, Req ''sk-b'' ''g'' 5, Evict 6, Req ''sk-a'' ''h'' 7]
   in int (passed ''h'' (rl_run (rl_New cfg) [Req ''sk-a'' ''h'' 2]) es) \<le> 2 * 1"
  unfolding Let_def
  by (rule Allow_hour_bound[where t = 5])
     (auto simp: rl_config_ok_def in_i64_def rl_matchRule_def duration_units)

text \<open>
  More than the limit passes within two nanoseconds: the windows are fixed, not sliding. With
  a limit of three requests per minute and one request a minute earlier, five requests of one
  key pass, two at the end of a window and three at the start of the next.
\<close>

theorem Allow_burst:
  "let cfg = \<lparr>rl_Default = \<lparr>rl_APIKeyPattern = '''', RequestsPerMinute = 3, RequestsPerHour = 0\<rparr>, rl_Rules = []\<rparr>;
       l = rl_run (rl_New cfg) [Req ''k'' ''h'' 0];
       es = [Req ''k'' ''h'' Minute, Req ''k'' ''h'' Minute,
             Req ''k'' ''h'' (Minute + 1), Req ''k'' ''h'' (Minute + 1), Req ''k'' ''h'' (Minute + 1)]
   in passed ''h'' l es = 5"
  by (simp add: Let_def Allow_def getOrCreateWindow_live live_window_def incr_def rl_New_def rl_matchRule_def
      duration_units i64_def)



text \<open>
  Keys do not disturb each other, and evictions are invisible: with a clock that does not go
  back, a key passes exactly the requests it would pass if it were alone and nothing were
  ever evicted.
\<close>

theorem Allow_isolation:
  assumes "sorted (map rl_time es)"
  shows "passed h (rl_New cfg) es = passed h (rl_New cfg) (filter (is_request_of h) es)"
proof (cases es)
  case (Cons e es')
  then show ?thesis
    using passed_agree[of h "rl_time e" "rl_New cfg" "rl_New cfg" es] assms by auto
qed simp

theorem Allow_isolation_witness:
  "let cfg = \<lparr>rl_Default = \<lparr>rl_APIKeyPattern = '''', RequestsPerMinute = 1, RequestsPerHour = 0\<rparr>, rl_Rules = []\<rparr>
   in passed ''h'' (rl_New cfg) [Req ''k'' ''h'' 0, Req ''q'' ''g'' 1, Evict (Minute + 2), Req ''k'' ''h'' (Minute + 3)]
    = passed ''h'' (rl_New cfg) [Req ''k'' ''h'' 0, Req ''k'' ''h'' (Minute + 3)]"
  unfolding Let_def
  by (subst Allow_isolation) (simp_all add: duration_units)

end
