(* ===== verification/Tenant.thy ===== *)
theory Tenant
  imports Keys Glob
begin

text \<open>
  Tenant resolution (\<open>internal/tenant\<close>): resolvers as functions from requests to tenant ids,
  with the empty id for none.
\<close>

section \<open>Resolvers\<close>

type_synonym resolver = "request \<Rightarrow> string"

definition HeaderResolver :: resolver where
  "HeaderResolver r = header_Get (ReqHeader r) ''X-AgentLedger-Tenant''"

record KeyMapping =
  km_APIKeyPattern :: string
  km_TenantID :: string

definition extractRawKey :: "request \<Rightarrow> string" where
  "extractRawKey r =
    (let auth = header_Get (ReqHeader r) ''Authorization'' in
     if length auth > 7 \<and> take 7 auth = ''Bearer '' then drop 7 auth
     else
       let key = header_Get (ReqHeader r) ''x-api-key'' in
       if key \<noteq> '''' then key
       else
         let key = header_Get (ReqHeader r) ''X-Goog-Api-Key'' in
         if key \<noteq> '''' then key else '''')"

fun first_mapping :: "string \<Rightarrow> KeyMapping list \<Rightarrow> string" where
  "first_mapping key [] = ''''"
| "first_mapping key (m # ms) =
    (if Matched (km_APIKeyPattern m) key then km_TenantID m else first_mapping key ms)"

definition ConfigResolver :: "KeyMapping list \<Rightarrow> resolver" where
  "ConfigResolver mappings r =
    (let key = extractRawKey r in if key = '''' then '''' else first_mapping key mappings)"

fun ChainResolver :: "resolver list \<Rightarrow> resolver" where
  "ChainResolver [] r = ''''"
| "ChainResolver (res # rs) r = (let i = res r in if i \<noteq> '''' then i else ChainResolver rs r)"

section \<open>Properties\<close>

text \<open>The interface \<open>Resolver\<close>: a chain of resolvers answers as its first member with an answer.\<close>

lemma ChainResolver_find:
  "ChainResolver rs r = (case find (\<lambda>res. res r \<noteq> '''') rs of None \<Rightarrow> '''' | Some res \<Rightarrow> res r)"
  by (induction rs) (auto simp: Let_def)

lemma first_mapping_find:
  "first_mapping key ms = (case find (\<lambda>m. Matched (km_APIKeyPattern m) key) ms of
     None \<Rightarrow> '''' | Some m \<Rightarrow> km_TenantID m)"
  by (induction ms) auto

text \<open>
  The tenant of a request, with the resolvers chained as the server sets them up: the tenant
  header if it is not empty, otherwise the tenant of the first mapping whose pattern matches
  the key, if the request has a key.
\<close>

theorem tenant_resolution:
  "ChainResolver [HeaderResolver, ConfigResolver ms] r =
    (if header_Get (ReqHeader r) ''X-AgentLedger-Tenant'' \<noteq> ''''
     then header_Get (ReqHeader r) ''X-AgentLedger-Tenant''
     else if extractRawKey r = '''' then ''''
     else case find (\<lambda>m. Matched (km_APIKeyPattern m) (extractRawKey r)) ms of
       None \<Rightarrow> '''' | Some m \<Rightarrow> km_TenantID m)"
  by (simp add: HeaderResolver_def ConfigResolver_def Let_def first_mapping_find)

text \<open>
  The resolver reads the same key as the proxy from every request that has no \<open>api-key\<close>
  header and whose \<open>Authorization\<close> header is not a Bearer header with an empty token.
\<close>

theorem extractRawKey_same:
  assumes "header_Get (ReqHeader r) ''api-key'' = ''''"
    and "header_Get (ReqHeader r) ''Authorization'' \<noteq> ''Bearer ''"
  shows "extractRawKey r = ExtractAPIKey r"
proof -
  have "length a > 7 \<and> take 7 a = ''Bearer '' \<longleftrightarrow> a \<noteq> '''' \<and> take 7 a = ''Bearer ''" if "a \<noteq> ''Bearer ''" for a
    using that by (cases "length a \<le> 7") auto
  then show ?thesis
    using assms by (auto simp: extractRawKey_def ExtractAPIKey_def Let_def HasPrefix_Bearer TrimPrefix_Bearer)
qed

theorem extractRawKey_same_witness:
  "let r = \<lparr>Method = ''POST'', Host = '''', Path = ''/v1/messages'', RawQuery = '''',
            ReqHeader = [''X-Api-Key'' \<mapsto> [''sk-ant-1'']], ReqBody = ''''\<rparr>
   in extractRawKey r = ExtractAPIKey r"
  unfolding Let_def by (rule extractRawKey_same) (simp_all add: header_Get_def)

text \<open>
  The resolver does not read the \<open>api-key\<close> header of Azure OpenAI: with a mapping that matches
  every key, such a request has a key for the proxy but no tenant.
\<close>

theorem extractRawKey_misses_azure:
  "let r = \<lparr>Method = ''POST'', Host = '''', Path = ''/azure/x'', RawQuery = '''',
            ReqHeader = [''Api-Key'' \<mapsto> [''abc'']], ReqBody = ''''\<rparr>
   in ExtractAPIKey r = ''abc'' \<and>
      ConfigResolver [\<lparr>km_APIKeyPattern = ''*'', km_TenantID = ''acme''\<rparr>] r = '''' \<and>
      first_mapping (ExtractAPIKey r) [\<lparr>km_APIKeyPattern = ''*'', km_TenantID = ''acme''\<rparr>] = ''acme''"
  using Matched_plain_star[of "[]" "''abc''"]
  by (simp add: ExtractAPIKey_def ConfigResolver_def extractRawKey_def header_Get_def Let_def plain_def)

end
