(* ===== verification/Breaker.thy ===== *)
theory Breaker
  imports Http
begin

text \<open>
  The circuit breaker (\<open>internal/budget/circuit_breaker.go\<close>): a round tripper that counts
  consecutive failures of the one it wraps and rejects requests for a while after too many.

  First its operations as functions on its state and the refinement of a specification
  automaton; then the same code as atomic steps of concurrent calls, for what holds under
  every interleaving.
\<close>

section \<open>State and operations\<close>

datatype breakerState = stateClosed | stateOpen | stateHalfOpen

record BreakerTransport =
  b_state :: breakerState
  failures :: int
  maxFailures :: int
  timeout :: duration
  lastTripped :: time

definition ErrCircuitOpen :: string where
  "ErrCircuitOpen = ''circuit breaker is open: upstream unavailable''"

text \<open>The zero \<open>time.Time\<close> is year 1; here \<open>zeroTime\<close> is what the clock is set to.\<close>

definition NewBreakerTransport :: "int \<Rightarrow> duration \<Rightarrow> time \<Rightarrow> BreakerTransport" where
  "NewBreakerTransport maxFails tmo zeroTime =
    \<lparr>b_state = stateClosed, failures = 0, maxFailures = maxFails, timeout = tmo, lastTripped = zeroTime\<rparr>"

definition b_allow :: "BreakerTransport \<Rightarrow> time \<Rightarrow> bool \<times> BreakerTransport" where
  "b_allow bt now =
    (case b_state bt of
       stateOpen \<Rightarrow>
         if time_Sub now (lastTripped bt) > timeout bt
         then (True, bt\<lparr>b_state := stateHalfOpen\<rparr>) else (False, bt)
     | _ \<Rightarrow> (True, bt))"

definition recordFailure :: "BreakerTransport \<Rightarrow> time \<Rightarrow> BreakerTransport" where
  "recordFailure bt now =
    (let count = i64 (failures bt + 1); bt1 = bt\<lparr>failures := count\<rparr> in
     if count \<ge> maxFailures bt then bt1\<lparr>b_state := stateOpen, lastTripped := now\<rparr> else bt1)"

definition recordSuccess :: "BreakerTransport \<Rightarrow> BreakerTransport" where
  "recordSuccess bt = bt\<lparr>failures := 0, b_state := stateClosed\<rparr>"

text \<open>
  \<open>RoundTrip\<close>; \<open>t\<^sub>0\<close> and \<open>t\<^sub>1\<close> are the clock readings before and after the wrapped call.
\<close>

definition b_RoundTrip ::
  "roundTripper \<Rightarrow> BreakerTransport \<Rightarrow> request \<Rightarrow> time \<Rightarrow> time \<Rightarrow> (string + response) \<times> BreakerTransport" where
  "b_RoundTrip transport bt req t\<^sub>0 t\<^sub>1 =
    (case b_allow bt t\<^sub>0 of
       (False, bt1) \<Rightarrow> (Inl ErrCircuitOpen, bt1)
     | (True, bt1) \<Rightarrow>
        (case transport req of
           Inl err \<Rightarrow> (Inl err, recordFailure bt1 t\<^sub>1)
         | Inr resp \<Rightarrow>
             if StatusCode resp \<ge> 500 then (Inr resp, recordFailure bt1 t\<^sub>1)
             else (Inr resp, recordSuccess bt1)))"

definition State_name :: "BreakerTransport \<Rightarrow> string" where
  "State_name bt = (case b_state bt of
     stateOpen \<Rightarrow> ''open'' | stateHalfOpen \<Rightarrow> ''half-open'' | stateClosed \<Rightarrow> ''closed'')"

section \<open>Specification\<close>

text \<open>
  Between calls the breaker is closed after some number of consecutive failures, or open since
  a time. A call is a request, the outcome the upstream would give, and its two times.
\<close>

datatype spec = Closed nat | Open time

definition failed :: "string + response \<Rightarrow> bool" where
  "failed r \<longleftrightarrow> (case r of Inl _ \<Rightarrow> True | Inr resp \<Rightarrow> StatusCode resp \<ge> 500)"

fun spec_call :: "nat \<Rightarrow> duration \<Rightarrow> string + response \<Rightarrow> time \<Rightarrow> time \<Rightarrow> spec \<Rightarrow> (string + response) \<times> spec" where
  "spec_call m tmo r t\<^sub>0 t\<^sub>1 (Closed k) =
    (r, if \<not> failed r then Closed 0 else if Suc k < m then Closed (Suc k) else Open t\<^sub>1)"
| "spec_call m tmo r t\<^sub>0 t\<^sub>1 (Open t) =
    (if t\<^sub>0 - t \<le> tmo then (Inl ErrCircuitOpen, Open t)
     else (r, if failed r then Open t\<^sub>1 else Closed 0))"

definition b_abs :: "BreakerTransport \<Rightarrow> spec" where
  "b_abs bt = (if b_state bt = stateClosed then Closed (nat (failures bt)) else Open (lastTripped bt))"

text \<open>Between calls: closed with fewer failures than the maximum, or open with at least as many.\<close>

definition b_inv :: "BreakerTransport \<Rightarrow> bool" where
  "b_inv bt \<longleftrightarrow> 0 \<le> failures bt \<and> b_state bt \<noteq> stateHalfOpen \<and>
    (b_state bt = stateClosed \<longleftrightarrow> failures bt < maxFailures bt)"

type_synonym call = "request \<times> (string + response) \<times> time \<times> time"

fun b_run :: "BreakerTransport \<Rightarrow> call list \<Rightarrow> (string + response) list \<times> BreakerTransport" where
  "b_run bt [] = ([], bt)"
| "b_run bt ((req, r, t\<^sub>0, t\<^sub>1) # cs) =
    (case b_RoundTrip (\<lambda>_. r) bt req t\<^sub>0 t\<^sub>1 of (out, bt1) \<Rightarrow>
     case b_run bt1 cs of (outs, bt2) \<Rightarrow> (out # outs, bt2))"

fun spec_run :: "nat \<Rightarrow> duration \<Rightarrow> spec \<Rightarrow> call list \<Rightarrow> (string + response) list \<times> spec" where
  "spec_run m tmo s [] = ([], s)"
| "spec_run m tmo s ((req, r, t\<^sub>0, t\<^sub>1) # cs) =
    (case spec_call m tmo r t\<^sub>0 t\<^sub>1 s of (out, s1) \<Rightarrow>
     case spec_run m tmo s1 cs of (outs, s2) \<Rightarrow> (out # outs, s2))"

lemmas breaker_defs = b_RoundTrip_def b_allow_def recordFailure_def recordSuccess_def Let_def

lemma b_RoundTrip_refines:
  assumes "b_inv bt" "0 < maxFailures bt" "in_i64 (timeout bt)" "timeout bt < 2 ^ 63 - 1" "in_i64 (failures bt + 1)"
    and rt: "b_RoundTrip (\<lambda>_. r) bt req t\<^sub>0 t\<^sub>1 = (out, bt')"
  shows "spec_call (nat (maxFailures bt)) (timeout bt) r t\<^sub>0 t\<^sub>1 (b_abs bt) = (out, b_abs bt') \<and> b_inv bt' \<and>
    maxFailures bt' = maxFailures bt \<and> timeout bt' = timeout bt \<and> failures bt' \<le> failures bt + 1"
proof -
  have late: "time_Sub t\<^sub>0 (lastTripped bt) > timeout bt \<longleftrightarrow> t\<^sub>0 - lastTripped bt > timeout bt"
    using assms(3,4) by (simp add: time_Sub_greater)
  show ?thesis
    using assms(1,2,5) rt
    by (cases "b_state bt")
       (auto simp: breaker_defs late b_abs_def b_inv_def failed_def nat_add_distrib
          split: if_splits sum.splits)
qed

lemma b_run_refines:
  assumes "b_inv bt" "0 < maxFailures bt" "in_i64 (timeout bt)" "timeout bt < 2 ^ 63 - 1"
    and "failures bt + int (length cs) < 2 ^ 63" and "b_run bt cs = (outs, bt')"
  shows "spec_run (nat (maxFailures bt)) (timeout bt) (b_abs bt) cs = (outs, b_abs bt') \<and> b_inv bt' \<and>
    timeout bt' = timeout bt"
  using assms
proof (induction cs arbitrary: bt outs)
  case (Cons c cs)
  obtain req r t\<^sub>0 t\<^sub>1 where c: "c = (req, r, t\<^sub>0, t\<^sub>1)" by (metis prod.exhaust)
  obtain out bt1 where rt: "b_RoundTrip (\<lambda>_. r) bt req t\<^sub>0 t\<^sub>1 = (out, bt1)" by fastforce
  obtain outs' where rest: "b_run bt1 cs = (outs', bt')" and outs: "outs = out # outs'"
    using Cons.prems(6) by (auto simp: c rt split: prod.splits)
  have "in_i64 (failures bt + 1)" using Cons.prems(1,5) by (simp add: in_i64_def b_inv_def)
  note step = b_RoundTrip_refines[OF Cons.prems(1-4) this rt]
  then have "spec_run (nat (maxFailures bt1)) (timeout bt1) (b_abs bt1) cs = (outs', b_abs bt') \<and> b_inv bt' \<and>
      timeout bt' = timeout bt1"
    using Cons.prems rest by (intro Cons.IH) auto
  then show ?case using step by (simp add: c outs)
qed simp

lemma b_New_abs: "0 < m \<Longrightarrow> b_inv (NewBreakerTransport m tmo z) \<and> b_abs (NewBreakerTransport m tmo z) = Closed 0"
  by (simp add: NewBreakerTransport_def b_inv_def b_abs_def)

lemma spec_run_append:
  "spec_run m tmo s (cs @ ds) =
    (case spec_run m tmo s cs of (os, s1) \<Rightarrow> case spec_run m tmo s1 ds of (os', s2) \<Rightarrow> (os @ os', s2))"
  by (induction m tmo s cs rule: spec_run.induct) (auto split: prod.splits)

lemma spec_run_length: "length (fst (spec_run m tmo s cs)) = length cs"
  by (induction m tmo s cs rule: spec_run.induct) (auto split: prod.splits)

lemma spec_trips:
  assumes "\<forall>(_, r, _, _) \<in> set cs. failed r" "cs \<noteq> []" "k + length cs = m"
  shows "spec_run m tmo (Closed k) cs = (map (\<lambda>(_, r, _, _). r) cs, Open (snd (snd (snd (last cs)))))"
  using assms
proof (induction cs arbitrary: k)
  case (Cons c cs)
  then show ?case using Cons.IH[of "Suc k"] by (cases c; cases "cs = []") auto
qed simp

lemma spec_rejects:
  "\<forall>(_, _, t\<^sub>0, _) \<in> set cs. t\<^sub>0 - t \<le> tmo \<Longrightarrow>
    spec_run m tmo (Open t) cs = (replicate (length cs) (Inl ErrCircuitOpen), Open t)"
proof (induction cs)
  case (Cons c cs)
  then show ?case by (cases c) auto
qed simp

section \<open>Concurrent calls\<close>

text \<open>
  \<open>RoundTrip\<close> takes no lock of its own, so calls interleave at each atomic operation: the loads
  and stores of \<open>state\<close>, the addition to and the store of \<open>failures\<close>, and the accesses of
  \<open>lastTripped\<close> under the mutex. A program counter says where a call in flight is.
\<close>

datatype pc =
    AtOpen     \<comment> \<open>loaded \<open>stateOpen\<close>, before reading \<open>lastTripped\<close>\<close>
  | Swapping   \<comment> \<open>before the compare-and-swap\<close>
  | Sent       \<comment> \<open>at the wrapped transport\<close>
  | Tripping   \<comment> \<open>counted to the maximum, before taking the lock\<close>
  | Stamping   \<comment> \<open>holds the lock, stored \<open>stateOpen\<close>\<close>
  | Closing    \<comment> \<open>stored 0 failures, before storing \<open>stateClosed\<close>\<close>

record cb =
  shared :: BreakerTransport
  mutex :: "nat option"
  calls :: "nat \<rightharpoonup> pc"

datatype label = Admit | Look | Reject | Elapsed | Swap | Fail | Trip | Stamp | Succeed | Close

definition at_pc :: "cb \<Rightarrow> nat \<Rightarrow> pc option \<Rightarrow> cb" where
  "at_pc c i p = c\<lparr>calls := (calls c)(i := p)\<rparr>"

definition with_shared :: "cb \<Rightarrow> (BreakerTransport \<Rightarrow> BreakerTransport) \<Rightarrow> cb" where
  "with_shared c f = c\<lparr>shared := f (shared c)\<rparr>"

inductive cstep :: "cb \<Rightarrow> label \<Rightarrow> cb \<Rightarrow> bool" where
  admit: "calls c i = None \<Longrightarrow> b_state (shared c) \<noteq> stateOpen \<Longrightarrow> cstep c Admit (at_pc c i (Some Sent))"
| look: "calls c i = None \<Longrightarrow> b_state (shared c) = stateOpen \<Longrightarrow> cstep c Look (at_pc c i (Some AtOpen))"
| reject: "calls c i = Some AtOpen \<Longrightarrow> mutex c = None \<Longrightarrow>
    \<not> time_Sub now (lastTripped (shared c)) > timeout (shared c) \<Longrightarrow> cstep c Reject (at_pc c i None)"
| elapsed: "calls c i = Some AtOpen \<Longrightarrow> mutex c = None \<Longrightarrow>
    time_Sub now (lastTripped (shared c)) > timeout (shared c) \<Longrightarrow> cstep c Elapsed (at_pc c i (Some Swapping))"
| swap: "calls c i = Some Swapping \<Longrightarrow>
    cstep c Swap (at_pc (with_shared c (\<lambda>b. if b_state b = stateOpen then b\<lparr>b_state := stateHalfOpen\<rparr> else b)) i (Some Sent))"
| fail: "calls c i = Some Sent \<Longrightarrow>
    cstep c Fail (at_pc (with_shared c (\<lambda>b. b\<lparr>failures := i64 (failures b + 1)\<rparr>)) i
      (if i64 (failures (shared c) + 1) \<ge> maxFailures (shared c) then Some Tripping else None))"
| trip: "calls c i = Some Tripping \<Longrightarrow> mutex c = None \<Longrightarrow>
    cstep c Trip (at_pc (with_shared (c\<lparr>mutex := Some i\<rparr>) (\<lambda>b. b\<lparr>b_state := stateOpen\<rparr>)) i (Some Stamping))"
| stamp: "calls c i = Some Stamping \<Longrightarrow>
    cstep c Stamp (at_pc (with_shared (c\<lparr>mutex := None\<rparr>) (\<lambda>b. b\<lparr>lastTripped := now\<rparr>)) i None)"
| succeed: "calls c i = Some Sent \<Longrightarrow>
    cstep c Succeed (at_pc (with_shared c (\<lambda>b. b\<lparr>failures := 0\<rparr>)) i (Some Closing))"
| close: "calls c i = Some Closing \<Longrightarrow>
    cstep c Close (at_pc (with_shared c (\<lambda>b. b\<lparr>b_state := stateClosed\<rparr>)) i None)"

inductive reaches :: "cb \<Rightarrow> label list \<Rightarrow> cb \<Rightarrow> bool" where
  reaches_refl: "reaches c [] c"
| reaches_step: "reaches c ls d \<Longrightarrow> cstep d l e \<Longrightarrow> reaches c (ls @ [l]) e"

definition idle :: "BreakerTransport \<Rightarrow> cb" where
  "idle bt = \<lparr>shared = bt, mutex = None, calls = Map.empty\<rparr>"

lemmas cb_defs = at_pc_def with_shared_def

text \<open>One call on its own, its steps in order, does what \<open>b_RoundTrip\<close> does.\<close>

lemma reaches_Cons: "cstep c l d \<Longrightarrow> reaches d ls e \<Longrightarrow> reaches c (l # ls) e"
  by (rotate_tac, induction rule: reaches.induct)
     (metis append_Nil reaches.intros, metis append_Cons reaches_step)

lemma idle_upd [simp]: "at_pc (at_pc c i p) i q = at_pc c i q" "at_pc (idle bt) i None = idle bt"
  "at_pc (with_shared (at_pc c i p) f) i q = at_pc (with_shared c f) i q"
  "with_shared (idle bt) f = idle (f bt)" "calls (at_pc c i p) i = p" "shared (at_pc c i p) = shared c"
  "mutex (at_pc c i p) = mutex c" "calls (idle bt) = Map.empty" "shared (idle bt) = bt" "mutex (idle bt) = None"
  by (simp_all add: cb_defs idle_def fun_upd_idem)

lemma finish_failure:
  assumes "c = at_pc (idle bt) i (Some Sent)"
  shows "\<exists>ls. reaches c ls (idle (recordFailure bt now))"
proof (cases "i64 (failures bt + 1) \<ge> maxFailures bt")
  case True
  have f: "cstep c Fail (at_pc (idle (bt\<lparr>failures := i64 (failures bt + 1)\<rparr>)) i (Some Tripping))"
    using cstep.fail[of c i] True by (simp add: assms)
  let ?d = "at_pc (idle (bt\<lparr>failures := i64 (failures bt + 1)\<rparr>)) i (Some Tripping)"
  have t: "cstep ?d Trip (at_pc (with_shared (?d\<lparr>mutex := Some i\<rparr>) (\<lambda>b. b\<lparr>b_state := stateOpen\<rparr>)) i (Some Stamping))" (is "cstep _ _ ?e")
    by (rule cstep.trip) simp_all
  have s: "cstep ?e Stamp (idle (recordFailure bt now))"
    using cstep.stamp[of ?e i now] True
    by (simp add: recordFailure_def Let_def cb_defs idle_def fun_upd_idem)
  show ?thesis
    using reaches_Cons[OF f reaches_Cons[OF t reaches_Cons[OF s reaches_refl]]] by blast
next
  case False
  then have "cstep c Fail (idle (recordFailure bt now))"
    using cstep.fail[of c i] by (simp add: assms recordFailure_def Let_def)
  then show ?thesis using reaches_Cons reaches_refl by blast
qed

lemma finish_success:
  assumes "c = at_pc (idle bt) i (Some Sent)"
  shows "\<exists>ls. reaches c ls (idle (recordSuccess bt))"
proof -
  let ?d = "at_pc (idle (bt\<lparr>failures := 0\<rparr>)) i (Some Closing)"
  have "cstep c Succeed ?d" using cstep.succeed[of c i] by (simp add: assms)
  moreover have "cstep ?d Close (idle (recordSuccess bt))"
    using cstep.close[of ?d i] by (simp add: recordSuccess_def)
  ultimately show ?thesis using reaches_Cons reaches_refl by blast
qed

lemma begin_call:
  "\<exists>ls. reaches (idle bt) ls
     (case b_allow bt now of (False, bt1) \<Rightarrow> idle bt1 | (True, bt1) \<Rightarrow> at_pc (idle bt1) i (Some Sent))"
proof (cases "b_state bt = stateOpen")
  case True
  let ?d = "at_pc (idle bt) i (Some AtOpen)"
  have l: "cstep (idle bt) Look ?d" using True by (intro cstep.look) simp_all
  show ?thesis
  proof (cases "time_Sub now (lastTripped bt) > timeout bt")
    case late: True
    let ?e = "at_pc (idle bt) i (Some Swapping)"
    have e: "cstep ?d Elapsed ?e" using cstep.elapsed[of ?d i now] late by simp
    have "cstep ?e Swap (at_pc (idle (bt\<lparr>b_state := stateHalfOpen\<rparr>)) i (Some Sent))"
      using cstep.swap[of ?e i] True by simp
    then show ?thesis
      using reaches_Cons[OF l reaches_Cons[OF e reaches_Cons[OF _ reaches_refl]]] True late
      by (force simp: b_allow_def)
  next
    case False
    then have "cstep ?d Reject (idle bt)" using cstep.reject[of ?d i now] by simp
    then show ?thesis
      using reaches_Cons[OF l reaches_Cons[OF _ reaches_refl]] True False by (force simp: b_allow_def)
  qed
next
  case False
  then have "cstep (idle bt) Admit (at_pc (idle bt) i (Some Sent))" by (intro cstep.admit) simp_all
  then show ?thesis
    using reaches_Cons[OF _ reaches_refl] False by (force simp: b_allow_def split: breakerState.splits)
qed

lemma reaches_trans: "reaches c ls d \<Longrightarrow> reaches d ls' e \<Longrightarrow> reaches c (ls @ ls') e"
  by (rotate_tac, induction rule: reaches.induct) (simp, metis append_assoc reaches_step)

text \<open>What holds of every reachable state: no trip before enough failures.\<close>

definition quiet :: "nat \<Rightarrow> cb \<Rightarrow> bool" where
  "quiet n c \<longleftrightarrow> 0 \<le> failures (shared c) \<and> failures (shared c) \<le> int n \<and>
    b_state (shared c) = stateClosed \<and> ran (calls c) \<subseteq> {Sent, Closing}"

lemma quiet_step:
  assumes "cstep c l d" "quiet n c" "m = n + (if l = Fail then 1 else 0)"
    and "int m < maxFailures (shared c)" "in_i64 (maxFailures (shared c))"
  shows "quiet m d \<and> maxFailures (shared d) = maxFailures (shared c) \<and> l \<noteq> Reject"
  using assms
proof (induction rule: cstep.induct)
  case (fail c i)
  then have "i64 (failures (shared c) + 1) = failures (shared c) + 1"
    by (intro i64_id) (simp add: quiet_def in_i64_def)
  then show ?case using fail by (auto simp: quiet_def cb_defs ran_def split: if_splits)
qed (auto simp: quiet_def cb_defs ran_def split: if_splits)

lemma quiet_reaches:
  assumes "reaches (idle (NewBreakerTransport m tmo z)) ls c"
    and "int (count_list ls Fail) < m" "in_i64 m"
  shows "quiet (count_list ls Fail) c \<and> maxFailures (shared c) = m \<and> Reject \<notin> set ls"
  using assms
proof (induction "idle (NewBreakerTransport m tmo z)" ls c rule: reaches.induct)
  case reaches_refl
  then show ?case by (simp add: quiet_def NewBreakerTransport_def)
next
  case (reaches_step ls d l e)
  then have IH: "quiet (count_list ls Fail) d \<and> maxFailures (shared d) = m \<and> Reject \<notin> set ls"
    by (simp split: if_splits)
  then have "quiet (count_list (ls @ [l]) Fail) e \<and> maxFailures (shared e) = maxFailures (shared d) \<and> l \<noteq> Reject"
    using reaches_step.prems by (intro quiet_step[OF reaches_step(3), of "count_list ls Fail"]) auto
  then show ?case using IH by auto
qed

lemma sequential_steps: "\<exists>ls. reaches (idle bt) ls (idle (snd (b_RoundTrip transport bt req t\<^sub>0 t\<^sub>1)))"
proof -
  obtain ok bt1 where al: "b_allow bt t\<^sub>0 = (ok, bt1)" by fastforce
  obtain ls where first: "reaches (idle bt) ls (if ok then at_pc (idle bt1) 0 (Some Sent) else idle bt1)"
    using begin_call[of bt 0 t\<^sub>0] by (auto simp: al split: bool.splits)
  show ?thesis
  proof (cases ok)
    case True
    have "\<exists>ls. reaches (at_pc (idle bt1) 0 (Some Sent)) ls (idle (snd (b_RoundTrip transport bt req t\<^sub>0 t\<^sub>1)))"
      using finish_failure[OF refl, of bt1 0 t\<^sub>1] finish_success[OF refl, of bt1 0] True
      by (auto simp: b_RoundTrip_def al split: sum.splits)
    then show ?thesis using first True by (auto intro: reaches_trans)
  next
    case False
    then show ?thesis using first by (auto simp: b_RoundTrip_def al)
  qed
qed

lemma b_run_reaches: "\<exists>ls. reaches (idle bt) ls (idle (snd (b_run bt cs)))"
proof (induction bt cs rule: b_run.induct)
  case (1 bt)
  then show ?case using reaches_refl by auto
next
  case (2 bt req r t\<^sub>0 t\<^sub>1 cs)
  obtain out bt1 where rt: "b_RoundTrip (\<lambda>_. r) bt req t\<^sub>0 t\<^sub>1 = (out, bt1)" by fastforce
  obtain ls where "reaches (idle bt) ls (idle bt1)"
    using sequential_steps[of bt "\<lambda>_. r" req t\<^sub>0 t\<^sub>1] by (auto simp: rt)
  then show ?case using 2[OF rt[symmetric]] by (auto simp: rt split: prod.splits dest: reaches_trans)
qed

text \<open>Once half-open, the breaker admits any number of calls before the first one is answered.\<close>

lemma half_open_admits:
  assumes "b_state (shared c) = stateHalfOpen" "finite (dom (calls c))"
  shows "\<exists>ls d. reaches c ls d \<and> b_state (shared d) = stateHalfOpen \<and> finite (dom (calls d)) \<and>
    n \<le> card {i. calls d i = Some Sent}"
proof (induction n)
  case 0
  then show ?case using assms reaches_refl by auto
next
  case (Suc n)
  then obtain ls d where d: "reaches c ls d" "b_state (shared d) = stateHalfOpen" "finite (dom (calls d))"
    "n \<le> card {i. calls d i = Some Sent}" by blast
  obtain i where i: "i \<notin> dom (calls d)" using ex_new_if_finite[OF infinite_UNIV_nat d(3)] by blast
  let ?e = "at_pc d i (Some Sent)"
  have "{j. calls ?e j = Some Sent} = insert i {j. calls d j = Some Sent}" using i by (auto simp: cb_defs)
  moreover have "finite {j. calls d j = Some Sent}" by (rule finite_subset[OF _ d(3)]) auto
  ultimately have "Suc n \<le> card {j. calls ?e j = Some Sent}" using d(4) i by (simp add: domIff)
  moreover have "reaches c (ls @ [Admit]) ?e"
    using d i by (intro reaches_step[OF d(1)] cstep.admit) (auto simp: domIff)
  moreover have "finite (dom (calls ?e))" using d(3) by (simp add: at_pc_def)
  ultimately show ?case using d(2) by (intro exI[of _ "ls @ [Admit]"] exI[of _ ?e]) simp
qed

lemma reaches_half_open:
  assumes "0 < m" "in_i64 m" "in_i64 tmo" "tmo < 2 ^ 63 - 1"
  shows "\<exists>ls c. reaches (idle (NewBreakerTransport m tmo z)) ls c \<and> b_state (shared c) = stateHalfOpen \<and>
    finite (dom (calls c))"
proof -
  let ?bt = "NewBreakerTransport m tmo z" and ?cs = "replicate (nat m) (undefined, Inl [], 0, 0)"
  obtain outs bt where run: "b_run ?bt ?cs = (outs, bt)" by fastforce
  have spec: "spec_run (nat m) tmo (Closed 0) ?cs = (outs, b_abs bt) \<and> b_inv bt \<and> timeout bt = tmo"
    using b_run_refines[OF _ _ _ _ _ run] b_New_abs[OF assms(1), of tmo z] assms
    by (simp add: NewBreakerTransport_def in_i64_def)
  then have opened: "b_state bt = stateOpen"
    using spec_trips[of ?cs 0 "nat m" tmo] assms(1)
    by (cases "b_state bt") (auto simp: b_abs_def b_inv_def failed_def split: if_splits)
  obtain ls where first: "reaches (idle ?bt) ls (idle bt)" using b_run_reaches[of ?bt ?cs] by (auto simp: run)
  obtain ls' where "reaches (idle bt) ls' (at_pc (idle (bt\<lparr>b_state := stateHalfOpen\<rparr>)) 0 (Some Sent))"
    using begin_call[of bt 0 "lastTripped bt + tmo + 1"] opened spec assms(3,4)
    by (auto simp: b_allow_def time_Sub_def in_i64_def)
  with first show ?thesis
    by (intro exI[of _ "ls @ ls'"] exI conjI, rule reaches_trans) (auto simp: at_pc_def idle_def)
qed

section \<open>Properties\<close>

text \<open>
  C6. The breaker implements its specification. From a new breaker, any sequence of calls gets the
  answers of the automaton that counts consecutive failures, opens at the configured number,
  rejects until the timeout is over and then lets the next call decide; and its state is the
  automaton's.
\<close>

theorem breaker_refines_spec:
  assumes "0 < m" "in_i64 m" "in_i64 tmo" "tmo < 2 ^ 63 - 1" "int (length cs) < 2 ^ 63"
    and "b_run (NewBreakerTransport m tmo z) cs = (outs, bt)"
  shows "spec_run (nat m) tmo (Closed 0) cs = (outs, b_abs bt)"
  using b_run_refines[of "NewBreakerTransport m tmo z" cs outs bt] b_New_abs[OF assms(1), of tmo z] assms
  by (simp add: NewBreakerTransport_def)

definition ok_response :: "int \<Rightarrow> string + response" where
  "ok_response n = Inr \<lparr>StatusCode = n, RespHeader = Map.empty, RespBody = ''''\<rparr>"

definition a_request :: request where
  "a_request = \<lparr>Method = ''POST'', Host = '''', Path = ''/v1/chat/completions'', RawQuery = '''',
     ReqHeader = Map.empty, ReqBody = ''''\<rparr>"

theorem breaker_refines_spec_witness:
  "let cs = [(a_request, ok_response 500, 1, 2), (a_request, Inl ''dial'', 3, 4), (a_request, ok_response 200, 5, 6),
             (a_request, ok_response 200, 20, 21)]
   in spec_run 2 10 (Closed 0) cs =
     ([ok_response 500, Inl ''dial'', Inl ErrCircuitOpen, ok_response 200],
      b_abs (snd (b_run (NewBreakerTransport 2 10 0) cs)))"
  unfolding Let_def
  by (rule breaker_refines_spec[of 2, simplified])
     (simp_all add: in_i64_def breaker_defs NewBreakerTransport_def ok_response_def time_Sub_def i64_def)

text \<open>
  Fail fast. After the breaker has just recovered or was new, as many consecutive failures as
  configured pass through, and then every call within the timeout of the last one is rejected
  without reaching the upstream; the breaker stays open.
\<close>

theorem breaker_fails_fast:
  assumes "0 < m" "in_i64 m" "in_i64 tmo" "tmo < 2 ^ 63 - 1" "int (length cs + length ds) < 2 ^ 63"
    and "length cs = nat m" "\<forall>(_, r, _, _) \<in> set cs. failed r"
    and "\<forall>(_, _, t\<^sub>0, _) \<in> set ds. t\<^sub>0 - snd (snd (snd (last cs))) \<le> tmo"
    and "b_run (NewBreakerTransport m tmo z) (cs @ ds) = (outs, bt)"
  shows "outs = map (\<lambda>(_, r, _, _). r) cs @ replicate (length ds) (Inl ErrCircuitOpen) \<and>
    State_name bt = ''open''"
proof -
  let ?bt = "NewBreakerTransport m tmo z"
  have spec: "spec_run (nat m) tmo (Closed 0) (cs @ ds) = (outs, b_abs bt)" "b_inv bt"
    using b_run_refines[of ?bt "cs @ ds" outs bt] b_New_abs[OF assms(1), of tmo z] assms
    by (simp_all add: NewBreakerTransport_def)
  have "cs \<noteq> []" using assms(1,6) by auto
  then have "spec_run (nat m) tmo (Closed 0) (cs @ ds) =
      (map (\<lambda>(_, r, _, _). r) cs @ replicate (length ds) (Inl ErrCircuitOpen), Open (snd (snd (snd (last cs)))))"
    using spec_trips[OF assms(7), of 0 "nat m" tmo] spec_rejects[OF assms(8)] assms(6)
    by (simp add: spec_run_append)
  then show ?thesis
    using spec by (auto simp: b_abs_def b_inv_def State_name_def split: breakerState.splits if_splits)
qed

theorem breaker_fails_fast_witness:
  "fst (b_run (NewBreakerTransport 2 10 0) ([(a_request, ok_response 500, 1, 2), (a_request, Inl ''dial'', 3, 4)] @
      [(a_request, ok_response 200, 5, 6), (a_request, ok_response 200, 14, 15)])) =
    [ok_response 500, Inl ''dial''] @ [Inl ErrCircuitOpen, Inl ErrCircuitOpen]"
  using breaker_fails_fast[of 2 10 "[(a_request, ok_response 500, 1, 2), (a_request, Inl ''dial'', 3, 4)]"
      "[(a_request, ok_response 200, 5, 6), (a_request, ok_response 200, 14, 15)]" 0, OF _ _ _ _ _ _ _ _ surjective_pairing]
  by (simp add: in_i64_def failed_def ok_response_def)

text \<open>
  C26. Under every interleaving of concurrent calls: as long as fewer upstream failures than the
  configured number have happened in all, the breaker is closed and has rejected no call.
\<close>

theorem breaker_no_early_trip:
  assumes "reaches (idle (NewBreakerTransport m tmo z)) ls c"
    and "int (count_list ls Fail) < m" "in_i64 m"
  shows "b_state (shared c) = stateClosed \<and> Reject \<notin> set ls"
  using quiet_reaches[OF assms] by (simp add: quiet_def)

theorem breaker_no_early_trip_witness:
  "let c = at_pc (with_shared (idle (NewBreakerTransport 2 10 0)) (\<lambda>b. b\<lparr>failures := 1\<rparr>)) 7 None
   in b_state (shared c) = stateClosed \<and> Reject \<notin> set [Admit, Fail]"
  unfolding Let_def
proof (rule breaker_no_early_trip[of 2 10 0])
  let ?c = "idle (NewBreakerTransport 2 10 0)"
  have "cstep ?c Admit (at_pc ?c 7 (Some Sent))"
    by (rule cstep.admit) (simp_all add: NewBreakerTransport_def)
  moreover have "cstep (at_pc ?c 7 (Some Sent)) Fail (at_pc (with_shared ?c (\<lambda>b. b\<lparr>failures := 1\<rparr>)) 7 None)"
    using cstep.fail[of "at_pc ?c 7 (Some Sent)" 7] by (simp add: NewBreakerTransport_def i64_def)
  ultimately show "reaches ?c [Admit, Fail] (at_pc (with_shared ?c (\<lambda>b. b\<lparr>failures := 1\<rparr>)) 7 None)"
    by (blast intro: reaches_Cons reaches_refl)
qed (simp_all add: in_i64_def)

text \<open>
  The interleaving model contains the sequential one: the atomic steps of one call, taken
  without interruption, lead from the breaker's state before \<open>RoundTrip\<close> to its state after.
\<close>

theorem breaker_sequential_steps:
  "\<exists>ls. reaches (idle bt) ls (idle (snd (b_RoundTrip transport bt req t\<^sub>0 t\<^sub>1)))"
  by (rule sequential_steps)

text \<open>
  While the breaker is half-open it lets any number of calls through to the upstream, not one
  test request: for every \<open>n\<close> a state is reachable in which the breaker is half-open and \<open>n\<close>
  calls are at the upstream.
\<close>

theorem breaker_half_open_unbounded:
  assumes "0 < m" "in_i64 m" "in_i64 tmo" "tmo < 2 ^ 63 - 1"
  shows "\<exists>ls c. reaches (idle (NewBreakerTransport m tmo z)) ls c \<and>
    State_name (shared c) = ''half-open'' \<and> n \<le> card {i. calls c i = Some Sent}"
proof -
  obtain ls c where c: "reaches (idle (NewBreakerTransport m tmo z)) ls c" "b_state (shared c) = stateHalfOpen"
    "finite (dom (calls c))" using reaches_half_open[OF assms] by blast
  from half_open_admits[OF c(2,3), of n] show ?thesis
    using reaches_trans[OF c(1)] by (force simp: State_name_def)
qed

theorem breaker_half_open_unbounded_witness:
  "\<exists>ls c. reaches (idle (NewBreakerTransport 5 (30 * Second) 0)) ls c \<and>
    State_name (shared c) = ''half-open'' \<and> 100 \<le> card {i. calls c i = Some Sent}"
  by (rule breaker_half_open_unbounded) (simp_all add: in_i64_def duration_units)

end
