(* ===== verification/Proxy.thy ===== *)
theory Proxy
  imports Streaming Admin RateLimit Tenant Breaker
begin

text \<open>
  The proxy (\<open>internal/proxy/proxy.go\<close>): the checks of a request in their order, what is forwarded,
  and the metering of the response.

  \<open>ServeHTTP\<close> either answers itself or forwards; forwarding is \<open>httputil.ReverseProxy\<close> with the
  proxy's \<open>rewrite\<close>, \<open>modifyResponse\<close> and \<open>errorHandler\<close>. Bodies of answers are the values that are
  encoded as JSON. \<open>url.Parse\<close> of the upstream URL is an argument (\<open>parse_url\<close>), since the URL is
  configuration; the clocks, the ledger, the store of the blocklist and the iteration order of the
  session map are the environment of a request.
\<close>

section \<open>Values\<close>

datatype reply_body =
    HealthBody
  | ProxyError string
  | LoopError alert_message
  | BudgetExceeded Result
  | PreflightExceeded Result float64

record reply =
  rp_status :: int
  rp_header :: header
  rp_body :: reply_body

definition json_header :: header where
  "json_header = header_Set Map.empty ''Content-Type'' ''application/json''"

definition writeJSONError :: "int \<Rightarrow> string \<Rightarrow> reply" where
  "writeJSONError status msg = \<lparr>rp_status = status, rp_header = json_header, rp_body = ProxyError msg\<rparr>"

definition writeBudgetError :: "Result \<Rightarrow> reply" where
  "writeBudgetError br = \<lparr>rp_status = 429, rp_header = json_header, rp_body = BudgetExceeded br\<rparr>"

definition writePreflightError :: "Result \<Rightarrow> float64 \<Rightarrow> reply" where
  "writePreflightError br estimatedCost =
    \<lparr>rp_status = 429, rp_header = json_header, rp_body = PreflightExceeded br estimatedCost\<rparr>"

text \<open>\<open>fmt.Sprintf\<close> with \<open>%.0f\<close> and \<open>%.2f\<close>: the exact value rounded to nearest, ties to even.\<close>

fun show_nat :: "nat \<Rightarrow> string" where
  "show_nat n = (if n < 10 then [char_of (48 + n)] else show_nat (n div 10) @ [char_of (48 + n mod 10)])"

declare show_nat.simps [simp del]

definition show_f0 :: "float64 \<Rightarrow> string" where
  "show_f0 x = (if x < 0 then ''-'' else '''') @ show_nat (nat \<bar>rne \<bar>x\<bar>\<bar>)"

definition show_f2 :: "float64 \<Rightarrow> string" where
  "show_f2 x =
    (let n = nat (rne (\<bar>x\<bar> * 100)) in
     (if x < 0 then ''-'' else '''') @ show_nat (n div 100) @ ''.'' @ show_nat (n div 10 mod 10) @ show_nat (n mod 10))"

text \<open>\<open>d.Seconds()\<close> of a duration that is not negative.\<close>

definition Seconds :: "duration \<Rightarrow> float64" where
  "Seconds d = fadd (float_of_int (d div Second)) (fdiv (float_of_int (d mod Second)) (10 ^ 9))"

definition maxRequestBodyBytes :: nat where "maxRequestBodyBytes = 10 * 1024 * 1024"
definition maxResponseBodyBytes :: nat where "maxResponseBodyBytes = 50 * 1024 * 1024"

record ('enc, 'db) proxy =
  px_registry :: "provider list"
  px_meter :: "'enc meter"
  px_recorder :: "'db recorder"
  px_budget :: "Manager option"
  px_tracker :: "Tracker option"
  px_metrics :: bool
  px_limiter :: "limiter option"
  px_resolver :: "resolver option"
  px_blocklist :: "Blocklist option"

text \<open>What \<open>ServeHTTP\<close> puts into the context for the response.\<close>

record req_context =
  cx_Provider :: provider
  cx_RequestBody :: string
  cx_RequestMeta :: "RequestMeta option"
  cx_StartTime :: time
  cx_APIKeyHash :: string
  cx_AgentID :: string
  cx_SessionID :: string
  cx_UserID :: string
  cx_BudgetResult :: "Result option"
  cx_Task :: string
  cx_SessionEnd :: bool
  cx_TenantID :: string

text \<open>The environment of one request.\<close>

record serve_env =
  en_body_error :: "string option"
  en_store :: admin_config
  en_store_fault :: fault
  en_block_clocks :: "time \<times> time"
  en_order :: iteration
  en_track_clocks :: call_clocks
  en_end_clock :: time
  en_limit_clock :: time
  en_ledger :: spend_source
  en_key_clocks :: clocks
  en_tenant_clocks :: clocks
  en_start :: time

datatype serve_event =
    SvTracker tracker_event
  | SvBudget budget_event
  | SvRateLimited string

datatype outcome =
    Replied reply
  | Forwarded req_context request

section \<open>The checks of a request\<close>

text \<open>Each check gives a reply that ends the request, or none, with its events and the state after it.\<close>

type_synonym ('enc, 'db) check = "reply option \<times> serve_event list \<times> ('enc, 'db) proxy"

definition read_body :: "serve_env \<Rightarrow> request \<Rightarrow> string + string" where
  "read_body env r =
    (if length (ReqBody r) > maxRequestBodyBytes then Inl ''http: request body too large''
     else case en_body_error env of Some err \<Rightarrow> Inl err | None \<Rightarrow> Inr (ReqBody r))"

definition check_blocklist :: "serve_env \<Rightarrow> ('enc, 'db) proxy \<Rightarrow> string \<Rightarrow> ('enc, 'db) check" where
  "check_blocklist env p apiKey =
    (case px_blocklist p of
       None \<Rightarrow> (None, [], p)
     | Some b \<Rightarrow>
         (case IsBlocked (en_store env) (en_store_fault env) b apiKey (fst (en_block_clocks env)) (snd (en_block_clocks env)) of
            (blocked, b1) \<Rightarrow>
              (if blocked then Some (writeJSONError 403 ''API key is blocked'') else None, [], p\<lparr>px_blocklist := Some b1\<rparr>)))"

definition check_session ::
  "serve_env \<Rightarrow> ('enc, 'db) proxy \<Rightarrow> string \<Rightarrow> string \<Rightarrow> string \<Rightarrow> string \<Rightarrow> bool \<Rightarrow> RequestMeta option \<Rightarrow> string \<Rightarrow> ('enc, 'db) check" where
  "check_session env p agentID sessionID userID task sessionEnd reqMeta path =
    (case px_tracker p of
       None \<Rightarrow> (None, [], p)
     | Some t \<Rightarrow>
         if \<not> t_Enabled t \<or> sessionID = '''' then (None, [], p)
         else if sessionEnd then
           (case EndSession t sessionID (en_end_clock env) of (evs, t1) \<Rightarrow> (None, map SvTracker evs, p\<lparr>px_tracker := Some t1\<rparr>))
         else
           (case TrackCall (en_order env) t sessionID agentID userID task
               (case reqMeta of None \<Rightarrow> '''' | Some q \<Rightarrow> rq_Model q) path (en_track_clocks env) of
              (alert, evs, t1) \<Rightarrow>
                (case alert of
                   Some a \<Rightarrow> if aa_Type a = ''loop_detected'' \<and> t_ShouldBlock t1
                     then Some \<lparr>rp_status = 429, rp_header = json_header, rp_body = LoopError (aa_Message a)\<rparr> else None
                 | None \<Rightarrow> None, map SvTracker evs, p\<lparr>px_tracker := Some t1\<rparr>)))"

definition check_limit :: "serve_env \<Rightarrow> ('enc, 'db) proxy \<Rightarrow> string \<Rightarrow> string \<Rightarrow> ('enc, 'db) check" where
  "check_limit env p apiKey apiKeyHash =
    (case px_limiter p of
       None \<Rightarrow> (None, [], p)
     | Some l \<Rightarrow>
         if \<not> rl_Enabled l then (None, [], p)
         else
           (case Allow l apiKey apiKeyHash (en_limit_clock env) of
              ((allowed, retryAfter), l1) \<Rightarrow>
                if allowed then (None, [], p\<lparr>px_limiter := Some l1\<rparr>)
                else (Some \<lparr>rp_status = 429,
                        rp_header = header_Set json_header ''Retry-After'' (show_f0 (Seconds retryAfter)),
                        rp_body = ProxyError ''rate limit exceeded''\<rparr>,
                      if px_metrics p then [SvRateLimited apiKeyHash] else [], p\<lparr>px_limiter := Some l1\<rparr>)))"

text \<open>The pre-flight estimate: the worst-case cost of the tokens the request allows.\<close>

definition preflight :: "pricing \<Rightarrow> RequestMeta option \<Rightarrow> Result \<Rightarrow> reply option" where
  "preflight pr reqMeta br =
    (case reqMeta of
       None \<Rightarrow> None
     | Some q \<Rightarrow>
         if rq_MaxTokens q > 0 then
           let worstCase = Calculate pr (rq_Model q) 0 (rq_MaxTokens q) in
           if worstCase > 0 \<and>
              ((DailyLimit br > 0 \<and> worstCase > fsub (DailyLimit br) (DailySpent br)) \<or>
               (MonthlyLimit br > 0 \<and> worstCase > fsub (MonthlyLimit br) (MonthlySpent br)))
           then Some (writePreflightError br worstCase) else None
         else None)"

definition check_budget ::
  "serve_env \<Rightarrow> ('enc, 'db) proxy \<Rightarrow> string \<Rightarrow> string \<Rightarrow> string \<Rightarrow> RequestMeta option \<Rightarrow> Result option \<times> ('enc, 'db) check" where
  "check_budget env p apiKey apiKeyHash tenantID reqMeta =
    (case px_budget p of
       None \<Rightarrow> (None, None, [], p)
     | Some m \<Rightarrow>
         if \<not> b_Enabled m then (None, None, [], p)
         else
           (case Check (en_ledger env) m apiKey apiKeyHash tenantID (en_key_clocks env) (en_tenant_clocks env) of
              (br, evs, m1) \<Rightarrow>
                (Some br,
                 if r_Decision br = DBlock then Some (writeBudgetError br)
                 else preflight (mt_pricing (px_meter p)) reqMeta br,
                 map SvBudget evs, p\<lparr>px_budget := Some m1\<rparr>)))"

definition resolve_tenant :: "('enc, 'db) proxy \<Rightarrow> request \<Rightarrow> string" where
  "resolve_tenant p r = (case px_resolver p of None \<Rightarrow> '''' | Some res \<Rightarrow> res r)"

definition ServeHTTP :: "serve_env \<Rightarrow> ('enc, 'db) proxy \<Rightarrow> request \<Rightarrow> outcome \<times> serve_event list \<times> ('enc, 'db) proxy" where
  "ServeHTTP env p r =
    (if Path r = ''/health''
     then (Replied \<lparr>rp_status = 200, rp_header = json_header, rp_body = HealthBody\<rparr>, [], p)
     else case Detect (px_registry p) r of
       None \<Rightarrow> (Replied (writeJSONError 502 ''no provider matched for this request''), [], p)
     | Some prov \<Rightarrow>
       (case read_body env r of
          Inl err \<Rightarrow>
            (Replied (if err = ''http: request body too large'' then writeJSONError 413 ''request body too large''
                      else writeJSONError 400 ''failed to read request body''), [], p)
        | Inr body \<Rightarrow>
          let reqMeta = pv_ParseRequest prov body;
              apiKey = ExtractAPIKey r;
              apiKeyHash = HashAPIKey apiKey
          in case check_blocklist env p apiKey of
            (Some rep, evs, p1) \<Rightarrow> (Replied rep, evs, p1)
          | (None, evs1, p1) \<Rightarrow>
            (case ExtractAgentHeaders r of (agentID, sessionID, userID, task) \<Rightarrow>
             let sessionEnd = (header_Get (ReqHeader r) ''X-Agent-Session-End'' = ''true'') in
             case check_session env p1 agentID sessionID userID task sessionEnd reqMeta (Path r) of
               (Some rep, evs2, p2) \<Rightarrow> (Replied rep, evs1 @ evs2, p2)
             | (None, evs2, p2) \<Rightarrow>
               (case check_limit env p2 apiKey apiKeyHash of
                  (Some rep, evs3, p3) \<Rightarrow> (Replied rep, evs1 @ evs2 @ evs3, p3)
                | (None, evs3, p3) \<Rightarrow>
                  let tenantID = resolve_tenant p3 r in
                  (case check_budget env p3 apiKey apiKeyHash tenantID reqMeta of
                     (br, Some rep, evs4, p4) \<Rightarrow> (Replied rep, evs1 @ evs2 @ evs3 @ evs4, p4)
                   | (br, None, evs4, p4) \<Rightarrow>
                     (Forwarded
                        \<lparr>cx_Provider = prov, cx_RequestBody = body, cx_RequestMeta = reqMeta, cx_StartTime = en_start env,
                         cx_APIKeyHash = apiKeyHash, cx_AgentID = agentID, cx_SessionID = sessionID, cx_UserID = userID,
                         cx_BudgetResult = br, cx_Task = task, cx_SessionEnd = sessionEnd, cx_TenantID = tenantID\<rparr>
                        (r\<lparr>ReqBody := body\<rparr>), evs1 @ evs2 @ evs3 @ evs4, p4))))))"

section \<open>Forwarding\<close>

record url =
  ur_Host :: string
  ur_Path :: string
  ur_RawQuery :: string

text \<open>\<open>ProxyRequest.SetURL\<close>: the paths are joined with one slash between them, the queries with an ampersand.\<close>

definition join_path :: "string \<Rightarrow> string \<Rightarrow> string" where
  "join_path a b =
    (if HasSuffix a ''/'' \<and> HasPrefix b ''/'' then a @ tl b
     else if \<not> HasSuffix a ''/'' \<and> \<not> HasPrefix b ''/'' then a @ ''/'' @ b
     else a @ b)"

definition join_query :: "string \<Rightarrow> string \<Rightarrow> string" where
  "join_query a b = (if a = '''' \<or> b = '''' then a @ b else a @ ''&'' @ b)"

definition SetURL :: "url \<Rightarrow> request \<Rightarrow> request" where
  "SetURL u out = out\<lparr>Host := '''', Path := join_path (ur_Path u) (Path out), RawQuery := join_query (ur_RawQuery u) (RawQuery out)\<rparr>"

definition rewrite :: "(string \<Rightarrow> url option) \<Rightarrow> req_context \<Rightarrow> request \<Rightarrow> request" where
  "rewrite parse_url cx out =
    (case parse_url (pv_UpstreamURL (cx_Provider cx)) of
       None \<Rightarrow> out
     | Some upstream \<Rightarrow>
         let out = (SetURL upstream out)\<lparr>Host := ur_Host upstream\<rparr>;
             out = (case pv_RewritePath (cx_Provider cx) of None \<Rightarrow> out | Some f \<Rightarrow> out\<lparr>Path := f (Path out)\<rparr>);
             out = StripAgentHeaders out
         in out\<lparr>ReqHeader := header_Del (ReqHeader out) ''Accept-Encoding''\<rparr>)"

definition errorHandler :: "string \<Rightarrow> reply" where
  "errorHandler err = writeJSONError 502 ''upstream request failed''"

section \<open>The response\<close>

text \<open>A body that is passed on as it is, or a stream behind the interceptor.\<close>

datatype delivered =
    Plain response
  | Streamed response streamInterceptor

definition warning_header :: "Result \<Rightarrow> string" where
  "warning_header br =
    ''daily='' @ show_f2 (DailySpent br) @ ''/'' @ show_f2 (DailyLimit br) @
    '' monthly='' @ show_f2 (MonthlySpent br) @ ''/'' @ show_f2 (MonthlyLimit br)"

definition with_warning :: "Result option \<Rightarrow> response \<Rightarrow> response" where
  "with_warning br resp =
    (case br of
       Some b \<Rightarrow> if r_Decision b = DWarn
         then resp\<lparr>RespHeader := header_Set (RespHeader resp) ''X-AgentLedger-Budget-Warning'' (warning_header b)\<rparr> else resp
     | None \<Rightarrow> resp)"

definition response_record ::
  "pricing \<Rightarrow> req_context \<Rightarrow> string \<Rightarrow> int \<Rightarrow> ResponseMeta \<Rightarrow> string \<Rightarrow> time \<Rightarrow> UsageRecord" where
  "response_record pr cx path status respMeta ulid now =
    (let model = (if rs_Model respMeta = '''' then (case cx_RequestMeta cx of None \<Rightarrow> '''' | Some q \<Rightarrow> rq_Model q) else rs_Model respMeta)
     in \<lparr>u_ID = ulid, u_Timestamp = cx_StartTime cx, u_Provider = pv_Name (cx_Provider cx), u_Model = model,
         u_APIKeyHash = cx_APIKeyHash cx, u_InputTokens = rs_InputTokens respMeta, u_OutputTokens = rs_OutputTokens respMeta,
         u_TotalTokens = rs_TotalTokens respMeta, u_CostUSD = Calculate pr model (rs_InputTokens respMeta) (rs_OutputTokens respMeta),
         u_Estimated = (\<not> KnownModel pr model), u_DurationMS = Milliseconds (time_Sub now (cx_StartTime cx)),
         u_StatusCode = status, u_Path = path, u_AgentID = cx_AgentID cx, u_SessionID = cx_SessionID cx,
         u_UserID = cx_UserID cx, u_TenantID = cx_TenantID cx\<rparr>)"

text \<open>
  \<open>path\<close> is the path of the request that was sent upstream, \<open>body_err\<close> the error of reading the body
  if there is one.
\<close>

definition modifyResponse ::
  "parts \<Rightarrow> pricing \<Rightarrow> req_context \<Rightarrow> string \<Rightarrow> string option \<Rightarrow> string \<Rightarrow> time \<Rightarrow> response \<Rightarrow> usage_effect list \<times> delivered" where
  "modifyResponse ps pr cx path body_err ulid now resp0 =
    (let resp = with_warning (cx_BudgetResult cx) resp0 in
     if Contains (header_Get (RespHeader resp) ''Content-Type'') ''text/event-stream'' then
       ([], Streamed resp (newStreamInterceptor (cx_Provider cx) (cx_RequestMeta cx) ps (cx_StartTime cx) (cx_APIKeyHash cx)
          path (cx_AgentID cx) (cx_SessionID cx) (cx_UserID cx) (cx_TenantID cx)))
     else if body_err \<noteq> None then ([], Plain (resp\<lparr>RespBody := ''''\<rparr>))
     else
       let body = take maxResponseBodyBytes (RespBody resp);
           resp = resp\<lparr>RespBody := body\<rparr>
       in if StatusCode resp < 200 \<or> StatusCode resp \<ge> 300 then ([], Plain resp)
          else (case pv_ParseResponse (cx_Provider cx) body of
              None \<Rightarrow> ([], Plain resp)
            | Some respMeta \<Rightarrow>
                (usage_effects ps False (response_record pr cx path (StatusCode resp) respMeta ulid now), Plain resp)))"

text \<open>The effects on the recorder, which may panic, and on the tracker.\<close>

fun apply_effects :: "usage_effect list \<Rightarrow> ('enc, 'db) proxy \<Rightarrow> string + ('enc, 'db) proxy" where
  "apply_effects [] p = Inr p"
| "apply_effects (EffRecord r # es) p =
    (case Record (px_recorder p) r of Inl err \<Rightarrow> Inl err | Inr rec \<Rightarrow> apply_effects es (p\<lparr>px_recorder := rec\<rparr>))"
| "apply_effects (EffCost sid c n # es) p =
    apply_effects es (p\<lparr>px_tracker := map_option (\<lambda>t. RecordCost t sid c n) (px_tracker p)\<rparr>)"
| "apply_effects (EffMetrics x # es) p = apply_effects es p"

definition px_parts :: "('enc, 'db) proxy \<Rightarrow> parts" where
  "px_parts p = \<lparr>with_tracker = (px_tracker p \<noteq> None), with_metrics = px_metrics p\<rparr>"

text \<open>
  A forwarded request: \<open>outbound\<close> is the copy \<open>ReverseProxy\<close> makes before \<open>rewrite\<close>, without the
  hop-by-hop headers; the transport has a state of its own.
\<close>

datatype exchanged =
    Answered delivered
  | Failed reply
  | Panicked string

definition exchange ::
  "(request \<Rightarrow> request) \<Rightarrow> (string \<Rightarrow> url option) \<Rightarrow> ('t \<Rightarrow> request \<Rightarrow> (string + response) \<times> 't) \<Rightarrow>
   req_context \<Rightarrow> request \<Rightarrow> string option \<Rightarrow> string \<Rightarrow> time \<Rightarrow> ('enc, 'db) proxy \<times> 't \<Rightarrow> exchanged \<times> ('enc, 'db) proxy \<times> 't" where
  "exchange outbound parse_url transport cx r body_err ulid now s =
    (case s of (p, t) \<Rightarrow>
       let out = rewrite parse_url cx (outbound r) in
       (case transport t out of
          (Inl err, t1) \<Rightarrow> (Failed (errorHandler err), p, t1)
        | (Inr resp, t1) \<Rightarrow>
            (case modifyResponse (px_parts p) (mt_pricing (px_meter p)) cx (Path out) body_err ulid now resp of
               (effs, d) \<Rightarrow>
                 (case apply_effects effs p of
                    Inl err \<Rightarrow> (Panicked err, p, t1)
                  | Inr p1 \<Rightarrow> (Answered d, p1, t1)))))"

section \<open>Lemmas on the checks\<close>

text \<open>Each check changes only its own part of the proxy.\<close>

lemma check_blocklist_frame:
  "snd (snd (check_blocklist env p k)) = p\<lparr>px_blocklist := px_blocklist (snd (snd (check_blocklist env p k)))\<rparr>"
  by (auto simp: check_blocklist_def split: option.splits prod.splits)

lemma check_session_frame:
  "snd (snd (check_session env p a s u t e q path)) = p\<lparr>px_tracker := px_tracker (snd (snd (check_session env p a s u t e q path)))\<rparr>"
  by (auto simp: check_session_def split: option.splits prod.splits)

lemma check_limit_frame:
  "snd (snd (check_limit env p k h)) = p\<lparr>px_limiter := px_limiter (snd (snd (check_limit env p k h)))\<rparr>"
  by (auto simp: check_limit_def split: option.splits prod.splits)

text \<open>What it means that a check lets the request pass.\<close>

lemma check_blocklist_pass:
  "fst (check_blocklist env p k) = None \<longleftrightarrow>
    (\<forall>b. px_blocklist p = Some b \<longrightarrow>
      \<not> fst (IsBlocked (en_store env) (en_store_fault env) b k (fst (en_block_clocks env)) (snd (en_block_clocks env))))"
  by (auto simp: check_blocklist_def split: option.splits prod.splits)

lemma check_limit_pass:
  "fst (check_limit env p k h) = None \<longleftrightarrow>
    (\<forall>l. px_limiter p = Some l \<and> rl_Enabled l \<longrightarrow> fst (fst (Allow l k h (en_limit_clock env))))"
  by (auto simp: check_limit_def split: option.splits prod.splits)

lemma check_budget_pass:
  "fst (snd (check_budget env p k h tid q)) = None \<longleftrightarrow>
    (\<forall>m. px_budget p = Some m \<and> b_Enabled m \<longrightarrow>
      (let br = fst (Check (en_ledger env) m k h tid (en_key_clocks env) (en_tenant_clocks env)) in
       r_Decision br \<noteq> DBlock \<and> preflight (mt_pricing (px_meter p)) q br = None))"
  by (auto simp: check_budget_def Let_def split: option.splits prod.splits)

definition loop_blocked :: "serve_env \<Rightarrow> Tracker \<Rightarrow> request \<Rightarrow> RequestMeta option \<Rightarrow> bool" where
  "loop_blocked env t r q \<longleftrightarrow>
    (case ExtractAgentHeaders r of (agentID, sessionID, userID, task) \<Rightarrow>
       t_Enabled t \<and> sessionID \<noteq> '''' \<and> header_Get (ReqHeader r) ''X-Agent-Session-End'' \<noteq> ''true'' \<and>
       (case TrackCall (en_order env) t sessionID agentID userID task
           (case q of None \<Rightarrow> '''' | Some m \<Rightarrow> rq_Model m) (Path r) (en_track_clocks env) of
          (alert, evs, t1) \<Rightarrow> (\<exists>a. alert = Some a \<and> aa_Type a = ''loop_detected'' \<and> t_ShouldBlock t1)))"

lemma check_session_pass:
  assumes "ExtractAgentHeaders r = (agentID, sessionID, userID, task)"
  shows "fst (check_session env p agentID sessionID userID task
      (header_Get (ReqHeader r) ''X-Agent-Session-End'' = ''true'') q (Path r)) = None \<longleftrightarrow>
    (\<forall>t. px_tracker p = Some t \<longrightarrow> \<not> loop_blocked env t r q)"
  using assms by (auto simp: check_session_def loop_blocked_def split: option.splits prod.splits)

text \<open>The stages of \<open>ServeHTTP\<close> as one chain, with the states between them.\<close>

lemma ServeHTTP_stages:
  assumes "Path r \<noteq> ''/health''" and "Detect (px_registry p) r = Some prov" and "read_body env r = Inr body"
    and "q = pv_ParseRequest prov body" and "k = ExtractAPIKey r" and "h = HashAPIKey k"
    and "ExtractAgentHeaders r = (agentID, sessionID, userID, task)"
    and "e = (header_Get (ReqHeader r) ''X-Agent-Session-End'' = ''true'')"
    and "check_blocklist env p k = (b, ev1, p1)"
    and "check_session env p1 agentID sessionID userID task e q (Path r) = (s, ev2, p2)"
    and "check_limit env p2 k h = (l, ev3, p3)"
    and "check_budget env p3 k h (resolve_tenant p3 r) q = (br, c, ev4, p4)"
  shows "ServeHTTP env p r =
    (case b of Some rep \<Rightarrow> (Replied rep, ev1, p1) | None \<Rightarrow>
     case s of Some rep \<Rightarrow> (Replied rep, ev1 @ ev2, p2) | None \<Rightarrow>
     case l of Some rep \<Rightarrow> (Replied rep, ev1 @ ev2 @ ev3, p3) | None \<Rightarrow>
     case c of Some rep \<Rightarrow> (Replied rep, ev1 @ ev2 @ ev3 @ ev4, p4) | None \<Rightarrow>
       (Forwarded \<lparr>cx_Provider = prov, cx_RequestBody = body, cx_RequestMeta = q, cx_StartTime = en_start env,
          cx_APIKeyHash = h, cx_AgentID = agentID, cx_SessionID = sessionID, cx_UserID = userID,
          cx_BudgetResult = br, cx_Task = task, cx_SessionEnd = e, cx_TenantID = resolve_tenant p3 r\<rparr>
          (r\<lparr>ReqBody := body\<rparr>), ev1 @ ev2 @ ev3 @ ev4, p4))"
  unfolding ServeHTTP_def using assms(1-3,7,9)
  by (simp add: assms(4,5,6,8)[symmetric] Let_def assms(10-12) split: option.split)

lemma read_body_same: "read_body env r = Inr body \<Longrightarrow> body = ReqBody r \<and> length (ReqBody r) \<le> maxRequestBodyBytes"
  by (auto simp: read_body_def split: if_splits option.splits)

lemma tenant_frame [simp]:
  "resolve_tenant (p\<lparr>px_blocklist := a\<rparr>) r = resolve_tenant p r"
  "resolve_tenant (p\<lparr>px_tracker := b\<rparr>) r = resolve_tenant p r"
  "resolve_tenant (p\<lparr>px_limiter := c\<rparr>) r = resolve_tenant p r"
  by (simp_all add: resolve_tenant_def)

text \<open>The shapes of the answers of each check, and what they leave alone.\<close>

lemma check_shapes:
  assumes "check_blocklist env p k = (b, ev, p1)"
  shows "ev = [] \<and> (b = None \<or> b = Some (writeJSONError 403 ''API key is blocked'')) \<and>
    px_recorder p1 = px_recorder p \<and> px_tracker p1 = px_tracker p \<and> px_limiter p1 = px_limiter p \<and> px_budget p1 = px_budget p"
  using assms by (auto simp: check_blocklist_def split: option.splits prod.splits if_splits)

lemma check_session_shapes:
  assumes "check_session env p a sid u t e q path = (s, ev, p1)"
  shows "(s = None \<or> (\<exists>rep msg. s = Some rep \<and> rp_body rep = LoopError msg)) \<and>
    px_recorder p1 = px_recorder p \<and> px_limiter p1 = px_limiter p \<and> px_budget p1 = px_budget p"
  using assms by (auto simp: check_session_def split: option.splits prod.splits if_splits)

lemma show_nat_nonempty [simp]: "show_nat n \<noteq> []"
  by (subst show_nat.simps) simp

lemma canonical_retry [simp]: "CanonicalHeaderKey ''Retry-After'' = ''Retry-After''"
  by code_simp

lemma check_limit_shapes:
  assumes "check_limit env p k h = (l, ev, p1)"
  shows "(l = None \<or> (\<exists>rep. l = Some rep \<and> rp_status rep = 429 \<and> rp_body rep = ProxyError ''rate limit exceeded'' \<and>
      header_Get (rp_header rep) ''Retry-After'' \<noteq> '''')) \<and>
    px_recorder p1 = px_recorder p \<and> px_budget p1 = px_budget p"
  using assms by (auto simp: check_limit_def show_f0_def split: option.splits prod.splits if_splits)

lemma preflight_shape: "preflight pr q br = Some rep \<Longrightarrow> rp_body rep \<noteq> ProxyError m"
  by (auto simp: preflight_def Let_def writePreflightError_def split: option.splits if_splits)

lemma check_budget_shapes:
  assumes "check_budget env p k h tid q = (br, c, ev, p1)"
  shows "(c = Some rep \<longrightarrow> rp_body rep \<noteq> ProxyError m) \<and> px_recorder p1 = px_recorder p"
  using assms preflight_shape[of _ q _ rep m]
  by (auto simp: check_budget_def writeBudgetError_def split: option.splits prod.splits if_splits)

lemma apply_usage_effects:
  "Record (px_recorder p) u = Inr rec \<Longrightarrow>
    \<exists>p2. apply_effects (usage_effects ps st u) p = Inr p2 \<and> px_recorder p2 = rec"
  by (auto simp: usage_effects_def)

definition passes :: "serve_env \<Rightarrow> ('enc, 'db) proxy \<Rightarrow> request \<Rightarrow> RequestMeta option \<Rightarrow> bool" where
  "passes env p r q \<longleftrightarrow>
    (let k = ExtractAPIKey r; h = HashAPIKey k in
     (\<forall>b. px_blocklist p = Some b \<longrightarrow>
        \<not> fst (IsBlocked (en_store env) (en_store_fault env) b k (fst (en_block_clocks env)) (snd (en_block_clocks env)))) \<and>
     (\<forall>t. px_tracker p = Some t \<longrightarrow> \<not> loop_blocked env t r q) \<and>
     (\<forall>l. px_limiter p = Some l \<and> rl_Enabled l \<longrightarrow> fst (fst (Allow l k h (en_limit_clock env)))) \<and>
     (\<forall>m. px_budget p = Some m \<and> b_Enabled m \<longrightarrow>
        (let br = fst (Check (en_ledger env) m k h (resolve_tenant p r) (en_key_clocks env) (en_tenant_clocks env)) in
         r_Decision br \<noteq> DBlock \<and> preflight (mt_pricing (px_meter p)) q br = None)))"

lemma ServeHTTP_result:
  assumes "Path r \<noteq> ''/health''" and "Detect (px_registry p) r = Some prov" and "read_body env r = Inr body"
  shows "(case fst (ServeHTTP env p r) of
      Forwarded cx out \<Rightarrow> passes env p r (pv_ParseRequest prov body) \<and> out = r \<and> cx_Provider cx = prov \<and>
        cx_RequestMeta cx = pv_ParseRequest prov body \<and> cx_APIKeyHash cx = HashAPIKey (ExtractAPIKey r) \<and>
        cx_TenantID cx = resolve_tenant p r \<and>
        (cx_AgentID cx, cx_SessionID cx, cx_UserID cx, cx_Task cx) = ExtractAgentHeaders r
    | Replied rep \<Rightarrow> \<not> passes env p r (pv_ParseRequest prov body))"
proof -
  define q where "q = pv_ParseRequest prov body"
  define k where "k = ExtractAPIKey r"
  define e where "e \<longleftrightarrow> header_Get (ReqHeader r) ''X-Agent-Session-End'' = ''true''"
  obtain agentID sessionID userID task where ag: "ExtractAgentHeaders r = (agentID, sessionID, userID, task)"
    by (cases "ExtractAgentHeaders r") auto
  obtain b ev1 p1 where c1: "check_blocklist env p k = (b, ev1, p1)" by (cases "check_blocklist env p k") auto
  obtain s ev2 p2 where c2: "check_session env p1 agentID sessionID userID task e q (Path r) = (s, ev2, p2)"
    by (cases "check_session env p1 agentID sessionID userID task e q (Path r)") auto
  obtain l ev3 p3 where c3: "check_limit env p2 k (HashAPIKey k) = (l, ev3, p3)"
    by (cases "check_limit env p2 k (HashAPIKey k)") auto
  obtain br c ev4 p4 where c4: "check_budget env p3 k (HashAPIKey k) (resolve_tenant p3 r) q = (br, c, ev4, p4)"
    by (cases "check_budget env p3 k (HashAPIKey k) (resolve_tenant p3 r) q") auto
  have f1: "p1 = p\<lparr>px_blocklist := px_blocklist p1\<rparr>" using check_blocklist_frame[of env p k] c1 by simp
  have f2: "p2 = p1\<lparr>px_tracker := px_tracker p2\<rparr>"
    using check_session_frame[of env p1 agentID sessionID userID task e q "Path r"] c2 by simp
  have f3: "p3 = p2\<lparr>px_limiter := px_limiter p3\<rparr>" using check_limit_frame[of env p2 k "HashAPIKey k"] c3 by simp
  have t1: "px_tracker p1 = px_tracker p" by (subst f1) simp
  have t2: "px_limiter p2 = px_limiter p" by (subst f2, subst f1) simp
  have t3: "px_budget p3 = px_budget p" "px_meter p3 = px_meter p" "resolve_tenant p3 r = resolve_tenant p r"
    by (subst f3, subst f2, subst f1, simp)+
  have pass: "passes env p r q \<longleftrightarrow> b = None \<and> s = None \<and> l = None \<and> c = None"
    using check_blocklist_pass[of env p k] check_session_pass[OF ag, of env p1 q] check_limit_pass[of env p2 k "HashAPIKey k"]
      check_budget_pass[of env p3 k "HashAPIKey k" "resolve_tenant p3 r" q] c1 c2 c3 c4 t1 t2 t3
    unfolding passes_def Let_def k_def[symmetric] e_def[symmetric] by simp
  have "r\<lparr>ReqBody := body\<rparr> = r" using read_body_same[OF assms(3)] by simp
  then show ?thesis
    using ServeHTTP_stages[OF assms q_def k_def refl ag e_def c1 c2 c3 c4] pass t3(3) ag
    unfolding q_def[symmetric] k_def[symmetric] by (auto split: option.splits)
qed

section \<open>Properties\<close>

text \<open>
  C1. A request is forwarded exactly when it is not a health check, a provider matches, its body can
  be read within 10 MB, and every check that is switched on passes: the key is not blocked, no
  loop alert that blocks is raised, the rate limiter admits it, the budget decision is not to
  block, and the worst-case cost of its tokens is within the remaining budget. What is forwarded
  is the request itself.
\<close>

theorem forwarded_iff_checked:
  "(\<exists>cx. fst (ServeHTTP env p r) = Forwarded cx r) \<longleftrightarrow>
     Path r \<noteq> ''/health'' \<and>
     (\<exists>prov body. Detect (px_registry p) r = Some prov \<and> read_body env r = Inr body \<and>
        passes env p r (pv_ParseRequest prov body))"
proof (cases "Path r \<noteq> ''/health'' \<and> (\<exists>prov body. Detect (px_registry p) r = Some prov \<and> read_body env r = Inr body)")
  case True
  then obtain prov body where pb: "Path r \<noteq> ''/health''" "Detect (px_registry p) r = Some prov" "read_body env r = Inr body"
    by blast
  then show ?thesis using ServeHTTP_result[OF pb] by (auto split: outcome.splits)
next
  case False
  then show ?thesis by (auto simp: ServeHTTP_def split: option.splits sum.splits)
qed

text \<open>
  The order of the checks: a request with a blocked key leaves sessions, rate limits and budgets
  untouched, and a request over its rate limit leaves the budgets untouched, with a waiting time in
  the answer; no refused request is recorded.
\<close>

theorem refused_early:
  assumes "Path r \<noteq> ''/health''" and "Detect (px_registry p) r = Some prov" and "read_body env r = Inr body"
    and "ServeHTTP env p r = (Replied rep, evs, p')"
  shows "px_recorder p' = px_recorder p \<and>
    (rep = writeJSONError 403 ''API key is blocked'' \<longrightarrow>
       px_tracker p' = px_tracker p \<and> px_limiter p' = px_limiter p \<and> px_budget p' = px_budget p \<and> evs = []) \<and>
    (rp_body rep = ProxyError ''rate limit exceeded'' \<longrightarrow>
       px_budget p' = px_budget p \<and> header_Get (rp_header rep) ''Retry-After'' \<noteq> '''')"
proof -
  define q where "q = pv_ParseRequest prov body"
  define k where "k = ExtractAPIKey r"
  define e where "e \<longleftrightarrow> header_Get (ReqHeader r) ''X-Agent-Session-End'' = ''true''"
  obtain agentID sessionID userID task where ag: "ExtractAgentHeaders r = (agentID, sessionID, userID, task)"
    by (cases "ExtractAgentHeaders r") auto
  obtain b ev1 p1 where c1: "check_blocklist env p k = (b, ev1, p1)" by (cases "check_blocklist env p k") auto
  obtain s ev2 p2 where c2: "check_session env p1 agentID sessionID userID task e q (Path r) = (s, ev2, p2)"
    by (cases "check_session env p1 agentID sessionID userID task e q (Path r)") auto
  obtain l ev3 p3 where c3: "check_limit env p2 k (HashAPIKey k) = (l, ev3, p3)"
    by (cases "check_limit env p2 k (HashAPIKey k)") auto
  obtain br c ev4 p4 where c4: "check_budget env p3 k (HashAPIKey k) (resolve_tenant p3 r) q = (br, c, ev4, p4)"
    by (cases "check_budget env p3 k (HashAPIKey k) (resolve_tenant p3 r) q") auto
  note stages = ServeHTTP_stages[OF assms(1-3) q_def k_def refl ag e_def c1 c2 c3 c4]
  note shapes = check_shapes[OF c1] check_session_shapes[OF c2] check_limit_shapes[OF c3]
    check_budget_shapes[OF c4, of rep "''API key is blocked''"] check_budget_shapes[OF c4, of rep "''rate limit exceeded''"]
  have w: "rp_body (writeJSONError 403 m) = ProxyError m" for m by (simp add: writeJSONError_def)
  show ?thesis
  proof (cases b)
    case (Some x)
    then show ?thesis using assms(4) stages shapes w by auto
  next
    case b: None
    show ?thesis
    proof (cases s)
      case (Some x)
      then show ?thesis using b assms(4) stages shapes w by auto
    next
      case s: None
      show ?thesis
      proof (cases l)
        case (Some x)
        then show ?thesis using b s assms(4) stages shapes w by auto
      next
        case None
        then show ?thesis using b s assms(4) stages shapes w by (auto split: option.splits)
      qed
    qed
  qed
qed

text \<open>The smallest proxy: one provider, every optional part switched off.\<close>

definition bare_proxy :: "(unit, database) proxy" where
  "bare_proxy = \<lparr>px_registry = [POpenAI (NewGroq '''')], px_meter = sample_meter,
     px_recorder = NewRecorder \<lparr>usage_records = [], agent_sessions = []\<rparr> 10 1, px_budget = None, px_tracker = None,
     px_metrics = False, px_limiter = None, px_resolver = None, px_blocklist = None\<rparr>"

definition quiet_env :: serve_env where
  "quiet_env = \<lparr>en_body_error = None, en_store = Map.empty, en_store_fault = None, en_block_clocks = (0, 0), en_order = id,
     en_track_clocks = (0, 0, 0, 0), en_end_clock = 0, en_limit_clock = 0,
     en_ledger = \<lparr>GetTotalSpend_i = (\<lambda>_ _ _. (0, None)), GetTotalSpendByTenant_i = (\<lambda>_ _ _. (0, None))\<rparr>,
     en_key_clocks = (0, 0, 0), en_tenant_clocks = (0, 0, 0), en_start = 0\<rparr>"

definition groq_request :: request where
  "groq_request = \<lparr>Method = ''POST'', Host = '''', Path = ''/groq/v1/chat/completions'', RawQuery = '''',
     ReqHeader = [''Authorization'' \<mapsto> [''Bearer gsk'']], ReqBody = ''''\<rparr>"

lemma bare_facts:
  "Detect (px_registry bare_proxy) groq_request = Some (POpenAI (NewGroq ''''))"
  "read_body quiet_env groq_request = Inr ''''" "Path groq_request \<noteq> ''/health''"
  "passes quiet_env bare_proxy groq_request q"
  by (simp_all add: bare_proxy_def groq_request_def quiet_env_def Detect_def NewGroq_def NewOpenAICompatible_def
      oc_Match_def HasPrefix_def read_body_def passes_def)

theorem forwarded_iff_checked_witness:
  "\<exists>cx. fst (ServeHTTP quiet_env bare_proxy groq_request) = Forwarded cx groq_request"
  using forwarded_iff_checked[of quiet_env bare_proxy groq_request] bare_facts by simp

definition blocked_proxy :: "(unit, database) proxy" where
  "blocked_proxy = bare_proxy\<lparr>px_blocklist := Some \<lparr>bl_patterns = [''gsk''], bl_lastLoad = 0, bl_ttl = 10 * Second\<rparr>\<rparr>"

lemma Matched_gsk: "Matched ''gsk'' ''gsk''"
  by code_simp

theorem refused_early_witness:
  "ServeHTTP quiet_env blocked_proxy groq_request =
     (Replied (writeJSONError 403 ''API key is blocked''), [], blocked_proxy) \<and>
   px_recorder blocked_proxy = px_recorder bare_proxy"
proof -
  have key: "ExtractAPIKey groq_request = ''gsk''"
    by (simp add: ExtractAPIKey_def groq_request_def header_Get_def TrimPrefix_Bearer HasPrefix_Bearer)
  have d: "Detect (px_registry blocked_proxy) groq_request = Some (POpenAI (NewGroq ''''))"
    using bare_facts(1) by (simp add: blocked_proxy_def)
  have "ServeHTTP quiet_env blocked_proxy groq_request =
      (Replied (writeJSONError 403 ''API key is blocked''), [], blocked_proxy)"
    using bare_facts(2,3) d
    by (simp add: ServeHTTP_def Let_def key check_blocklist_def blocked_proxy_def IsBlocked_def quiet_env_def time_Sub_def
        Second_def Matched_gsk bare_proxy_def)
  then show ?thesis
    using refused_early[OF bare_facts(3) d bare_facts(2)] by (simp add: blocked_proxy_def)
qed


definition sample_cx :: "provider \<Rightarrow> req_context" where
  "sample_cx prov = \<lparr>cx_Provider = prov, cx_RequestBody = '''', cx_RequestMeta = None, cx_StartTime = 0, cx_APIKeyHash = ''h'',
     cx_AgentID = '''', cx_SessionID = '''', cx_UserID = '''', cx_BudgetResult = None, cx_Task = '''', cx_SessionEnd = False,
     cx_TenantID = ''''\<rparr>"


text \<open>
  When the upstream URL has a path, the provider's prefix is not stripped: the upstream path is
  put in front before the prefix is looked for at the start. With its own default upstream URL a
  request to Groq goes to \<open>/openai/groq/v1/chat/completions\<close>.
\<close>

theorem upstream_path_keeps_prefix:
  assumes "parse_url (pv_UpstreamURL (POpenAI oc)) = Some u" and "oc_pathPrefix oc \<noteq> ''''"
    and "\<not> HasSuffix (ur_Path u) ''/''" and "HasPrefix (Path r) ''/''"
    and "\<not> HasPrefix (ur_Path u @ Path r) (oc_pathPrefix oc)"
  shows "Path (rewrite parse_url (sample_cx (POpenAI oc)) r) = ur_Path u @ Path r"
  using assms
  by (simp add: rewrite_def sample_cx_def SetURL_def join_path_def Let_def oc_RewritePath_def TrimPrefix_def StripAgentHeaders_def)

theorem upstream_path_keeps_prefix_witness:
  "Path (rewrite (\<lambda>_. Some \<lparr>ur_Host = ''api.groq.com'', ur_Path = ''/openai'', ur_RawQuery = ''''\<rparr>)
      (sample_cx (POpenAI (NewGroq ''''))) groq_request) = ''/openai/groq/v1/chat/completions''"
  using upstream_path_keeps_prefix[of "\<lambda>_. Some \<lparr>ur_Host = ''api.groq.com'', ur_Path = ''/openai'', ur_RawQuery = ''''\<rparr>"
      "NewGroq ''''" "\<lparr>ur_Host = ''api.groq.com'', ur_Path = ''/openai'', ur_RawQuery = ''''\<rparr>" groq_request]
  by (simp add: NewGroq_def NewOpenAICompatible_def groq_request_def HasSuffix_def HasPrefix_def)

text \<open>
  An answer that is metered: one record, with the tokens of the answer and their cost, is put into the
  recorder's buffer, and the client gets the upstream body.
\<close>

lemma exchange_metered:
  assumes "transport t (rewrite parse_url cx (outbound r)) = (Inr resp, t')"
    and "200 \<le> StatusCode resp" and "StatusCode resp < 300" and "length (RespBody resp) \<le> maxResponseBodyBytes"
    and "\<not> Contains (header_Get (RespHeader (with_warning (cx_BudgetResult cx) resp)) ''Content-Type'') ''text/event-stream''"
    and "pv_ParseResponse (cx_Provider cx) (RespBody resp) = Some m"
    and "\<not> ch_closed (px_recorder p)" and "length (r_buf (px_recorder p)) < r_cap (px_recorder p)"
    and "u = response_record (mt_pricing (px_meter p)) cx (Path (rewrite parse_url cx (outbound r))) (StatusCode resp) m ulid now"
  shows "\<exists>p2 resp'. exchange outbound parse_url transport cx r None ulid now (p, t) = (Answered (Plain resp'), p2, t') \<and>
    RespBody resp' = RespBody resp \<and> StatusCode resp' = StatusCode resp \<and>
    apply_effects (usage_effects (px_parts p) False u) p = Inr p2 \<and> r_buf (px_recorder p2) = r_buf (px_recorder p) @ [u]"
proof -
  define resp' where "resp' = with_warning (cx_BudgetResult cx) resp"
  have resp': "RespBody resp' = RespBody resp" "StatusCode resp' = StatusCode resp"
    by (auto simp: resp'_def with_warning_def split: option.splits)
  have mod: "modifyResponse (px_parts p) (mt_pricing (px_meter p)) cx (Path (rewrite parse_url cx (outbound r))) None ulid now resp =
      (usage_effects (px_parts p) False u, Plain resp')"
    using assms(2-6) resp' by (simp add: modifyResponse_def Let_def resp'_def[symmetric] assms(9))
  have "Record (px_recorder p) u = Inr ((px_recorder p)\<lparr>r_buf := r_buf (px_recorder p) @ [u]\<rparr>)"
    using assms(7,8) by (simp add: Record_def)
  then obtain p2 where "apply_effects (usage_effects (px_parts p) False u) p = Inr p2"
    "px_recorder p2 = (px_recorder p)\<lparr>r_buf := r_buf (px_recorder p) @ [u]\<rparr>"
    using apply_usage_effects by blast
  then show ?thesis using assms(1) mod resp' by (intro exI[of _ p2] exI[of _ resp']) (simp add: exchange_def Let_def)
qed

definition bare_cx :: req_context where
  "bare_cx = \<lparr>cx_Provider = POpenAI (NewGroq ''''), cx_RequestBody = '''', cx_RequestMeta = None, cx_StartTime = 0,
     cx_APIKeyHash = HashAPIKey ''gsk'', cx_AgentID = '''', cx_SessionID = '''', cx_UserID = '''', cx_BudgetResult = None,
     cx_Task = '''', cx_SessionEnd = False, cx_TenantID = ''''\<rparr>"

lemma groq_key: "ExtractAPIKey groq_request = ''gsk''"
  by (simp add: ExtractAPIKey_def groq_request_def header_Get_def TrimPrefix_Bearer HasPrefix_Bearer)

definition groq_answer :: response where
  "groq_answer = \<lparr>StatusCode = 200, RespHeader = [''Content-Type'' \<mapsto> [''application/json'']],
     RespBody = ''{\"model\":\"m\",\"usage\":{\"prompt_tokens\":2,\"completion_tokens\":1}}''\<rparr>"

lemma groq_answer_facts:
  "pv_ParseResponse (cx_Provider bare_cx) (RespBody groq_answer) =
     Some \<lparr>rs_Model = ''m'', rs_InputTokens = 2, rs_OutputTokens = 1, rs_TotalTokens = 0\<rparr>"
  "\<not> Contains (header_Get (RespHeader groq_answer) ''Content-Type'') ''text/event-stream''"
  "length (RespBody groq_answer) \<le> maxResponseBodyBytes"
proof -
  show "pv_ParseResponse (cx_Provider bare_cx) (RespBody groq_answer) =
     Some \<lparr>rs_Model = ''m'', rs_InputTokens = 2, rs_OutputTokens = 1, rs_TotalTokens = 0\<rparr>"
    unfolding bare_cx_def groq_answer_def req_context.simps response.simps pv_ParseResponse.simps by code_simp
  show "\<not> Contains (header_Get (RespHeader groq_answer) ''Content-Type'') ''text/event-stream''" by code_simp
  show "length (RespBody groq_answer) \<le> maxResponseBodyBytes" by (simp add: groq_answer_def maxResponseBodyBytes_def)
qed

text \<open>
  While the circuit breaker is open and its timeout has not passed, a forwarded request is answered
  with status 502, nothing is sent upstream, and nothing is recorded.
\<close>

theorem breaker_open_answer:
  assumes "b_state bt = stateOpen" and "\<not> time_Sub t0 (lastTripped bt) > timeout bt"
  shows "exchange outbound parse_url (\<lambda>bt out. b_RoundTrip base bt out t0 t1) cx r body_err ulid now (p, bt) =
    (Failed (writeJSONError 502 ''upstream request failed''), p, bt)"
  using assms by (simp add: exchange_def Let_def b_RoundTrip_def b_allow_def errorHandler_def)

theorem breaker_open_answer_witness:
  "let bt = (NewBreakerTransport 1 (30 * Second) 0)\<lparr>b_state := stateOpen, lastTripped := 0\<rparr>
   in exchange id (\<lambda>_. None) (\<lambda>bt out. b_RoundTrip (\<lambda>_. Inr groq_answer) bt out 5 6) bare_cx groq_request None ''i'' 6 (bare_proxy, bt) =
     (Failed (writeJSONError 502 ''upstream request failed''), bare_proxy, bt)"
  unfolding Let_def by (rule breaker_open_answer) (simp_all add: NewBreakerTransport_def time_Sub_def Second_def)

text \<open>
  The pre-flight check does not look at the action of the rule: when the limit of a rule that only
  warns is used up, every request whose token limit has a price is refused with status 429.
\<close>

theorem preflight_ignores_warn:
  assumes "r_Decision br = DWarn" and "DailyLimit br > 0" and "fsub (DailyLimit br) (DailySpent br) \<le> 0"
    and "rq_MaxTokens q > 0" and "Calculate pr (rq_Model q) 0 (rq_MaxTokens q) > 0"
  shows "\<exists>rep. preflight pr (Some q) br = Some rep \<and> rp_status rep = 429"
  using assms by (simp add: preflight_def Let_def writePreflightError_def)

theorem preflight_ignores_warn_witness:
  "\<exists>rep. preflight [(''m'', \<lparr>InputPerMTok = 0, OutputPerMTok = 1000000\<rparr>)]
      (Some \<lparr>rq_Model = ''m'', rq_MaxTokens = 1, rq_Stream = False\<rparr>)
      \<lparr>r_Decision = DWarn, DailySpent = 1, DailyLimit = 1, MonthlySpent = 0, MonthlyLimit = 0\<rparr> = Some rep \<and> rp_status rep = 429"
proof -
  have "Calculate [(''m'', \<lparr>InputPerMTok = 0, OutputPerMTok = 1000000\<rparr>)] ''m'' 0 1 > 0" by code_simp
  moreover have "fsub 1 1 \<le> 0" by code_simp
  ultimately show ?thesis
    using preflight_ignores_warn[of "\<lparr>r_Decision = DWarn, DailySpent = 1, DailyLimit = 1, MonthlySpent = 0, MonthlyLimit = 0\<rparr>"
        "\<lparr>rq_Model = ''m'', rq_MaxTokens = 1, rq_Stream = False\<rparr>"] by simp
qed

text \<open>A body of more than 50 MB is cut, here in an answer that is not metered; the headers are not.\<close>

lemma response_truncated:
  "\<not> Contains (header_Get (RespHeader (with_warning (cx_BudgetResult cx) resp)) ''Content-Type'') ''text/event-stream'' \<Longrightarrow>
   StatusCode resp \<ge> 300 \<Longrightarrow>
   modifyResponse ps pr cx path None ulid now resp =
     ([], Plain ((with_warning (cx_BudgetResult cx) resp)\<lparr>RespBody := take maxResponseBodyBytes (RespBody resp)\<rparr>))"
  by (auto simp: modifyResponse_def Let_def with_warning_def split: option.splits)

end
