(* ===== verification/Paths.thy ===== *)
theory Paths
  imports Http
begin

text \<open>
  Slash-separated paths: \<open>path.Clean\<close>, \<open>path.Join\<close> and \<open>filepath.Dir\<close> of the standard library on Unix,
  and which paths name a file of an \<open>fs.FS\<close>.
\<close>

section \<open>Cleaning and joining\<close>

text \<open>\<open>path.Clean\<close>, segment by segment, and \<open>path.Join\<close> of two elements.\<close>

definition clean_seg :: "bool \<Rightarrow> string list \<Rightarrow> string \<Rightarrow> string list" where
  "clean_seg rooted out seg =
    (if seg = '''' \<or> seg = ''.'' then out
     else if seg = ''..'' then
       (if out \<noteq> [] \<and> last out \<noteq> ''..'' then butlast out else if rooted then out else out @ [seg])
     else out @ [seg])"

definition clean_segs :: "string \<Rightarrow> string list" where
  "clean_segs p = foldl (clean_seg (HasPrefix p ''/'')) [] (Split (CHR ''/'') p)"

fun join_segs :: "string list \<Rightarrow> string" where
  "join_segs [] = ''''"
| "join_segs [x] = x"
| "join_segs (x # xs) = x @ ''/'' @ join_segs xs"

definition Clean :: "string \<Rightarrow> string" where
  "Clean p =
    (let out = (if HasPrefix p ''/'' then ''/'' else '''') @ join_segs (clean_segs p)
     in if out = '''' then ''.'' else out)"

definition path_Join :: "string \<Rightarrow> string \<Rightarrow> string" where
  "path_Join a b =
    (if a = '''' \<and> b = '''' then ''''
     else Clean (if a = '''' then b else if b = '''' then a else a @ ''/'' @ b))"

text \<open>\<open>filepath.Dir\<close>: all but the last element, cleaned.\<close>

definition filepath_Dir :: "string \<Rightarrow> string" where
  "filepath_Dir p = Clean (rev (dropWhile (\<lambda>c. c \<noteq> CHR ''/'') (rev p)))"

text \<open>
  \<open>fs.ValidPath\<close> on valid UTF-8: unrooted, and no element is empty, a dot or a double dot, except that
  the path may be a single dot.
\<close>

definition ValidPath :: "string \<Rightarrow> bool" where
  "ValidPath name \<longleftrightarrow> name = ''.'' \<or> list_all (\<lambda>x. x \<noteq> '''' \<and> x \<noteq> ''.'' \<and> x \<noteq> ''..'') (Split (CHR ''/'') name)"

section \<open>Segments\<close>

lemma Split_nonempty [simp]: "Split c s \<noteq> []"
  by (cases s) (auto split: list.split)

lemma Split_append_sep: "Split c (s @ c # t) = Split c s @ Split c t"
  by (induction s) (auto split: list.split)

lemma Split_no_sep: "c \<notin> set s \<Longrightarrow> Split c s = [s]"
  by (induction s) auto

lemma Split_no_sep_inside: "x \<in> set (Split c s) \<Longrightarrow> c \<notin> set x"
  by (induction s arbitrary: x) (auto split: list.splits if_splits)

lemma Split_infix: "x \<in> set (Split c s) \<Longrightarrow> \<exists>a b. s = a @ x @ b"
proof (induction s arbitrary: x)
  case (Cons d s)
  show ?case
  proof (cases "d = c")
    case True
    then show ?thesis using Cons by (auto intro: exI[of _ "[]"]) (metis append_Cons)
  next
    case False
    obtain w ws where w: "Split c s = w # ws" by (cases "Split c s") auto
    obtain b where "s = w @ b"
    proof -
      have "\<exists>b. s = hd (Split c s) @ b" for s by (induction s) (auto split: list.splits)
      then show ?thesis using that w by (metis list.sel(1))
    qed
    then show ?thesis using Cons False w by (auto intro: exI[of _ "[]"]) (metis append_Cons)
  qed
qed simp

lemma Contains_infix: "Contains (a @ p @ b) p"
proof -
  have "Index (a @ p @ b) p \<noteq> None" by (induction a) (subst Index.simps, auto)+
  then show ?thesis by (simp add: Contains_def)
qed

text \<open>Segments that are neither empty nor a dot stay as they are.\<close>

definition plain_seg :: "string \<Rightarrow> bool" where
  "plain_seg x \<longleftrightarrow> x \<noteq> '''' \<and> x \<noteq> ''.'' \<and> x \<noteq> ''..'' \<and> CHR ''/'' \<notin> set x"

lemma foldl_no_dots:
  assumes "''..'' \<notin> set xs"
  shows "foldl (clean_seg rooted) out xs = out @ filter (\<lambda>x. x \<noteq> '''' \<and> x \<noteq> ''.'') xs"
  using assms by (induction xs arbitrary: out) (auto simp: clean_seg_def)

lemma clean_seg_plain:
  "list_all plain_seg out \<Longrightarrow> CHR ''/'' \<notin> set x \<Longrightarrow> list_all plain_seg (clean_seg True out x)"
  by (auto simp: clean_seg_def plain_seg_def list_all_iff dest: in_set_butlastD)

lemma foldl_rooted_plain:
  "list_all plain_seg out \<Longrightarrow> \<forall>x \<in> set xs. CHR ''/'' \<notin> set x \<Longrightarrow> list_all plain_seg (foldl (clean_seg True) out xs)"
  by (induction xs arbitrary: out) (simp_all add: clean_seg_plain)

lemma clean_segs_plain:
  assumes "HasPrefix p ''/''"
  shows "list_all plain_seg (clean_segs p)"
  using foldl_rooted_plain[of "[]" "Split (CHR ''/'') p"] assms by (auto simp: clean_segs_def dest: Split_no_sep_inside)

lemma Split_join_segs:
  assumes "xs \<noteq> []" "list_all plain_seg xs"
  shows "Split (CHR ''/'') (join_segs xs) = xs"
  using assms by (induction xs rule: join_segs.induct) (auto simp: Split_no_sep Split_append_sep plain_seg_def)

lemma filter_plain: "list_all plain_seg xs \<Longrightarrow> filter (\<lambda>x. x \<noteq> '''' \<and> x \<noteq> ''.'') xs = xs \<and> ''..'' \<notin> set xs"
  by (auto simp: list_all_iff plain_seg_def filter_id_conv)

lemma HasPrefix_slash_iff: "HasPrefix p ''/'' \<longleftrightarrow> (\<exists>q. p = CHR ''/'' # q)"
  by (auto simp: HasPrefix_iff)

lemma clean_segs_rooted:
  "clean_segs (CHR ''/'' # q) = foldl (clean_seg True) [] (Split (CHR ''/'') q)"
  by (simp add: clean_segs_def HasPrefix_def clean_seg_def)

lemma clean_segs_Nil [simp]: "clean_segs [] = []"
  by (simp add: clean_segs_def clean_seg_def)

lemma Clean_rooted: "Clean (CHR ''/'' # q) = CHR ''/'' # join_segs (clean_segs (CHR ''/'' # q))"
  by (simp add: Clean_def Let_def HasPrefix_def)

lemma foldl_plain_id:
  assumes "list_all plain_seg xs"
  shows "foldl (clean_seg True) out (Split (CHR ''/'') (join_segs xs)) = out @ xs"
proof (cases "xs = []")
  case True
  then show ?thesis by (simp add: clean_seg_def)
next
  case False
  then show ?thesis using assms filter_plain[OF assms] by (simp add: Split_join_segs foldl_no_dots)
qed

text \<open>Joining a rooted base path and a cleaned rooted path appends the segments.\<close>

lemma path_Join_rooted:
  assumes base: "base = '''' \<or> HasPrefix base ''/''" and p: "HasPrefix p ''/''"
  shows "path_Join base (Clean p) = CHR ''/'' # join_segs (clean_segs base @ clean_segs p)"
proof -
  obtain q where q: "p = CHR ''/'' # q" using p by (auto simp: HasPrefix_slash_iff)
  have plain: "list_all plain_seg (clean_segs p)" by (rule clean_segs_plain[OF p])
  have cp: "Clean p = CHR ''/'' # join_segs (clean_segs p)" by (simp add: q Clean_rooted)
  show ?thesis
  proof (cases "base = ''''")
    case True
    have "clean_segs (Clean p) = clean_segs p" using foldl_plain_id[OF plain, of "[]"] by (simp add: cp clean_segs_rooted)
    then show ?thesis using True by (simp add: path_Join_def cp Clean_rooted)
  next
    case False
    then obtain b where b: "base = CHR ''/'' # b" using base by (auto simp: HasPrefix_slash_iff)
    have "clean_segs (base @ ''/'' @ Clean p) = clean_segs base @ clean_segs p"
      using foldl_plain_id[OF plain] by (simp add: b cp clean_segs_rooted Split_append_sep clean_seg_def)
    then show ?thesis using b by (simp add: path_Join_def cp Clean_rooted)
  qed
qed

lemma join_Split: "join_segs (Split (CHR ''/'') s) = s"
proof (induction s)
  case (Cons c s)
  obtain w ws where w: "Split (CHR ''/'') s = w # ws" by (cases "Split (CHR ''/'') s") auto
  then show ?case using Cons by (cases ws) auto
qed simp

lemma Clean_nonempty [simp]: "Clean p \<noteq> ''''"
  by (simp add: Clean_def Let_def)

lemma filepath_Dir_nonempty [simp]: "filepath_Dir p \<noteq> ''''"
  by (simp add: filepath_Dir_def)

lemma ValidPath_segs: "ValidPath name \<longleftrightarrow> name = ''.'' \<or> list_all plain_seg (Split (CHR ''/'') name)"
  by (auto simp: ValidPath_def plain_seg_def list_all_iff dest: Split_no_sep_inside)

text \<open>A cleaned rooted path is a slash, or a slash and a valid path.\<close>

lemma Clean_valid:
  assumes "HasPrefix p ''/''" and "Clean p \<noteq> ''/''"
  shows "ValidPath (TrimPrefix (Clean p) ''/'')"
proof -
  obtain q where p: "p = CHR ''/'' # q" using assms(1) by (auto simp: HasPrefix_slash_iff)
  have c: "Clean p = ''/'' @ join_segs (clean_segs p)" by (simp add: p Clean_rooted)
  then have "clean_segs p \<noteq> []" using assms(2) by auto
  then show ?thesis
    using clean_segs_plain[OF assms(1)] Split_join_segs[of "clean_segs p"] unfolding c TrimPrefix_append ValidPath_segs by simp
qed

text \<open>A rooted path whose rest is valid is clean.\<close>

lemma valid_Clean:
  assumes "ValidPath x" and "x \<noteq> ''.''"
  shows "Clean (CHR ''/'' # x) = CHR ''/'' # x"
proof -
  have plain: "list_all plain_seg (Split (CHR ''/'') x)" using assms by (simp add: ValidPath_segs)
  have "clean_segs (CHR ''/'' # x) = Split (CHR ''/'') x"
    using filter_plain[OF plain] by (simp add: clean_segs_rooted foldl_no_dots)
  then show ?thesis by (simp add: Clean_rooted join_Split)
qed

end
