(* ===== verification/MCP.thy ===== *)
theory MCP
  imports Proxy Paths "HOL-Library.Code_Target_Nat"
begin

text \<open>
  Metering of MCP tool calls (\<open>internal/mcp\<close>): the prices, the JSON-RPC messages, the interceptor
  that pairs the requests of a client with the answers of the server, the HTTP proxy with its path
  check and its server-sent events, and the lines the stdio wrapper passes on.

  A message reaches the interceptor together with the clock readings and the fresh id its handling
  uses. The calls of \<open>HandleMessage\<close> from two goroutines are interleaved in any order: each has one
  critical section on the map of calls in flight. A record that is made is handed to
  \<open>Recorder.Record\<close>.
\<close>

section \<open>Prices\<close>

record PricingRule =
  pr_Server :: string
  pr_Tool :: string
  pr_CostPerCall :: float64

fun cost_loop :: "PricingRule list \<Rightarrow> string \<Rightarrow> string \<Rightarrow> float64 option \<Rightarrow> float64" where
  "cost_loop [] serverName toolName wildcard = (case wildcard of Some c \<Rightarrow> c | None \<Rightarrow> 0)"
| "cost_loop (r # rs) serverName toolName wildcard =
    (if pr_Server r \<noteq> serverName then cost_loop rs serverName toolName wildcard
     else if pr_Tool r = toolName then pr_CostPerCall r
     else if pr_Tool r = '''' then cost_loop rs serverName toolName (Some (pr_CostPerCall r))
     else cost_loop rs serverName toolName wildcard)"

definition CostForCall :: "PricingRule list \<Rightarrow> string \<Rightarrow> string \<Rightarrow> float64" where
  "CostForCall rules serverName toolName = cost_loop rules serverName toolName None"

section \<open>JSON-RPC\<close>

text \<open>
  The text of a member of a JSON object, as a \<open>json.RawMessage\<close> field holds it: what the scanner
  consumed for the value. The last member whose name matches counts.
\<close>

fun consumed :: "string \<Rightarrow> string \<Rightarrow> string" where
  "consumed [] r = []"
| "consumed (c # s) r = (if c # s = r then [] else c # consumed s r)"

fun raw_members :: "nat \<Rightarrow> string \<Rightarrow> (string \<times> string) list" where
  "raw_members 0 s = []"
| "raw_members (Suc n) s =
    (case s of
       [] \<Rightarrow> []
     | _ # s1 \<Rightarrow>
         (case scan_string s1 of
            None \<Rightarrow> []
          | Some (k, s2) \<Rightarrow>
              (let s3 = skip_ws (tl (skip_ws s2)) in
               case parse_value n 1 s3 of
                 None \<Rightarrow> []
               | Some (v, r) \<Rightarrow> (k, consumed s3 r) #
                   (case skip_ws r of
                      e # t \<Rightarrow> if e = CHR '','' then raw_members n (skip_ws t) else []
                    | [] \<Rightarrow> []))))"

definition raw_field :: "string \<Rightarrow> string \<Rightarrow> string option" where
  "raw_field name data =
    (case filter (\<lambda>(k, _). fold_name (unquote k) = fold_name name)
        (raw_members (2 * length data + 2) (skip_ws (tl (skip_ws data)))) of
       [] \<Rightarrow> None
     | ms \<Rightarrow> Some (snd (last ms)))"

record rpc_Request =
  jq_JSONRPC :: string
  jq_ID :: "string option"
  jq_Method :: string
  jq_Params :: "json option"

record RPCError =
  je_Code :: int
  je_Message :: string
  je_Data :: "json option"

record rpc_Response =
  jr_JSONRPC :: string
  jr_ID :: "string option"
  jr_Result :: "json option"
  jr_Error :: "RPCError option"

text \<open>The text of the id is read with \<open>raw_field\<close>; its decoder accepts every value.\<close>

definition decode_any :: "'a decoder" where
  "decode_any j x = Some x"

definition Request_fields :: "rpc_Request fields" where
  "Request_fields = [
    (''jsonrpc'', field jq_JSONRPC jq_JSONRPC_update decode_string),
    (''id'', decode_any),
    (''method'', field jq_Method jq_Method_update decode_string),
    (''params'', field jq_Params jq_Params_update decode_raw)]"

definition RPCError_fields :: "RPCError fields" where
  "RPCError_fields = [
    (''code'', field je_Code je_Code_update decode_int),
    (''message'', field je_Message je_Message_update decode_string),
    (''data'', field je_Data je_Data_update decode_raw)]"

definition Response_fields :: "rpc_Response fields" where
  "Response_fields = [
    (''jsonrpc'', field jr_JSONRPC jr_JSONRPC_update decode_string),
    (''id'', decode_any),
    (''result'', field jr_Result jr_Result_update decode_raw),
    (''error'', field jr_Error jr_Error_update
       (decode_ptr \<lparr>je_Code = 0, je_Message = '''', je_Data = None\<rparr> (decode_struct RPCError_fields)))]"

record rpc_probe =
  pb_Method :: string
  pb_Result :: "json option"
  pb_Error :: "json option"

definition probe_fields :: "rpc_probe fields" where
  "probe_fields = [
    (''method'', field pb_Method pb_Method_update decode_string),
    (''result'', field pb_Result pb_Result_update decode_raw),
    (''error'', field pb_Error pb_Error_update decode_raw)]"

datatype rpc_message = RpcRequest rpc_Request | RpcResponse rpc_Response

definition ParseMessage :: "string \<Rightarrow> string + rpc_message" where
  "ParseMessage data0 =
    (let data = TrimSpace data0 in
     if data = '''' then Inl ''empty message''
     else case Unmarshal (decode_struct probe_fields) \<lparr>pb_Method = '''', pb_Result = None, pb_Error = None\<rparr> data of
       None \<Rightarrow> Inl ''invalid JSON-RPC''
     | Some probe \<Rightarrow>
         if pb_Method probe \<noteq> '''' then
           (case Unmarshal (decode_struct Request_fields)
               \<lparr>jq_JSONRPC = '''', jq_ID = None, jq_Method = '''', jq_Params = None\<rparr> data of
              None \<Rightarrow> Inl ''parsing request''
            | Some r \<Rightarrow> Inr (RpcRequest (r\<lparr>jq_ID := raw_field ''id'' data\<rparr>)))
         else if pb_Result probe \<noteq> None \<or> pb_Error probe \<noteq> None then
           (case Unmarshal (decode_struct Response_fields)
               \<lparr>jr_JSONRPC = '''', jr_ID = None, jr_Result = None, jr_Error = None\<rparr> data of
              None \<Rightarrow> Inl ''parsing response''
            | Some r \<Rightarrow> Inr (RpcResponse (r\<lparr>jr_ID := raw_field ''id'' data\<rparr>)))
         else Inl ''message is neither request nor response'')"

section \<open>The interceptor\<close>

definition methodToolsCall :: string where "methodToolsCall = ''tools/call''"

record AgentContext =
  ac_AgentID :: string
  ac_SessionID :: string
  ac_UserID :: string

record pendingCall =
  pc_toolName :: string
  pc_startTime :: time

record Interceptor =
  it_serverName :: string
  it_pricer :: "PricingRule list"
  it_agentID :: string
  it_sessionID :: string
  it_userID :: string
  it_inflight :: "string \<rightharpoonup> pendingCall"

definition NewInterceptor :: "string \<Rightarrow> PricingRule list \<Rightarrow> string \<Rightarrow> string \<Rightarrow> string \<Rightarrow> Interceptor" where
  "NewInterceptor serverName pricer agentID sessionID userID =
    \<lparr>it_serverName = serverName, it_pricer = pricer, it_agentID = agentID, it_sessionID = sessionID,
     it_userID = userID, it_inflight = Map.empty\<rparr>"

record ToolCallParams =
  tc_Name :: string
  tc_Arguments :: "json option"

definition ToolCallParams_fields :: "ToolCallParams fields" where
  "ToolCallParams_fields = [
    (''name'', field tc_Name tc_Name_update decode_string),
    (''arguments'', field tc_Arguments tc_Arguments_update decode_raw)]"

text \<open>The guards of \<open>handleClientRequest\<close>: the id and the tool of a call that will be metered.\<close>

definition tool_call :: "rpc_Request \<Rightarrow> (string \<times> string) option" where
  "tool_call req =
    (if jq_Method req \<noteq> methodToolsCall then None
     else case jq_ID req of
       None \<Rightarrow> None
     | Some idKey \<Rightarrow>
         (case jq_Params req of
            None \<Rightarrow> None
          | Some j \<Rightarrow> map_option (\<lambda>params. (idKey, tc_Name params))
              (decode_struct ToolCallParams_fields j \<lparr>tc_Name = '''', tc_Arguments = None\<rparr>)))"

definition handleClientRequest :: "Interceptor \<Rightarrow> rpc_Request \<Rightarrow> time \<Rightarrow> Interceptor" where
  "handleClientRequest i req now =
    (case tool_call req of
       None \<Rightarrow> i
     | Some (idKey, tool) \<Rightarrow>
         i\<lparr>it_inflight := (it_inflight i)(idKey \<mapsto> \<lparr>pc_toolName = tool, pc_startTime = now\<rparr>)\<rparr>)"

record ServerInfo =
  si_Name :: string
  si_Version :: string

record InitializeResult =
  ir_ServerInfo :: ServerInfo

definition InitializeResult_fields :: "InitializeResult fields" where
  "InitializeResult_fields = [
    (''serverInfo'', field ir_ServerInfo ir_ServerInfo_update (decode_struct [
       (''name'', field si_Name si_Name_update decode_string),
       (''version'', field si_Version si_Version_update decode_string)]))]"

definition tryExtractServerName :: "Interceptor \<Rightarrow> rpc_Response \<Rightarrow> Interceptor" where
  "tryExtractServerName i resp =
    (case jr_Result resp of
       None \<Rightarrow> i
     | Some j \<Rightarrow>
         (case decode_struct InitializeResult_fields j \<lparr>ir_ServerInfo = \<lparr>si_Name = '''', si_Version = ''''\<rparr>\<rparr> of
            None \<Rightarrow> i
          | Some result \<Rightarrow>
              if si_Name (ir_ServerInfo result) \<noteq> ''''
              then i\<lparr>it_serverName := si_Name (ir_ServerInfo result)\<rparr> else i))"

text \<open>What comes with a message: the direction, the agent context, two clock readings and an id.\<close>

record mcp_message =
  mm_data :: string
  mm_fromClient :: bool
  mm_ctx :: "AgentContext option"
  mm_now :: time
  mm_now2 :: time
  mm_ulid :: string

definition tool_record :: "Interceptor \<Rightarrow> pendingCall \<Rightarrow> bool \<Rightarrow> mcp_message \<Rightarrow> UsageRecord" where
  "tool_record i pending isError m =
    (let duration = time_Sub (mm_now m) (pc_startTime pending);
         (agentID, sessionID, userID) =
           (case mm_ctx m of
              None \<Rightarrow> (it_agentID i, it_sessionID i, it_userID i)
            | Some ctx \<Rightarrow> (ac_AgentID ctx, ac_SessionID ctx, ac_UserID ctx))
     in \<lparr>u_ID = mm_ulid m, u_Timestamp = mm_now2 m, u_Provider = ''mcp'',
         u_Model = it_serverName i @ '':'' @ pc_toolName pending, u_APIKeyHash = '''',
         u_InputTokens = 0, u_OutputTokens = 0, u_TotalTokens = 0,
         u_CostUSD = CostForCall (it_pricer i) (it_serverName i) (pc_toolName pending),
         u_Estimated = False, u_DurationMS = Milliseconds duration,
         u_StatusCode = (if isError then 500 else 200), u_Path = methodToolsCall,
         u_AgentID = agentID, u_SessionID = sessionID, u_UserID = userID, u_TenantID = ''''\<rparr>)"

definition handleServerResponse :: "Interceptor \<Rightarrow> rpc_Response \<Rightarrow> mcp_message \<Rightarrow> UsageRecord option \<times> Interceptor" where
  "handleServerResponse i resp m =
    (case jr_ID resp of
       None \<Rightarrow> (None, i)
     | Some idKey \<Rightarrow>
         (case it_inflight i idKey of
            None \<Rightarrow> (None, tryExtractServerName i resp)
          | Some pending \<Rightarrow>
              (Some (tool_record i pending (jr_Error resp \<noteq> None) m),
               i\<lparr>it_inflight := (it_inflight i)(idKey := None)\<rparr>)))"

definition HandleMessage :: "Interceptor \<Rightarrow> mcp_message \<Rightarrow> UsageRecord option \<times> Interceptor" where
  "HandleMessage i m =
    (case ParseMessage (mm_data m) of
       Inl err \<Rightarrow> (None, i)
     | Inr (RpcRequest req) \<Rightarrow> (None, if mm_fromClient m then handleClientRequest i req (mm_now m) else i)
     | Inr (RpcResponse resp) \<Rightarrow> if mm_fromClient m then (None, i) else handleServerResponse i resp m)"

fun mcp_run :: "Interceptor \<Rightarrow> mcp_message list \<Rightarrow> UsageRecord list \<times> Interceptor" where
  "mcp_run i [] = ([], i)"
| "mcp_run i (m # ms) =
    (case HandleMessage i m of (r, i1) \<Rightarrow>
       case mcp_run i1 ms of (rs, i2) \<Rightarrow> (case r of None \<Rightarrow> rs | Some x \<Rightarrow> x # rs, i2))"

section \<open>Lines\<close>

definition maxScanBuffer :: nat where "maxScanBuffer = 2 ^ 20"

text \<open>
  \<open>bufio.Scanner\<close> with \<open>ScanLines\<close> and a buffer of \<open>limit\<close> bytes: a line and its end have to fit
  into the buffer, otherwise the scan stops. A carriage return before the end is dropped.
\<close>

definition drop_cr :: "string \<Rightarrow> string" where
  "drop_cr s = (if HasSuffix s [CR] then butlast s else s)"

fun scan_lines :: "nat \<Rightarrow> string \<Rightarrow> string \<Rightarrow> string list" where
  "scan_lines limit acc [] = (if acc = [] \<or> limit \<le> length acc then [] else [drop_cr acc])"
| "scan_lines limit acc (c # s) =
    (if limit \<le> length acc then []
     else if c = LF then drop_cr acc # scan_lines limit [] s
     else scan_lines limit (acc @ [c]) s)"

text \<open>What the wrapper and the event stream write for a line.\<close>

definition echo_lines :: "string list \<Rightarrow> string" where
  "echo_lines ls = concat (map (\<lambda>l. l @ [LF]) ls)"

text \<open>
  One direction of \<open>StdioWrapper.Run\<close>: the messages the interceptor sees, one per line, with the
  clock readings and ids of each, and the bytes that are passed on while the writes succeed.
\<close>

definition pipe_messages :: "bool \<Rightarrow> string \<Rightarrow> (time \<times> time \<times> string) list \<Rightarrow> mcp_message list" where
  "pipe_messages fromClient input clocks =
    map (\<lambda>(line, now, now2, ulid). \<lparr>mm_data = line, mm_fromClient = fromClient, mm_ctx = None,
          mm_now = now, mm_now2 = now2, mm_ulid = ulid\<rparr>)
      (zip (scan_lines maxScanBuffer [] input) clocks)"

definition pipe_output :: "string \<Rightarrow> string" where
  "pipe_output input = echo_lines (scan_lines maxScanBuffer [] input)"

section \<open>The HTTP proxy\<close>

record HTTPProxy =
  hp_upstream :: string
  hp_pricer :: "PricingRule list"

fun TrimRightSlash :: "string \<Rightarrow> string" where
  "TrimRightSlash [] = []"
| "TrimRightSlash (c # s) = (case TrimRightSlash s of [] \<Rightarrow> if c = CHR ''/'' then [] else [c] | t \<Rightarrow> c # t)"

definition NewHTTPProxy :: "string \<Rightarrow> PricingRule list \<Rightarrow> HTTPProxy" where
  "NewHTTPProxy upstream pricer = \<lparr>hp_upstream = TrimRightSlash upstream, hp_pricer = pricer\<rparr>"

definition maxRequestBody :: nat where "maxRequestBody = 10 * 1024 * 1024"

text \<open>\<open>http.Error\<close>.\<close>

definition http_Error :: "string \<Rightarrow> int \<Rightarrow> response" where
  "http_Error msg code =
    \<lparr>StatusCode = code,
     RespHeader = header_Set (header_Set Map.empty ''Content-Type'' ''text/plain; charset=utf-8'')
        ''X-Content-Type-Options'' ''nosniff'',
     RespBody = msg @ [LF]\<rparr>"

text \<open>
  The world of one request: errors of reading the bodies, whether the writer can flush, how URLs
  parse, the answer of the upstream, and the clock readings and ids of the messages.
\<close>

record mcp_env =
  me_read_err :: "string option"
  me_resp_err :: "string option"
  me_flusher :: bool
  me_parse_url :: "string \<Rightarrow> url option"
  me_client :: "request \<Rightarrow> string + response"
  me_clock :: "nat \<Rightarrow> time \<times> time \<times> string"

definition mcp_msg :: "mcp_env \<Rightarrow> AgentContext \<Rightarrow> bool \<Rightarrow> nat \<Rightarrow> string \<Rightarrow> mcp_message" where
  "mcp_msg env ctx fromClient n data =
    (case me_clock env n of (now, now2, ulid) \<Rightarrow>
       \<lparr>mm_data = data, mm_fromClient = fromClient, mm_ctx = Some ctx, mm_now = now, mm_now2 = now2, mm_ulid = ulid\<rparr>)"

text \<open>The data of a line of the event stream, if it is one that is looked at.\<close>

definition sse_data :: "string \<Rightarrow> string option" where
  "sse_data line =
    (let trimmed = TrimSpace line in
     if HasPrefix trimmed ''data:'' then
       (let data = TrimSpace (TrimPrefix trimmed ''data:'') in
        if data \<noteq> '''' \<and> data \<noteq> ''[DONE]'' then Some data else None)
     else None)"

fun sse_loop :: "mcp_env \<Rightarrow> AgentContext \<Rightarrow> nat \<Rightarrow> Interceptor \<Rightarrow> string list \<Rightarrow> UsageRecord list" where
  "sse_loop env ctx n i [] = []"
| "sse_loop env ctx n i (line # lines) =
    (case sse_data line of
       None \<Rightarrow> sse_loop env ctx n i lines
     | Some data \<Rightarrow>
         (case HandleMessage i (mcp_msg env ctx False n data) of (r, i1) \<Rightarrow>
            (case r of None \<Rightarrow> [] | Some x \<Rightarrow> [x]) @ sse_loop env ctx (Suc n) i1 lines))"

definition handleSSE :: "mcp_env \<Rightarrow> AgentContext \<Rightarrow> Interceptor \<Rightarrow> response \<Rightarrow> response \<times> UsageRecord list" where
  "handleSSE env ctx i resp =
    (if \<not> me_flusher env then (http_Error ''streaming not supported'' 500, [])
     else let lines = scan_lines maxScanBuffer [] (RespBody resp) in
       (resp\<lparr>RespBody := echo_lines lines\<rparr>, sse_loop env ctx 1 i lines))"

definition upstream_request :: "url \<Rightarrow> string \<Rightarrow> request \<Rightarrow> string \<Rightarrow> request" where
  "upstream_request base cleanPath r body =
    (let joined = path_Join (ur_Path base) cleanPath;
         path = (if joined \<noteq> '''' \<and> \<not> HasPrefix joined ''/'' then ''/'' @ joined else joined);
         h0 = header_Set Map.empty ''Content-Type'' (header_Get (ReqHeader r) ''Content-Type'');
         accept = header_Get (ReqHeader r) ''Accept''
     in \<lparr>Method = ''POST'', Host = ur_Host base, Path = path,
         RawQuery = (if RawQuery r \<noteq> '''' then RawQuery r else ur_RawQuery base),
         ReqHeader = (if accept \<noteq> '''' then header_Set h0 ''Accept'' accept else h0),
         ReqBody = body\<rparr>)"

text \<open>\<open>ServeHTTP\<close>: the answer for the client, the request that was sent, and the records made.\<close>

definition mcp_ServeHTTP :: "mcp_env \<Rightarrow> HTTPProxy \<Rightarrow> request \<Rightarrow> response \<times> request option \<times> UsageRecord list" where
  "mcp_ServeHTTP env p r =
    (if Method r \<noteq> ''POST'' then (http_Error ''method not allowed'' 405, None, [])
     else if Contains (Path r) ''..'' then (http_Error ''invalid path'' 400, None, [])
     else if me_read_err env \<noteq> None \<or> maxRequestBody < length (ReqBody r)
     then (http_Error ''failed to read request body'' 400, None, [])
     else case ExtractAgentHeaders r of (agentID, sessionID, userID, _) \<Rightarrow>
       let body = ReqBody r;
           ctx = \<lparr>ac_AgentID = agentID, ac_SessionID = sessionID, ac_UserID = userID\<rparr>;
           i0 = NewInterceptor ''unknown'' (hp_pricer p) agentID sessionID userID;
           (r0, i1) = HandleMessage i0 (mcp_msg env ctx True 0 body)
       in (case me_parse_url env (hp_upstream p) of
             None \<Rightarrow> (http_Error ''internal server error'' 500, None, [])
           | Some base \<Rightarrow>
               let upReq = upstream_request base (Clean (Path r)) r body in
               (case me_client env upReq of
                  Inl err \<Rightarrow> (http_Error ''bad gateway'' 502, Some upReq, [])
                | Inr resp \<Rightarrow>
                    if Contains (header_Get (RespHeader resp) ''Content-Type'') ''text/event-stream''
                    then (case handleSSE env ctx i1 resp of (out, recs) \<Rightarrow> (out, Some upReq, recs))
                    else if me_resp_err env \<noteq> None then (http_Error ''bad gateway'' 502, Some upReq, [])
                    else (resp, Some upReq,
                      (case fst (HandleMessage i1 (mcp_msg env ctx False 1 (RespBody resp))) of None \<Rightarrow> [] | Some x \<Rightarrow> [x])))))"

section \<open>Calls and their answers\<close>

text \<open>What a message means for the metering: the call it starts, or the id it answers.\<close>

definition call_of :: "mcp_message \<Rightarrow> (string \<times> string) option" where
  "call_of m =
    (case ParseMessage (mm_data m) of
       Inr (RpcRequest req) \<Rightarrow> if mm_fromClient m then tool_call req else None
     | _ \<Rightarrow> None)"

definition answer_of :: "mcp_message \<Rightarrow> (string \<times> bool) option" where
  "answer_of m =
    (case ParseMessage (mm_data m) of
       Inr (RpcResponse resp) \<Rightarrow>
         if mm_fromClient m then None else map_option (\<lambda>k. (k, jr_Error resp \<noteq> None)) (jr_ID resp)
     | _ \<Rightarrow> None)"

definition call_id :: "mcp_message \<Rightarrow> string option" where
  "call_id m = map_option fst (call_of m)"

definition answer_id :: "mcp_message \<Rightarrow> string option" where
  "answer_id m = map_option fst (answer_of m)"

text \<open>The call with id \<open>k\<close> that is open after a conversation: the last message about \<open>k\<close>, if it is a call.\<close>

definition open_call :: "string \<Rightarrow> mcp_message list \<Rightarrow> pendingCall option" where
  "open_call k ms =
    (case find (\<lambda>m. call_id m = Some k \<or> answer_id m = Some k) (rev ms) of
       None \<Rightarrow> None
     | Some m \<Rightarrow> map_option (\<lambda>(_, tool). \<lparr>pc_toolName = tool, pc_startTime = mm_now m\<rparr>) (call_of m))"

lemma tryExtract_frame [simp]:
  "it_inflight (tryExtractServerName i resp) = it_inflight i"
  "it_pricer (tryExtractServerName i resp) = it_pricer i"
  by (simp_all add: tryExtractServerName_def split: option.splits)

lemma call_answer_disjoint: "answer_id m = Some k \<Longrightarrow> call_of m = None"
  by (auto simp: answer_id_def answer_of_def call_of_def split: sum.splits rpc_message.splits if_splits)

text \<open>The effect of one message, in these terms.\<close>

lemma HandleMessage_record:
  "fst (HandleMessage i m) =
    (case answer_of m of
       None \<Rightarrow> None
     | Some (k, isError) \<Rightarrow> map_option (\<lambda>pending. tool_record i pending isError m) (it_inflight i k))"
  by (auto simp: HandleMessage_def answer_of_def handleServerResponse_def
      split: sum.splits rpc_message.splits option.splits)

lemma HandleMessage_inflight:
  "it_inflight (snd (HandleMessage i m)) =
    (case call_of m of
       Some (k, tool) \<Rightarrow> (it_inflight i)(k \<mapsto> \<lparr>pc_toolName = tool, pc_startTime = mm_now m\<rparr>)
     | None \<Rightarrow> (case answer_id m of Some k \<Rightarrow> (it_inflight i)(k := None) | None \<Rightarrow> it_inflight i))"
  by (auto simp: HandleMessage_def call_of_def answer_id_def answer_of_def handleServerResponse_def handleClientRequest_def
      split: sum.splits rpc_message.splits option.splits)

lemma mcp_run_append:
  "mcp_run i (ms @ ns) =
    (fst (mcp_run i ms) @ fst (mcp_run (snd (mcp_run i ms)) ns), snd (mcp_run (snd (mcp_run i ms)) ns))"
  by (induction ms arbitrary: i) (auto split: prod.splits option.splits)

lemma mcp_run_snoc:
  "fst (mcp_run i (ms @ [m])) = fst (mcp_run i ms) @ (case fst (HandleMessage (snd (mcp_run i ms)) m) of None \<Rightarrow> [] | Some x \<Rightarrow> [x])"
  "snd (mcp_run i (ms @ [m])) = snd (HandleMessage (snd (mcp_run i ms)) m)"
  by (auto simp: mcp_run_append split: prod.splits option.splits)

lemma open_call_snoc:
  "open_call k (ms @ [m]) =
    (if call_id m = Some k \<or> answer_id m = Some k
     then map_option (\<lambda>(_, tool). \<lparr>pc_toolName = tool, pc_startTime = mm_now m\<rparr>) (call_of m)
     else open_call k ms)"
  by (simp add: open_call_def)

text \<open>The map of calls in flight holds exactly the open calls.\<close>

lemma inflight_open:
  assumes "it_inflight i = Map.empty"
  shows "it_inflight (snd (mcp_run i ms)) k = open_call k ms"
proof (induction ms rule: rev_induct)
  case Nil
  then show ?case using assms by (simp add: open_call_def)
next
  case (snoc m ms)
  then show ?case using call_answer_disjoint[of m]
    by (auto simp: mcp_run_snoc HandleMessage_inflight open_call_snoc call_id_def split: option.splits prod.splits)
qed

lemma mcp_run_pricer: "it_pricer (snd (mcp_run i ms)) = it_pricer i"
proof (induction ms rule: rev_induct)
  case (snoc m ms)
  have "it_pricer (snd (HandleMessage j m)) = it_pricer j" for j
    by (auto simp: HandleMessage_def handleServerResponse_def handleClientRequest_def
        split: sum.splits rpc_message.splits option.splits)
  with snoc show ?case by (simp add: mcp_run_snoc)
qed simp

section \<open>Properties of the interceptor\<close>

text \<open>
  C12. A record is made exactly when it should be: after any conversation with any interleaving, a
  message makes a record if and only if it comes from the server, answers an id, and the last
  message about this id before it was a tool call of the client; the record has the tool, the
  duration since and the outcome of that call, and the price of the server's rules.
\<close>

theorem mcp_metered_exactly:
  "fst (HandleMessage (snd (mcp_run (NewInterceptor name rules a s u) ms)) m) =
    (case answer_of m of
       None \<Rightarrow> None
     | Some (k, isError) \<Rightarrow>
         map_option (\<lambda>pending. tool_record (snd (mcp_run (NewInterceptor name rules a s u) ms)) pending isError m)
           (open_call k ms))"
  by (simp add: HandleMessage_record inflight_open NewInterceptor_def split: option.split)

text \<open>The ids that were answered after their call.\<close>

definition answered :: "mcp_message list \<Rightarrow> string set" where
  "answered ms = {k. \<exists>i j. i < j \<and> j < length ms \<and> call_id (ms ! i) = Some k \<and> answer_id (ms ! j) = Some k}"

lemma answeredI:
  "i < j \<Longrightarrow> j < length ms \<Longrightarrow> call_id (ms ! i) = Some k \<Longrightarrow> answer_id (ms ! j) = Some k \<Longrightarrow> k \<in> answered ms"
  by (auto simp: answered_def)

lemma answered_Nil [simp]: "answered [] = {}"
  by (simp add: answered_def)

lemma answered_snoc:
  "answered (ms @ [m]) = answered ms \<union> {k. answer_id m = Some k \<and> (\<exists>c \<in> set ms. call_id c = Some k)}"
proof -
  have "k \<in> answered ms \<or> answer_id m = Some k \<and> (\<exists>c \<in> set ms. call_id c = Some k)"
    if "i < j" "j < Suc (length ms)" "call_id ((ms @ [m]) ! i) = Some k" "answer_id ((ms @ [m]) ! j) = Some k" for i j k
  proof (cases "j = length ms")
    case True
    then show ?thesis using that by (auto simp: nth_append)
  next
    case False
    then have "j < length ms" using that by simp
    then have "k \<in> answered ms" using that by (intro answeredI[of i j]) (auto simp: nth_append)
    then show ?thesis ..
  qed
  moreover have "k \<in> answered (ms @ [m])" if "k \<in> answered ms" for k
  proof -
    from that obtain i j where "i < j" "j < length ms" "call_id (ms ! i) = Some k" "answer_id (ms ! j) = Some k"
      by (auto simp: answered_def)
    then show ?thesis by (intro answeredI[of i j]) (auto simp: nth_append)
  qed
  moreover have "k \<in> answered (ms @ [m])" if "answer_id m = Some k" "c \<in> set ms" "call_id c = Some k" for k c
  proof -
    from that obtain i where "i < length ms" "call_id (ms ! i) = Some k" by (auto simp: in_set_conv_nth)
    then show ?thesis using that(1) by (intro answeredI[of i "length ms"]) (auto simp: nth_append)
  qed
  ultimately show ?thesis
    by (fastforce simp: answered_def)
qed

lemma map_filter_snoc: "List.map_filter f (xs @ [x]) = List.map_filter f xs @ (case f x of None \<Rightarrow> [] | Some y \<Rightarrow> [y])"
  by (auto simp: List.map_filter_def split: option.split)

text \<open>While ids are not reused, a call is open until its first answer.\<close>

lemma open_call_iff:
  assumes "distinct (List.map_filter call_id ms)"
  shows "open_call k ms \<noteq> None \<longleftrightarrow> (\<exists>c \<in> set ms. call_id c = Some k) \<and> k \<notin> answered ms"
  using assms
proof (induction ms rule: rev_induct)
  case Nil
  then show ?case by (simp add: open_call_def)
next
  case (snoc m ms)
  have fresh: "call_id m = Some j \<Longrightarrow> \<not> (\<exists>c \<in> set ms. call_id c = Some j)" for j
    using snoc.prems by (force simp: map_filter_snoc List.map_filter_def)
  have seen: "\<exists>c \<in> set ms. call_id c = Some j" if "j \<in> answered ms" for j
  proof -
    from that obtain a b where "a < b" "b < length ms" "call_id (ms ! a) = Some j" by (auto simp: answered_def)
    then show ?thesis by (intro bexI[of _ "ms ! a"]) simp_all
  qed
  have IH: "open_call k ms \<noteq> None \<longleftrightarrow> (\<exists>c \<in> set ms. call_id c = Some k) \<and> k \<notin> answered ms"
    using snoc by (simp add: map_filter_snoc)
  consider (call) "call_id m = Some k" | (answer) "answer_id m = Some k" "call_id m = None"
    | (other) "call_id m \<noteq> Some k" "answer_id m \<noteq> Some k"
    using call_answer_disjoint[of m k] by (auto simp: call_id_def)
  then show ?case
  proof cases
    case call
    then have "answer_id m = None" using call_answer_disjoint[of m] by (cases "answer_id m") (auto simp: call_id_def)
    then show ?thesis using call fresh[of k] seen[of k] by (auto simp: open_call_snoc answered_snoc call_id_def)
  next
    case answer
    then show ?thesis by (auto simp: open_call_snoc answered_snoc call_id_def)
  next
    case other
    then show ?thesis using IH by (auto simp: open_call_snoc answered_snoc)
  qed
qed

lemma finite_answered: "finite (answered ms)"
proof (induction ms rule: rev_induct)
  case (snoc m ms)
  have "answered (ms @ [m]) \<subseteq> insert (the (answer_id m)) (answered ms)" by (auto simp: answered_snoc)
  then show ?case using snoc finite_subset by blast
qed simp

lemma billed_count:
  assumes "distinct (List.map_filter call_id ms)"
  shows "length (fst (mcp_run (NewInterceptor name rules a s u) ms)) = card (answered ms)"
  using assms
proof (induction ms rule: rev_induct)
  case (snoc m ms)
  let ?i = "NewInterceptor name rules a s u"
  have dist: "distinct (List.map_filter call_id ms)" using snoc.prems by (simp add: map_filter_snoc)
  have "fst (HandleMessage (snd (mcp_run ?i ms)) m) \<noteq> None \<longleftrightarrow> (\<exists>k. answer_id m = Some k \<and> open_call k ms \<noteq> None)"
    by (auto simp: HandleMessage_record inflight_open NewInterceptor_def answer_id_def split: option.splits)
  also have "\<dots> \<longleftrightarrow> answered (ms @ [m]) \<noteq> answered ms"
    using open_call_iff[OF dist] by (auto simp: answered_snoc)
  finally have rec: "fst (HandleMessage (snd (mcp_run ?i ms)) m) \<noteq> None \<longleftrightarrow> answered (ms @ [m]) \<noteq> answered ms" .
  have "answered (ms @ [m]) = answered ms \<or> (\<exists>k. k \<notin> answered ms \<and> answered (ms @ [m]) = insert k (answered ms))"
    by (auto simp: answered_snoc)
  then show ?case using snoc.IH[OF dist] rec finite_answered[of ms]
    by (auto simp: mcp_run_snoc split: option.splits)
qed simp


definition quiet_msg :: "bool \<Rightarrow> string \<Rightarrow> time \<Rightarrow> mcp_message" where
  "quiet_msg fromClient data now =
    \<lparr>mm_data = data, mm_fromClient = fromClient, mm_ctx = None, mm_now = now, mm_now2 = now, mm_ulid = ''''\<rparr>"

definition call_text :: "string \<Rightarrow> string \<Rightarrow> string" where
  "call_text k tool = ''{\"id\":'' @ k @ '',\"method\":\"tools/call\",\"params\":{\"name\":\"'' @ tool @ ''\"}}''"

definition answer_text :: "string \<Rightarrow> string" where
  "answer_text k = ''{\"id\":'' @ k @ '',\"result\":{}}''"

definition two_calls :: "mcp_message list" where
  "two_calls = [
    quiet_msg True (call_text ''1'' ''ls'') 5, quiet_msg True (call_text ''2'' ''rm'') 6,
    quiet_msg False (answer_text ''2'') 7, quiet_msg False (answer_text ''1'') 8, quiet_msg False (answer_text ''2'') 9]"

lemma two_calls_ids:
  "map call_id two_calls = [Some ''1'', Some ''2'', None, None, None]"
  "map answer_id two_calls = [None, None, Some ''2'', Some ''1'', Some ''2'']"
  by code_simp+


section \<open>Properties of the prices\<close>

lemma find_append: "find P (xs @ ys) = (case find P xs of None \<Rightarrow> find P ys | Some x \<Rightarrow> Some x)"
  by (induction xs) simp_all

lemma cost_loop_spec:
  "cost_loop rules server tool w =
    (case find (\<lambda>r. pr_Server r = server \<and> pr_Tool r = tool) rules of
       Some r \<Rightarrow> pr_CostPerCall r
     | None \<Rightarrow>
         (case find (\<lambda>r. pr_Server r = server \<and> pr_Tool r = '''') (rev rules) of
            Some r \<Rightarrow> pr_CostPerCall r
          | None \<Rightarrow> (case w of Some c \<Rightarrow> c | None \<Rightarrow> 0)))"
  by (induction rules arbitrary: w) (auto simp: find_append split: option.splits)

text \<open>
  The price of a tool call: the first rule of the server for this tool; without one, the last
  rule of the server with an empty tool; zero without either. A rule with an empty server name is
  no catch-all: it prices calls of a server with the empty name only.
\<close>

theorem mcp_price_rule:
  "CostForCall rules server tool =
    (case find (\<lambda>r. pr_Server r = server \<and> pr_Tool r = tool) rules of
       Some r \<Rightarrow> pr_CostPerCall r
     | None \<Rightarrow>
         (case find (\<lambda>r. pr_Server r = server \<and> pr_Tool r = '''') (rev rules) of
            Some r \<Rightarrow> pr_CostPerCall r
          | None \<Rightarrow> 0))"
  by (simp add: CostForCall_def cost_loop_spec split: option.split)

lemma CostForCall_other_server:
  assumes "\<forall>r \<in> set rules. pr_Server r \<noteq> server"
  shows "CostForCall rules server tool = 0"
proof -
  have "cost_loop rules server tool w = cost_loop [] server tool w" for w
    using assms by (induction rules) simp_all
  then show ?thesis by (simp add: CostForCall_def)
qed

section \<open>Properties of the HTTP proxy\<close>

text \<open>
  C23. A client cannot leave the upstream's base path: whatever request is sent on, its path is the
  base path followed by the segments of the path that was asked for, none of which goes up, and its
  host and body are the upstream's and the client's.
\<close>

theorem mcp_path_confined:
  assumes "fst (snd (mcp_ServeHTTP env p r)) = Some out"
    and "me_parse_url env (hp_upstream p) = Some base"
    and "ur_Path base = '''' \<or> HasPrefix (ur_Path base) ''/''" and "HasPrefix (Path r) ''/''"
  shows "Path out = CHR ''/'' # join_segs (clean_segs (ur_Path base) @ clean_segs (Path r)) \<and>
    ''..'' \<notin> set (clean_segs (ur_Path base) @ clean_segs (Path r)) \<and>
    clean_segs (Path r) = filter (\<lambda>x. x \<noteq> '''' \<and> x \<noteq> ''.'') (Split (CHR ''/'') (Path r)) \<and>
    Host out = ur_Host base \<and> ReqBody out = ReqBody r"
proof -
  have out: "out = upstream_request base (Clean (Path r)) r (ReqBody r)"
    using assms(1,2) by (auto simp: mcp_ServeHTTP_def Let_def split: if_splits prod.splits sum.splits)
  have dots: "\<not> Contains (Path r) ''..''"
    using assms(1) by (auto simp: mcp_ServeHTTP_def split: if_splits)
  have "Path out = CHR ''/'' # join_segs (clean_segs (ur_Path base) @ clean_segs (Path r))"
    using path_Join_rooted[OF assms(3,4)] by (simp add: out upstream_request_def Let_def HasPrefix_def)
  moreover have "list_all plain_seg (clean_segs (ur_Path base) @ clean_segs (Path r))"
    using clean_segs_plain[OF assms(4)] clean_segs_plain[of "ur_Path base"] assms(3) by auto
  moreover have "''..'' \<notin> set (Split (CHR ''/'') (Path r))" using dots Split_infix Contains_infix by metis
  then have "clean_segs (Path r) = filter (\<lambda>x. x \<noteq> '''' \<and> x \<noteq> ''.'') (Split (CHR ''/'') (Path r))"
    by (simp add: clean_segs_def foldl_no_dots)
  ultimately show ?thesis by (auto simp: out upstream_request_def Let_def dest!: filter_plain)
qed

definition sample_url :: "string \<Rightarrow> url option" where
  "sample_url s = (if s = ''http://up/base'' then Some \<lparr>ur_Host = ''up'', ur_Path = ''/base'', ur_RawQuery = ''''\<rparr> else None)"

definition sample_env :: mcp_env where
  "sample_env = \<lparr>me_read_err = None, me_resp_err = None, me_flusher = True, me_parse_url = sample_url,
     me_client = (\<lambda>_. Inr \<lparr>StatusCode = 200, RespHeader = Map.empty, RespBody = answer_text ''1''\<rparr>),
     me_clock = (\<lambda>n. (int n, int n, ''''))\<rparr>"

definition sample_call :: request where
  "sample_call = \<lparr>Method = ''POST'', Host = ''h'', Path = ''/mcp//x/./y'', RawQuery = '''', ReqHeader = Map.empty,
     ReqBody = call_text ''1'' ''ls''\<rparr>"

definition sample_proxy :: HTTPProxy where
  "sample_proxy = NewHTTPProxy ''http://up/base/'' [\<lparr>pr_Server = ''fs'', pr_Tool = '''', pr_CostPerCall = 1\<rparr>]"

theorem mcp_path_confined_witness:
  "\<exists>out. fst (snd (mcp_ServeHTTP sample_env sample_proxy sample_call)) = Some out \<and> Path out = ''/base/mcp/x/y''"
proof -
  have "fst (snd (mcp_ServeHTTP sample_env sample_proxy sample_call)) \<noteq> None" by code_simp
  then obtain out where out: "fst (snd (mcp_ServeHTTP sample_env sample_proxy sample_call)) = Some out" by blast
  have url: "me_parse_url sample_env (hp_upstream sample_proxy) = Some \<lparr>ur_Host = ''up'', ur_Path = ''/base'', ur_RawQuery = ''''\<rparr>"
    by code_simp
  have base: "ur_Path \<lparr>ur_Host = ''up'', ur_Path = ''/base'', ur_RawQuery = ''''\<rparr> = '''' \<or>
    HasPrefix (ur_Path \<lparr>ur_Host = ''up'', ur_Path = ''/base'', ur_RawQuery = ''''\<rparr>) ''/''" by code_simp
  have rooted: "HasPrefix (Path sample_call) ''/''" by code_simp
  have "CHR ''/'' # join_segs (clean_segs ''/base'' @ clean_segs (Path sample_call)) = ''/base/mcp/x/y''" by code_simp
  then show ?thesis using out mcp_path_confined[OF out url base rooted] by auto
qed

lemma HandleMessage_client:
  "mm_fromClient m \<Longrightarrow> it_serverName (snd (HandleMessage i m)) = it_serverName i \<and>
    it_pricer (snd (HandleMessage i m)) = it_pricer i"
  by (auto simp: HandleMessage_def handleClientRequest_def split: sum.splits rpc_message.splits option.splits)

lemma HandleMessage_priced:
  assumes "fst (HandleMessage i m) = Some x"
  shows "\<exists>tool. u_Model x = it_serverName i @ '':'' @ tool \<and> u_CostUSD x = CostForCall (it_pricer i) (it_serverName i) tool"
  using assms by (auto simp: HandleMessage_record tool_record_def Let_def split: option.splits prod.splits)

text \<open>
  Over HTTP the price list is not applied: every request has an interceptor of its own, which
  never learns the server's name, so the calls of a server that answers with plain JSON are recorded
  under the name \<open>unknown\<close> and, unless a rule is for a server of this name, at no cost.
\<close>

theorem mcp_http_unpriced:
  assumes "\<forall>rule \<in> set (hp_pricer p). pr_Server rule \<noteq> ''unknown''"
    and "\<forall>q resp. me_client env q = Inr resp \<longrightarrow>
      \<not> Contains (header_Get (RespHeader resp) ''Content-Type'') ''text/event-stream''"
    and "x \<in> set (snd (snd (mcp_ServeHTTP env p r)))"
  shows "u_CostUSD x = 0 \<and> HasPrefix (u_Model x) ''unknown:''"
proof -
  obtain a s u t where hdr: "ExtractAgentHeaders r = (a, s, u, t)" by (cases "ExtractAgentHeaders r")
  define i0 where "i0 = NewInterceptor ''unknown'' (hp_pricer p) a s u"
  define m0 where "m0 = mcp_msg env \<lparr>ac_AgentID = a, ac_SessionID = s, ac_UserID = u\<rparr> True 0 (ReqBody r)"
  define i1 where "i1 = snd (HandleMessage i0 m0)"
  have "mm_fromClient m0" by (simp add: m0_def mcp_msg_def split: prod.split)
  then have i1: "it_serverName i1 = ''unknown''" "it_pricer i1 = hp_pricer p"
    using HandleMessage_client[of m0 i0] by (simp_all add: i1_def i0_def NewInterceptor_def)
  obtain m where "fst (HandleMessage i1 m) = Some x"
    using assms(2,3)
    by (auto simp: mcp_ServeHTTP_def hdr Let_def i1_def i0_def m0_def
        split: if_splits prod.splits option.splits sum.splits)
  from HandleMessage_priced[OF this] show ?thesis
    using CostForCall_other_server[OF assms(1)] i1 by (auto simp: HasPrefix_def)
qed

theorem mcp_http_unpriced_witness:
  "\<exists>x. snd (snd (mcp_ServeHTTP sample_env sample_proxy sample_call)) = [x] \<and> u_CostUSD x = 0 \<and> HasPrefix (u_Model x) ''unknown:''"
proof -
  have "length (snd (snd (mcp_ServeHTTP sample_env sample_proxy sample_call))) = 1" by code_simp
  then obtain x where x: "snd (snd (mcp_ServeHTTP sample_env sample_proxy sample_call)) = [x]"
    by (auto simp: length_Suc_conv)
  have rules: "\<forall>rule \<in> set (hp_pricer sample_proxy). pr_Server rule \<noteq> ''unknown''"
    by (simp add: sample_proxy_def NewHTTPProxy_def)
  have ct: "\<not> Contains (header_Get Map.empty ''Content-Type'') ''text/event-stream''" by (simp add: header_Get_def Contains_def Index.simps HasPrefix_def)
  have "u_CostUSD x = 0 \<and> HasPrefix (u_Model x) ''unknown:''"
    by (rule mcp_http_unpriced[OF rules, of sample_env x sample_call]) (use ct x in \<open>auto simp: sample_env_def\<close>)
  with x show ?thesis by blast
qed

section \<open>Properties of the lines\<close>

lemma scan_lines_line:
  "LF \<notin> set l \<Longrightarrow> length acc + length l < limit \<Longrightarrow>
    scan_lines limit acc (l @ LF # t) = drop_cr (acc @ l) # scan_lines limit [] t"
  by (induction l arbitrary: acc) auto

lemma scan_lines_long:
  "LF \<notin> set l \<Longrightarrow> limit \<le> length acc + length l \<Longrightarrow> scan_lines limit acc (l @ t) = []"
proof (induction l arbitrary: acc)
  case Nil
  then show ?case by (cases t) auto
next
  case (Cons c l)
  then show ?case by auto
qed

text \<open>A line that fits and is not changed.\<close>

definition fits :: "string \<Rightarrow> bool" where
  "fits l \<longleftrightarrow> LF \<notin> set l \<and> length l < maxScanBuffer \<and> \<not> HasSuffix l [CR]"

lemma scan_lines_echo:
  "list_all fits ls \<Longrightarrow> scan_lines maxScanBuffer [] (echo_lines ls @ t) = ls @ scan_lines maxScanBuffer [] t"
  by (induction ls) (auto simp: echo_lines_def fits_def drop_cr_def scan_lines_line)



end
