(* ===== verification/Alerting.thy ===== *)
theory Alerting
  imports Proxy
begin

text \<open>
  Alerting (\<open>internal/alert\<close>) and how \<open>serve.go\<close> wires it to budgets and agent sessions: the Slack
  and webhook notifiers, the fan-out to several of them, and the deduplication with a cooldown.

  The world of the notifiers is the log of what was posted to which URL; how a post is answered is
  the argument \<open>post\<close>, for URLs that a request can be made of. The JSON text of a payload is
  not modelled, its content is. The locale
  \<open>notifier\<close> is the interface: a notifier posts to a fixed list of targets.
\<close>

section \<open>Alerts and notifiers\<close>

text \<open>A text, or the message of a session alert, which is kept as the values it prints.\<close>

datatype alert_text = Text string | SessionText alert_message

record Alert =
  al_Type :: string
  al_Severity :: string
  al_Message :: alert_text
  al_Details :: "(string \<times> string) list"

text \<open>
  \<open>Details\<close> is a Go map: an association list with distinct keys, in the order in which one
  iteration sees it.
\<close>

record slackText =
  sl_Type :: string
  sl_Text :: alert_text

record slackBlock =
  sb_Type :: string
  sb_Text :: slackText

datatype payload =
    SlackMessage "slackBlock list"
  | WebhookPayload Alert

type_synonym post_log = "(string \<times> header \<times> payload) list"
type_synonym post = "string \<Rightarrow> header \<Rightarrow> payload \<Rightarrow> string + int"
type_synonym 'w notify = "'w \<Rightarrow> Alert \<Rightarrow> string option \<times> 'w"

definition bullet :: string where
  "bullet = map char_of [226, 128, 162 :: nat]"

definition detail_line :: "string \<times> string \<Rightarrow> string" where
  "detail_line kv = bullet @ '' *'' @ fst kv @ '':* '' @ snd kv @ [LF]"

definition slack_blocks :: "Alert \<Rightarrow> slackBlock list" where
  "slack_blocks a =
    (let icon = (if al_Severity a = ''critical'' then '':rotating_light:'' else '':warning:'');
         hdr = icon @ '' *AgentLedger Alert: '' @ al_Type a @ ''*'';
         detailLines = concat (map detail_line (al_Details a))
     in [\<lparr>sb_Type = ''header'', sb_Text = \<lparr>sl_Type = ''plain_text'', sl_Text = Text hdr\<rparr>\<rparr>,
         \<lparr>sb_Type = ''section'', sb_Text = \<lparr>sl_Type = ''mrkdwn'', sl_Text = al_Message a\<rparr>\<rparr>] @
        (if detailLines \<noteq> '''' then [\<lparr>sb_Type = ''section'', sb_Text = \<lparr>sl_Type = ''mrkdwn'', sl_Text = Text detailLines\<rparr>\<rparr>] else []))"

definition post_json :: "post \<Rightarrow> string \<Rightarrow> string \<Rightarrow> string \<Rightarrow> (string \<times> string) list \<Rightarrow> payload \<Rightarrow> post_log \<Rightarrow> string option \<times> post_log" where
  "post_json post name returned url headers body w =
    (let h = foldl (\<lambda>h kv. header_Set h (fst kv) (snd kv)) (header_Set Map.empty ''Content-Type'' ''application/json'') headers
     in ((case post url h body of
            Inl err \<Rightarrow> Some (''sending '' @ name @ '' notification: '' @ err)
          | Inr code \<Rightarrow> if code \<ge> 400 then Some (returned @ '' returned '' @ show_nat (nat code)) else None),
         w @ [(url, h, body)]))"

definition slack_Notify :: "post \<Rightarrow> string \<Rightarrow> post_log notify" where
  "slack_Notify post webhookURL w a = post_json post ''slack'' ''slack webhook'' webhookURL [] (SlackMessage (slack_blocks a)) w"

definition webhook_Notify :: "post \<Rightarrow> string \<Rightarrow> (string \<times> string) list \<Rightarrow> post_log notify" where
  "webhook_Notify post url headers w a = post_json post ''webhook'' ''webhook'' url headers (WebhookPayload a) w"

fun multi_Notify :: "'w notify list \<Rightarrow> 'w notify" where
  "multi_Notify [] w a = (None, w)"
| "multi_Notify (n # ns) w a =
    (case n w a of (err, w1) \<Rightarrow>
       case multi_Notify ns w1 a of (err2, w2) \<Rightarrow> (case err of None \<Rightarrow> err2 | Some e \<Rightarrow> Some e, w2))"

section \<open>Deduplication\<close>

record RateLimitedNotifier =
  rn_cooldown :: duration
  rn_seen :: "string \<rightharpoonup> time"

definition NewRateLimitedNotifier :: "duration \<Rightarrow> RateLimitedNotifier" where
  "NewRateLimitedNotifier cooldown = \<lparr>rn_cooldown = cooldown, rn_seen = Map.empty\<rparr>"

definition alertKey :: "Alert \<Rightarrow> string" where
  "alertKey a =
    (case map_of (al_Details a) ''session_id'' of
       Some v \<Rightarrow> al_Type a @ '':'' @ v
     | None \<Rightarrow>
         (case map_of (al_Details a) ''api_key_hash'' of
            Some v \<Rightarrow> al_Type a @ '':'' @ v
          | None \<Rightarrow> al_Type a))"

definition suppressed :: "RateLimitedNotifier \<Rightarrow> Alert \<Rightarrow> time \<Rightarrow> bool" where
  "suppressed r a now =
    (case rn_seen r (alertKey a) of
       None \<Rightarrow> False
     | Some lastSent \<Rightarrow> time_Sub now lastSent < rn_cooldown r)"

text \<open>The clock readings of a call: for the check, for the mark, and one per entry for the eviction.\<close>

record alert_clocks =
  cl_check :: time
  cl_mark :: time
  cl_evict :: "string \<Rightarrow> time"

definition mark :: "RateLimitedNotifier \<Rightarrow> Alert \<Rightarrow> alert_clocks \<Rightarrow> RateLimitedNotifier" where
  "mark r a c =
    (let seen = (rn_seen r)(alertKey a \<mapsto> cl_mark c) in
     r\<lparr>rn_seen := (\<lambda>k. case seen k of
         None \<Rightarrow> None
       | Some t \<Rightarrow> if time_Sub (cl_evict c k) t > i64 (rn_cooldown r * 2) then None else Some t)\<rparr>)"

definition rn_Notify :: "'w notify \<Rightarrow> alert_clocks \<Rightarrow> RateLimitedNotifier \<Rightarrow> 'w \<Rightarrow> Alert \<Rightarrow> string option \<times> RateLimitedNotifier \<times> 'w" where
  "rn_Notify inner c r w a =
    (if suppressed r a (cl_check c) then (None, r, w)
     else case inner w a of (err, w1) \<Rightarrow> (err, mark r a c, w1))"

fun rn_run :: "'w notify \<Rightarrow> RateLimitedNotifier \<Rightarrow> 'w \<Rightarrow> (Alert \<times> alert_clocks) list \<Rightarrow> RateLimitedNotifier \<times> 'w" where
  "rn_run inner r w [] = (r, w)"
| "rn_run inner r w ((a, c) # es) = (case rn_Notify inner c r w a of (_, r1, w1) \<Rightarrow> rn_run inner r1 w1 es)"

section \<open>Wiring\<close>

text \<open>The alerts that \<open>serve.go\<close> makes of a budget callback and of an alert of the session tracker.\<close>

definition budget_alert :: "bool \<Rightarrow> string \<Rightarrow> Result \<Rightarrow> Alert" where
  "budget_alert over apiKeyHash result =
    \<lparr>al_Type = (if over then ''budget_exceeded'' else ''budget_warning''),
     al_Severity = (if over then ''critical'' else ''warning''),
     al_Message = Text (''API key '' @ apiKeyHash @ (if over then '' exceeded budget limit'' else '' approaching budget limit'')),
     al_Details = [(''api_key_hash'', apiKeyHash), (''daily_spent'', show_f2 (DailySpent result)),
                   (''daily_limit'', show_f2 (DailyLimit result))]\<rparr>"

definition session_alert :: "agent_alert \<Rightarrow> Alert" where
  "session_alert a =
    \<lparr>al_Type = aa_Type a, al_Severity = (if aa_Type a = ''ghost_detected'' then ''critical'' else ''warning''),
     al_Message = SessionText (aa_Message a), al_Details = [(''session_id'', aa_SessionID a), (''agent_id'', aa_AgentID a)]\<rparr>"

definition alert_cooldown :: "int \<Rightarrow> duration" where
  "alert_cooldown cooldownMin = (if cooldownMin > 0 then i64 (cooldownMin * Minute) else 5 * Minute)"

text \<open>The notifiers of a configuration: Slack when its URL is set, then the webhooks.\<close>

datatype sink = SlackSink string | WebhookSink string "(string \<times> string) list"

definition sinks_of :: "string \<Rightarrow> (string \<times> (string \<times> string) list) list \<Rightarrow> sink list" where
  "sinks_of slackURL webhooks =
    (if slackURL \<noteq> '''' then [SlackSink slackURL] else []) @ map (\<lambda>(url, headers). WebhookSink url headers) webhooks"

fun sink_notify :: "post \<Rightarrow> sink \<Rightarrow> post_log notify" where
  "sink_notify post (SlackSink url) = slack_Notify post url"
| "sink_notify post (WebhookSink url headers) = webhook_Notify post url headers"

section \<open>The notifier interface\<close>

text \<open>The alerts of a run that are not suppressed, and the deduplication state after it.\<close>

fun let_through :: "RateLimitedNotifier \<Rightarrow> (Alert \<times> alert_clocks) list \<Rightarrow> (Alert \<times> alert_clocks) list" where
  "let_through r [] = []"
| "let_through r ((a, c) # es) =
    (if suppressed r a (cl_check c) then let_through r es else (a, c) # let_through (mark r a c) es)"

fun marked :: "RateLimitedNotifier \<Rightarrow> (Alert \<times> alert_clocks) list \<Rightarrow> RateLimitedNotifier" where
  "marked r [] = r"
| "marked r ((a, c) # es) = marked (if suppressed r a (cl_check c) then r else mark r a c) es"

text \<open>A notifier adds what an alert becomes to what was posted, whether or not it fails.\<close>

locale notifier =
  fixes notify :: "'w notify" and posts :: "'w \<Rightarrow> 'p list" and rendered :: "Alert \<Rightarrow> 'p list"
  assumes posts_notify: "posts (snd (notify w a)) = posts w @ rendered a"
begin

lemma rn_run_posts: "posts (snd (rn_run notify r w es)) = posts w @ concat (map (rendered \<circ> fst) (let_through r es))"
proof (induction es arbitrary: r w)
  case (Cons e es)
  then show ?case using posts_notify[of w "fst e"]
    by (cases e) (auto simp: rn_Notify_def split: prod.splits)
qed simp

lemma rn_run_state: "fst (rn_run notify r w es) = marked r es"
proof (induction es arbitrary: r w)
  case (Cons e es)
  then show ?case by (cases e) (auto simp: rn_Notify_def split: prod.splits)
qed simp

end

definition sink_url :: "sink \<Rightarrow> string" where
  "sink_url s = (case s of SlackSink url \<Rightarrow> url | WebhookSink url _ \<Rightarrow> url)"

definition sink_post :: "Alert \<Rightarrow> sink \<Rightarrow> string \<times> header \<times> payload" where
  "sink_post a s =
    (case s of
       SlackSink url \<Rightarrow> (url, header_Set Map.empty ''Content-Type'' ''application/json'', SlackMessage (slack_blocks a))
     | WebhookSink url headers \<Rightarrow>
         (url, foldl (\<lambda>h kv. header_Set h (fst kv) (snd kv)) (header_Set Map.empty ''Content-Type'' ''application/json'') headers,
          WebhookPayload a))"

interpretation single: notifier "sink_notify post s" "\<lambda>w. w" "\<lambda>a. [sink_post a s]" for post s
  by unfold_locales (cases s; simp add: slack_Notify_def webhook_Notify_def post_json_def sink_post_def Let_def)

interpretation multi: notifier "multi_Notify (map (sink_notify post) sinks)" "\<lambda>w. w" "\<lambda>a. map (sink_post a) sinks" for post sinks
proof unfold_locales
  fix w a
  show "snd (multi_Notify (map (sink_notify post) sinks) w a) = w @ map (sink_post a) sinks"
  proof (induction sinks arbitrary: w)
    case (Cons s sinks)
    then show ?case using single.posts_notify[of post s w a] by (simp add: split_beta)
  qed simp
qed

section \<open>The deduplication over time\<close>

text \<open>\<open>in_order t es u\<close>: the clock does not go back during \<open>es\<close>, which lies between \<open>t\<close> and \<open>u\<close>.\<close>

inductive in_order :: "time \<Rightarrow> (Alert \<times> alert_clocks) list \<Rightarrow> time \<Rightarrow> bool" where
  in_order_Nil: "in_order t [] t"
| in_order_snoc: "in_order t es u \<Longrightarrow> u \<le> cl_check c \<Longrightarrow> cl_check c \<le> cl_mark c \<Longrightarrow>
    (\<And>k. cl_mark c \<le> cl_evict c k \<and> cl_evict c k \<le> v) \<Longrightarrow> in_order t (es @ [(a, c)]) v"

lemma let_through_append: "let_through r (es @ fs) = let_through r es @ let_through (marked r es) fs"
  by (induction r es rule: let_through.induct) auto

lemma marked_append: "marked r (es @ fs) = marked (marked r es) fs"
  by (induction r es rule: marked.induct) auto

lemma mark_cooldown [simp]: "rn_cooldown (mark r a c) = rn_cooldown r"
  by (simp add: mark_def Let_def)

lemma New_cooldown [simp]: "rn_cooldown (NewRateLimitedNotifier cooldown) = cooldown"
  by (simp add: NewRateLimitedNotifier_def)

lemma marked_cooldown [simp]: "rn_cooldown (marked r es) = rn_cooldown r"
  by (induction r es rule: marked.induct) auto

definition pass_marks :: "(Alert \<times> alert_clocks) list \<Rightarrow> (string \<times> time) list" where
  "pass_marks es = map (\<lambda>(a, c). (alertKey a, cl_mark c)) es"

lemma pass_marks_append:
  "pass_marks (xs @ ys) = pass_marks xs @ pass_marks ys" "pass_marks [] = []"
  "pass_marks [(a, c)] = [(alertKey a, cl_mark c)]"
  by (simp_all add: pass_marks_def)

text \<open>
  The table of sent alerts against the history: an entry is the latest mark of its key, and a mark
  without an entry is older than twice the cooldown.
\<close>

definition seen_inv :: "RateLimitedNotifier \<Rightarrow> (string \<times> time) list \<Rightarrow> time \<Rightarrow> bool" where
  "seen_inv r H u \<longleftrightarrow>
    (\<forall>k m. rn_seen r k = Some m \<longrightarrow> (k, m) \<in> set H \<and> (\<forall>m'. (k, m') \<in> set H \<longrightarrow> m' \<le> m)) \<and>
    (\<forall>k m. (k, m) \<in> set H \<longrightarrow> m \<le> u \<and> (rn_seen r k \<noteq> None \<or> rn_cooldown r * 2 < u - m))"

lemma mark_seen:
  assumes "in_i64 (rn_cooldown r * 2)"
  shows "rn_seen (mark r a c) k =
    (case ((rn_seen r)(alertKey a \<mapsto> cl_mark c)) k of
       None \<Rightarrow> None
     | Some t \<Rightarrow> if rn_cooldown r * 2 < cl_evict c k - t then None else Some t)"
proof -
  have "even (rn_cooldown r * 2)" "odd (2 ^ 63 - 1 :: int)" by simp_all
  then have "rn_cooldown r * 2 \<noteq> 2 ^ 63 - 1" by metis
  then show ?thesis using assms by (simp add: mark_def Let_def go_time split: option.split)
qed

lemma seen_inv_mark:
  assumes inv: "seen_inv r H u" and cd: "0 < rn_cooldown r" "in_i64 (rn_cooldown r * 2)"
    and ord: "u \<le> cl_check c" "cl_check c \<le> cl_mark c" "\<And>k. cl_mark c \<le> cl_evict c k \<and> cl_evict c k \<le> v"
  shows "seen_inv (mark r a c) (H @ [(alertKey a, cl_mark c)]) v"
proof -
  have old: "m \<le> u" if "(k, m) \<in> set H" for k m using inv that by (auto simp: seen_inv_def)
  have v: "cl_mark c \<le> v" using ord(3)[of undefined] by linarith
  have "(k, m) \<in> set (H @ [(alertKey a, cl_mark c)]) \<and> (\<forall>m'. (k, m') \<in> set (H @ [(alertKey a, cl_mark c)]) \<longrightarrow> m' \<le> m)"
    if "rn_seen (mark r a c) k = Some m" for k m
    using that inv old ord(1,2)
    by (fastforce simp: mark_seen[OF cd(2)] seen_inv_def split: option.splits if_splits)
  moreover have "m \<le> v \<and> (rn_seen (mark r a c) k \<noteq> None \<or> rn_cooldown r * 2 < v - m)"
    if "(k, m) \<in> set (H @ [(alertKey a, cl_mark c)])" for k m
  proof (cases "k = alertKey a")
    case True
    then have "m \<le> cl_mark c" using that old[of k m] ord(1,2) by auto
    then show ?thesis using True ord(3)[of k] v by (simp add: mark_seen[OF cd(2)])
  next
    case False
    then have H: "(k, m) \<in> set H" using that by simp
    then have m: "m \<le> u" "rn_seen r k \<noteq> None \<or> rn_cooldown r * 2 < u - m" using inv by (auto simp: seen_inv_def)
    have "m \<le> t" if "rn_seen r k = Some t" for t using inv H that by (auto simp: seen_inv_def)
    then show ?thesis using False m ord(1,2) ord(3)[of k]
      by (fastforce simp: mark_seen[OF cd(2)] split: option.splits)
  qed
  ultimately show ?thesis by (simp add: seen_inv_def)
qed

lemma seen_inv_later: "seen_inv r H u \<Longrightarrow> u \<le> v \<Longrightarrow> seen_inv r H v"
  by (fastforce simp: seen_inv_def)

lemma in_order_inv:
  assumes "in_order t es u" and "0 < cooldown" "in_i64 (cooldown * 2)"
  shows "seen_inv (marked (NewRateLimitedNotifier cooldown) es) (pass_marks (let_through (NewRateLimitedNotifier cooldown) es)) u"
  using assms
proof (induction rule: in_order.induct)
  case (in_order_Nil t)
  then show ?case by (simp add: seen_inv_def pass_marks_def NewRateLimitedNotifier_def)
next
  case (in_order_snoc t es u c v a)
  let ?r = "NewRateLimitedNotifier cooldown"
  have inv: "seen_inv (marked ?r es) (pass_marks (let_through ?r es)) u" using in_order_snoc by blast
  have uv: "u \<le> v" using in_order_snoc(2,3) in_order_snoc(4)[of undefined] by linarith
  show ?case
  proof (cases "suppressed (marked ?r es) a (cl_check c)")
    case True
    then show ?thesis using seen_inv_later[OF inv uv] by (simp add: let_through_append marked_append)
  next
    case False
    then show ?thesis using seen_inv_mark[OF inv, of c v a] in_order_snoc
      by (simp add: let_through_append marked_append pass_marks_def)
  qed
qed

lemma suppressed_inv:
  assumes "seen_inv r H u" "u \<le> now" "0 < rn_cooldown r" "in_i64 (rn_cooldown r * 2)"
  shows "suppressed r a now \<longleftrightarrow> (\<exists>m. (alertKey a, m) \<in> set H \<and> now - m < rn_cooldown r)"
proof -
  have cd: "in_i64 (rn_cooldown r)" "rn_cooldown r \<noteq> - (2 ^ 63)" using assms(3,4) by (auto simp: in_i64_def)
  have "\<exists>m'. rn_seen r (alertKey a) = Some m' \<and> now - m' < rn_cooldown r"
    if "(alertKey a, m) \<in> set H" "now - m < rn_cooldown r" for m
  proof -
    have "rn_seen r (alertKey a) \<noteq> None" using assms that by (fastforce simp: seen_inv_def)
    then obtain m' where m': "rn_seen r (alertKey a) = Some m'" by blast
    then have "m \<le> m'" using assms(1) that(1) by (auto simp: seen_inv_def)
    then show ?thesis using m' that(2) by auto
  qed
  then show ?thesis using assms(1) cd
    by (auto simp: suppressed_def seen_inv_def go_time split: option.splits)
qed

section \<open>Properties\<close>

text \<open>
  C15. Deduplication is exact: after any alerts, with a clock that does not go back, an alert is
  suppressed if and only if one with the same key was let through less than a cooldown before. The
  eviction of old entries makes no difference.
\<close>

theorem alert_suppressed_iff:
  assumes "in_order t es u" and "u \<le> now" and "0 < cooldown" and "in_i64 (cooldown * 2)"
  shows "suppressed (marked (NewRateLimitedNotifier cooldown) es) a now \<longleftrightarrow>
    (\<exists>e \<in> set (let_through (NewRateLimitedNotifier cooldown) es).
       alertKey (fst e) = alertKey a \<and> now - cl_mark (snd e) < cooldown)"
proof -
  let ?r = "NewRateLimitedNotifier cooldown"
  have "suppressed (marked ?r es) a now \<longleftrightarrow>
      (\<exists>m. (alertKey a, m) \<in> set (pass_marks (let_through ?r es)) \<and> now - m < cooldown)"
    using suppressed_inv[OF in_order_inv[OF assms(1,3,4)] assms(2)] assms(3,4) by simp
  then show ?thesis by (force simp: pass_marks_def)
qed

definition loop_alert :: Alert where
  "loop_alert = session_alert \<lparr>aa_Type = ''loop_detected'', aa_SessionID = ''s'', aa_AgentID = ''a'',
     aa_Message = LoopMessage ''/v1'' 3 60 3\<rparr>"

definition at_time :: "time \<Rightarrow> alert_clocks" where
  "at_time t = \<lparr>cl_check = t, cl_mark = t, cl_evict = (\<lambda>_. t)\<rparr>"

lemma at_time_mark [simp]: "cl_mark (at_time t) = t"
  by (simp add: at_time_def)

lemma in_order_at: "in_order t es u \<Longrightarrow> u \<le> v \<Longrightarrow> in_order t (es @ [(a, at_time v)]) v"
  by (rule in_order_snoc) (simp_all add: at_time_def)

theorem alert_suppressed_iff_witness:
  "suppressed (marked (NewRateLimitedNotifier 10) [(loop_alert, at_time 5)]) loop_alert 14 \<and>
   \<not> suppressed (marked (NewRateLimitedNotifier 10) [(loop_alert, at_time 5)]) loop_alert 15"
proof -
  have ord: "in_order 5 [(loop_alert, at_time 5)] 5"
    using in_order_at[OF in_order_Nil, of 5 5 loop_alert] by simp
  have through: "let_through (NewRateLimitedNotifier 10) [(loop_alert, at_time 5)] = [(loop_alert, at_time 5)]"
    by (simp add: suppressed_def NewRateLimitedNotifier_def)
  show ?thesis
    using alert_suppressed_iff[OF ord, of 14 10 loop_alert] alert_suppressed_iff[OF ord, of 15 10 loop_alert]
    by (simp add: through in_i64_def del: marked.simps let_through.simps)
qed

lemma passed_spaced:
  assumes "in_order t es u" and "0 < cooldown" "in_i64 (cooldown * 2)"
  shows "sorted_wrt (\<lambda>x y. fst x = fst y \<longrightarrow> cooldown \<le> snd y - snd x) (pass_marks (let_through (NewRateLimitedNotifier cooldown) es))"
  using assms
proof (induction rule: in_order.induct)
  case (in_order_Nil t)
  then show ?case by (simp add: pass_marks_def)
next
  case (in_order_snoc t es u c v a)
  let ?r = "NewRateLimitedNotifier cooldown"
  have inv: "seen_inv (marked ?r es) (pass_marks (let_through ?r es)) u" by (rule in_order_inv) (use in_order_snoc in auto)
  have "cooldown \<le> cl_mark c - m"
    if "(alertKey a, m) \<in> set (pass_marks (let_through ?r es))" "\<not> suppressed (marked ?r es) a (cl_check c)" for m
    using suppressed_inv[OF inv in_order_snoc(2), of a] that in_order_snoc(3,6,7) by force
  then show ?case using in_order_snoc
    by (auto simp: let_through_append pass_marks_append sorted_wrt_append)
qed

text \<open>
  C16. Delivery: every configured destination is sent exactly the alerts that are not suppressed, in
  their order, whatever the destinations answer; and two alerts with the same key are a cooldown
  apart or more.
\<close>

theorem alert_delivery:
  assumes "in_order t es u" and "0 < cooldown" and "in_i64 (cooldown * 2)"
  shows "snd (rn_run (multi_Notify (map (sink_notify post) sinks)) (NewRateLimitedNotifier cooldown) [] es) =
      concat (map (\<lambda>(a, _). map (sink_post a) sinks) (let_through (NewRateLimitedNotifier cooldown) es)) \<and>
    sorted_wrt (\<lambda>x y. alertKey (fst x) = alertKey (fst y) \<longrightarrow> cooldown \<le> cl_mark (snd y) - cl_mark (snd x))
      (let_through (NewRateLimitedNotifier cooldown) es)"
proof -
  have "snd (rn_run (multi_Notify (map (sink_notify post) sinks)) (NewRateLimitedNotifier cooldown) [] es) =
      concat (map (\<lambda>(a, _). map (sink_post a) sinks) (let_through (NewRateLimitedNotifier cooldown) es))"
    using multi.rn_run_posts[of post sinks "NewRateLimitedNotifier cooldown" "[]" es]
    by (simp add: comp_def case_prod_unfold)
  then show ?thesis using passed_spaced[OF assms]
    by (simp add: pass_marks_def sorted_wrt_map case_prod_unfold)
qed

theorem alert_delivery_witness:
  "map fst (snd (rn_run (multi_Notify (map (sink_notify (\<lambda>_ _ _. Inr 500)) (sinks_of ''u'' [(''v'', [])])))
     (NewRateLimitedNotifier 10) [] [(loop_alert, at_time 5), (loop_alert, at_time 9), (loop_alert, at_time 20)])) = [''u'', ''v'', ''u'', ''v'']"
proof -
  have ord: "in_order 5 [(loop_alert, at_time 5), (loop_alert, at_time 9), (loop_alert, at_time 20)] 20"
    using in_order_at[OF in_order_at[OF in_order_at[OF in_order_Nil, of 5 5 loop_alert], of 9 loop_alert], of 20 loop_alert] by simp
  have cd: "0 < (10 :: int)" "in_i64 (10 * 2)" by (simp_all add: in_i64_def)
  have "let_through (NewRateLimitedNotifier 10) [(loop_alert, at_time 5), (loop_alert, at_time 9), (loop_alert, at_time 20)] =
    [(loop_alert, at_time 5), (loop_alert, at_time 20)]"
    by (simp add: suppressed_def mark_def NewRateLimitedNotifier_def at_time_def time_Sub_def i64_def Let_def)
  then show ?thesis
    using alert_delivery[OF ord cd, of "\<lambda>_ _ _. Inr 500" "sinks_of ''u'' [(''v'', [])]"]
    by (simp add: sinks_of_def sink_post_def)
qed

text \<open>
  A failed delivery is not retried: when an alert goes out and every destination rejects it, the
  error is returned, but the next alert with the same key within the cooldown is suppressed and
  reported as sent.
\<close>

theorem alert_lost_on_failure:
  assumes "\<not> suppressed r a (cl_check c)" and "fst (inner w a) = Some err" and "alertKey b = alertKey a"
    and "0 < rn_cooldown r" and "in_i64 (rn_cooldown r * 2)" and "cl_evict c (alertKey a) - cl_mark c \<le> rn_cooldown r"
    and "cl_check c' - cl_mark c < rn_cooldown r" and "- (2 ^ 63) \<le> cl_check c' - cl_mark c"
  shows "case rn_Notify inner c r w a of (e, r1, w1) \<Rightarrow>
    e = Some err \<and> rn_Notify inner c' r1 w1 b = (None, r1, w1)"
proof -
  obtain w1 where w1: "inner w a = (Some err, w1)" using assms(2) by (cases "inner w a") auto
  have "rn_seen (mark r a c) (alertKey b) = Some (cl_mark c)"
    using assms(3-6) by (simp add: mark_seen)
  moreover have "in_i64 (rn_cooldown r)" "rn_cooldown r \<noteq> - (2 ^ 63)" using assms(4,5) by (auto simp: in_i64_def)
  ultimately have "suppressed (mark r a c) b (cl_check c')" using assms(7) by (simp add: suppressed_def go_time)
  then show ?thesis using assms(1) w1 by (simp add: rn_Notify_def)
qed

theorem alert_lost_on_failure_witness:
  "case rn_Notify (slack_Notify (\<lambda>_ _ _. Inr 503) ''u'') (at_time 5) (NewRateLimitedNotifier 10) [] loop_alert of (e, r1, w1) \<Rightarrow>
     e = Some ''slack webhook returned 503'' \<and>
     rn_Notify (slack_Notify (\<lambda>_ _ _. Inr 503) ''u'') (at_time 14) r1 w1 loop_alert = (None, r1, w1)"
proof -
  have "fst (slack_Notify (\<lambda>_ _ _. Inr 503) ''u'' [] loop_alert) = Some ''slack webhook returned 503''" by code_simp
  then show ?thesis
    by (rule alert_lost_on_failure[rotated]) (simp_all add: suppressed_def NewRateLimitedNotifier_def at_time_def in_i64_def)
qed

text \<open>Budget and session alerts of different subjects never share a key.\<close>

lemma alert_keys:
  "alertKey (budget_alert over h res) = (if over then ''budget_exceeded'' else ''budget_warning'') @ '':'' @ h"
  "alertKey (session_alert a) = aa_Type a @ '':'' @ aa_SessionID a"
  by (simp_all add: alertKey_def budget_alert_def session_alert_def)

end
