(* ===== verification/Dashboard.thy ===== *)
theory Dashboard
  imports Proxy "HOL-Library.Code_Target_Nat"
begin

text \<open>
  The dashboard's REST API (\<open>internal/dashboard/handlers.go\<close>), the CSV export, and the reports of
  the command line (\<open>cmd/agentledger/costs.go\<close>, \<open>export.go\<close>). The handlers read the ledger through
  the record \<open>ledger_api\<close>; \<open>sqlite_api\<close> is its value for SQLite. JSON bodies are the values that
  are encoded; CSV bodies are bytes.
\<close>

section \<open>Query parameters\<close>

text \<open>
  \<open>n, _ := strconv.Atoi(s)\<close>: 0 for a syntax error, the nearest 64-bit value when out of range.
\<close>

definition Atoi :: "string \<Rightarrow> int" where
  "Atoi s =
    (let (neg, ds) = (case s of
           c # t \<Rightarrow> if c = CHR ''-'' then (True, t) else if c = CHR ''+'' then (False, t) else (False, s)
         | [] \<Rightarrow> (False, s)) in
     if ds = [] \<or> \<not> list_all is_digit ds then 0
     else let n = (if neg then - decimal ds else decimal ds) in max (- (2 ^ 63)) (min (2 ^ 63 - 1) n))"

definition param :: "request \<Rightarrow> string \<Rightarrow> string" where
  "param r k = query_Get (RawQuery r) k"

definition param_or :: "request \<Rightarrow> string \<Rightarrow> string \<Rightarrow> string" where
  "param_or r k def = (if param r k = '''' then def else param r k)"

definition int_param :: "request \<Rightarrow> string \<Rightarrow> int \<Rightarrow> int" where
  "int_param r k def = (if Atoi (param r k) \<le> 0 then def else Atoi (param r k))"

text \<open>\<open>now.Add(-time.Duration(hours) * time.Hour)\<close>\<close>

definition since_hours :: "time \<Rightarrow> int \<Rightarrow> time" where
  "since_hours now hours = time_Add now (i64 (i64 (- hours) * Hour))"

text \<open>
  The timeseries read the hours as a float and convert the product to a duration. \<open>f2i\<close> truncates;
  a product out of range becomes the least integer, as on amd64.
\<close>

definition f2i :: "float64 \<Rightarrow> int" where
  "f2i x = (let n = (if x < 0 then - \<lfloor>- x\<rfloor> else \<lfloor>x\<rfloor>) in if in_i64 n then n else - (2 ^ 63))"

definition since_hours_float :: "time \<Rightarrow> float64 \<Rightarrow> time" where
  "since_hours_float now hoursF =
    time_Add now (i64 (- f2i (fmul (if hoursF \<le> 0 then 24 else hoursF) (float_of_int Hour))))"

section \<open>CSV\<close>

definition dquote :: char where "dquote = CHR 34"

text \<open>\<open>csv.Writer\<close>: which fields are quoted, a field, and a record.\<close>

definition fieldNeedsQuotes :: "string \<Rightarrow> bool" where
  "fieldNeedsQuotes f \<longleftrightarrow>
    (if f = '''' then False
     else if f = [CHR 92, CHR ''.''] then True
     else if \<exists>c \<in> set f. c = CHR '','' \<or> c = dquote \<or> c = CR \<or> c = LF then True
     else strip_space f \<noteq> None)"

definition quote_field :: "string \<Rightarrow> string" where
  "quote_field f = [dquote] @ concat (map (\<lambda>c. if c = dquote then [dquote, dquote] else [c]) f) @ [dquote]"

definition csv_field :: "string \<Rightarrow> string" where
  "csv_field f = (if fieldNeedsQuotes f then quote_field f else f)"

fun csv_fields :: "string list \<Rightarrow> string" where
  "csv_fields [] = []"
| "csv_fields [f] = csv_field f"
| "csv_fields (f # fs) = csv_field f @ [CHR '',''] @ csv_fields fs"

definition csv_Write :: "string list \<Rightarrow> string" where
  "csv_Write record = csv_fields record @ [LF]"

definition show_int :: "int \<Rightarrow> string" where
  "show_int n = (if n < 0 then ''-'' @ show_nat (nat (- n)) else show_nat (nat n))"

text \<open>\<open>%.6f\<close>\<close>

definition pad_left :: "nat \<Rightarrow> string \<Rightarrow> string" where
  "pad_left n s = replicate (n - length s) (CHR ''0'') @ s"

definition show_f6 :: "float64 \<Rightarrow> string" where
  "show_f6 x =
    (let n = nat (rne (\<bar>x\<bar> * 1000000)) in
     (if x < 0 then ''-'' else '''') @ show_nat (n div 1000000) @ ''.'' @ pad_left 6 (show_nat (n mod 1000000)))"

definition csv_header :: "string list" where
  "csv_header = [''provider'', ''model'', ''api_key_hash'', ''agent_id'', ''session_id'',
    ''requests'', ''input_tokens'', ''output_tokens'', ''cost_usd'']"

definition csv_record :: "CostEntry \<Rightarrow> string list" where
  "csv_record e = [ce_Provider e, ce_Model e, ce_APIKeyHash e, ce_AgentID e, ce_SessionID e,
    show_int (ce_Requests e), show_int (ce_InputTokens e), show_int (ce_OutputTokens e), show_f6 (ce_TotalCostUSD e)]"

definition writeCSV :: "CostEntry list \<Rightarrow> string" where
  "writeCSV entries = concat (map csv_Write (csv_header # map csv_record entries))"

section \<open>Handlers\<close>

record ledger_api =
  la_QueryCosts :: "CostFilter \<Rightarrow> string + CostEntry list"
  la_QueryCostTimeseries :: "string \<Rightarrow> time \<Rightarrow> time \<Rightarrow> string \<Rightarrow> string + TimeseriesPoint list"
  la_QueryRecentExpensive :: "time \<Rightarrow> time \<Rightarrow> string \<Rightarrow> nat \<Rightarrow> string + ExpensiveRequest list"
  la_QueryErrorStats :: "time \<Rightarrow> time \<Rightarrow> string \<Rightarrow> string + ErrorStats"
  la_QueryRecentSessions :: "time \<Rightarrow> time \<Rightarrow> string \<Rightarrow> nat \<Rightarrow> string + Session list"
  la_QueryLatencyPercentiles :: "time \<Rightarrow> time \<Rightarrow> string \<Rightarrow> string + LatencyStats option"
  la_QueryTokenTimeseries :: "string \<Rightarrow> time \<Rightarrow> time \<Rightarrow> string \<Rightarrow> string + TokenTimeseriesPoint list"

definition sqlite_api :: "sql_engine \<Rightarrow> database \<Rightarrow> fault \<Rightarrow> ledger_api" where
  "sqlite_api eng db fault =
    \<lparr>la_QueryCosts = sqlite_QueryCosts eng db fault,
     la_QueryCostTimeseries = sqlite_QueryCostTimeseries eng db fault,
     la_QueryRecentExpensive = sqlite_QueryRecentExpensive db fault,
     la_QueryErrorStats = sqlite_QueryErrorStats eng db fault,
     la_QueryRecentSessions = sqlite_QueryRecentSessions db fault,
     la_QueryLatencyPercentiles = sqlite_QueryLatencyPercentiles db (fault, None) (fault, None),
     la_QueryTokenTimeseries = sqlite_QueryTokenTimeseries db fault\<rparr>"

record summary =
  su_today_spend :: float64
  su_month_spend :: float64
  su_today_requests :: int
  su_active_sessions :: nat

datatype dash_body =
    Summary summary
  | Points "TimeseriesPoint list"
  | Costs "CostEntry list"
  | Sessions "Session list"
  | CSV string
  | Expensive "ExpensiveRequest list"
  | Stats ErrorStats
  | Latency "LatencyStats option"
  | TokenPoints "TokenTimeseriesPoint list"
  | DashError string

type_synonym dash_response = "int \<times> dash_body"

text \<open>
  The handler and its surroundings: the tracker, if there is one, the iteration order of its map,
  the clock, and \<open>strconv.ParseFloat\<close>, whose errors are ignored, on finite results.
\<close>

record dashboard =
  da_ledger :: ledger_api
  da_tracker :: "Tracker option"
  da_order :: iteration
  da_now :: time
  da_ParseFloat :: "string \<Rightarrow> float64"

definition dash_error :: dash_response where
  "dash_error = (500, DashError ''internal server error'')"

definition answer :: "('a \<Rightarrow> dash_body) \<Rightarrow> string + 'a \<Rightarrow> dash_response" where
  "answer body res = (case res of Inl err \<Rightarrow> dash_error | Inr x \<Rightarrow> (200, body x))"

definition sum_spend :: "CostEntry list \<Rightarrow> float64" where
  "sum_spend es = foldl (\<lambda>t e. fadd t (ce_TotalCostUSD e)) 0 es"

definition sum_requests :: "CostEntry list \<Rightarrow> int" where
  "sum_requests es = foldl (\<lambda>n e. i64 (n + ce_Requests e)) 0 es"

definition cost_filter :: "time \<Rightarrow> time \<Rightarrow> string \<Rightarrow> string \<Rightarrow> CostFilter" where
  "cost_filter since until groupBy tenantID =
    \<lparr>cf_Since = since, cf_Until = until, cf_GroupBy = groupBy, cf_TenantID = tenantID\<rparr>"

definition handleSummary :: "dashboard \<Rightarrow> request \<Rightarrow> dash_response" where
  "handleSummary h r =
    (let now = da_now h; tenantID = param r ''tenant'' in
     case la_QueryCosts (da_ledger h) (cost_filter (dayStart now) now ''model'' tenantID) of
       Inl err \<Rightarrow> dash_error
     | Inr todayCosts \<Rightarrow>
         (case la_QueryCosts (da_ledger h) (cost_filter (monthStart now) now ''model'' tenantID) of
            Inl err \<Rightarrow> dash_error
          | Inr monthCosts \<Rightarrow>
              (200, Summary \<lparr>su_today_spend = sum_spend todayCosts, su_month_spend = sum_spend monthCosts,
                 su_today_requests = sum_requests todayCosts,
                 su_active_sessions = (case da_tracker h of None \<Rightarrow> 0 | Some t \<Rightarrow> ActiveSessionCount t)\<rparr>)))"

definition handleTimeseries :: "dashboard \<Rightarrow> request \<Rightarrow> dash_response" where
  "handleTimeseries h r =
    answer Points (la_QueryCostTimeseries (da_ledger h) (param_or r ''interval'' ''hour'')
      (since_hours_float (da_now h) (da_ParseFloat h (param r ''hours''))) (da_now h) (param r ''tenant''))"

definition handleCosts :: "dashboard \<Rightarrow> request \<Rightarrow> dash_response" where
  "handleCosts h r =
    answer Costs (la_QueryCosts (da_ledger h)
      (cost_filter (since_hours (da_now h) (int_param r ''hours'' 24)) (da_now h) (param_or r ''group_by'' ''model'') (param r ''tenant'')))"

definition handleSessions :: "dashboard \<Rightarrow> request \<Rightarrow> dash_response" where
  "handleSessions h r =
    (case da_tracker h of None \<Rightarrow> (200, Sessions []) | Some t \<Rightarrow> (200, Sessions (ListSessions (da_order h) t)))"

definition handleExport :: "dashboard \<Rightarrow> request \<Rightarrow> dash_response" where
  "handleExport h r =
    answer (\<lambda>entries. if param_or r ''format'' ''json'' = ''csv'' then CSV (writeCSV entries) else Costs entries)
      (la_QueryCosts (da_ledger h)
        (cost_filter (since_hours (da_now h) (int_param r ''hours'' 720)) (da_now h) (param_or r ''group_by'' ''model'') (param r ''tenant'')))"

definition handleExpensive :: "dashboard \<Rightarrow> request \<Rightarrow> dash_response" where
  "handleExpensive h r =
    answer Expensive (la_QueryRecentExpensive (da_ledger h) (since_hours (da_now h) (int_param r ''hours'' 168)) (da_now h)
      (param r ''tenant'') (nat (int_param r ''limit'' 10)))"

definition handleStats :: "dashboard \<Rightarrow> request \<Rightarrow> dash_response" where
  "handleStats h r =
    answer Stats (la_QueryErrorStats (da_ledger h) (since_hours (da_now h) (int_param r ''hours'' 24)) (da_now h) (param r ''tenant''))"

definition handleSessionHistory :: "dashboard \<Rightarrow> request \<Rightarrow> dash_response" where
  "handleSessionHistory h r =
    answer Sessions (la_QueryRecentSessions (da_ledger h) (since_hours (da_now h) (int_param r ''hours'' 24)) (da_now h)
      (param r ''status'') (nat (int_param r ''limit'' 50)))"

definition handleLatency :: "dashboard \<Rightarrow> request \<Rightarrow> dash_response" where
  "handleLatency h r =
    answer Latency (la_QueryLatencyPercentiles (da_ledger h) (since_hours (da_now h) (int_param r ''hours'' 24)) (da_now h) (param r ''tenant''))"

definition handleTokenTimeseries :: "dashboard \<Rightarrow> request \<Rightarrow> dash_response" where
  "handleTokenTimeseries h r =
    answer TokenPoints (la_QueryTokenTimeseries (da_ledger h) (param_or r ''interval'' ''hour'')
      (since_hours_float (da_now h) (da_ParseFloat h (param r ''hours''))) (da_now h) (param r ''tenant''))"

definition dash_routes :: "(string \<times> (dashboard \<Rightarrow> request \<Rightarrow> dash_response)) list" where
  "dash_routes = [
    (''/api/dashboard/summary'', handleSummary), (''/api/dashboard/timeseries'', handleTimeseries),
    (''/api/dashboard/costs'', handleCosts), (''/api/dashboard/sessions'', handleSessions),
    (''/api/dashboard/sessions/history'', handleSessionHistory), (''/api/dashboard/export'', handleExport),
    (''/api/dashboard/expensive'', handleExpensive), (''/api/dashboard/stats'', handleStats),
    (''/api/dashboard/latency'', handleLatency), (''/api/dashboard/timeseries/tokens'', handleTokenTimeseries)]"

section \<open>Command line\<close>

text \<open>
  \<open>parseDuration\<close>. \<open>Sscanf(s, "%dd", &days)\<close> skips leading spaces up to a line end, reads an optionally signed
  decimal number and then wants a \<open>d\<close>; what follows is not looked at. \<open>time.ParseDuration\<close> is the
  argument \<open>parse\<close>.
\<close>

function skip_blank :: "string \<Rightarrow> string" where
  "skip_blank s =
    (if s \<noteq> [] \<and> hd s = LF then s else case strip_space s of None \<Rightarrow> s | Some t \<Rightarrow> skip_blank t)"
  by pat_completeness auto
termination by (relation "measure length") (auto dest: strip_space_length)

declare skip_blank.simps [simp del]

definition scan_days :: "string \<Rightarrow> string + int" where
  "scan_days s =
    (let s0 = skip_blank s;
         (neg, s1) = (case s0 of
             c # t \<Rightarrow> if c = CHR ''-'' then (True, t) else if c = CHR ''+'' then (False, t) else (False, s0)
           | [] \<Rightarrow> (False, s0));
         (ds, rest) = scan_digits s1;
         n = (if neg then - decimal ds else decimal ds)
     in if ds = [] then Inl ''expected integer''
        else if \<not> in_i64 n then Inl ''integer overflow''
        else case rest of
          c # _ \<Rightarrow> if c = CHR ''d'' then Inr n else Inl ''input does not match format''
        | [] \<Rightarrow> Inl ''unexpected EOF'')"

definition parseDuration :: "(string \<Rightarrow> string + duration) \<Rightarrow> string \<Rightarrow> string + duration" where
  "parseDuration parse s =
    (if s = '''' then Inr (24 * Hour)
     else if last s = CHR ''d'' then
       (case scan_days s of Inl err \<Rightarrow> Inl err | Inr days \<Rightarrow> Inr (i64 (i64 (days * 24) * Hour)))
     else parse s)"

definition orNone :: "string \<Rightarrow> string" where
  "orNone s = (if s = '''' then ''(none)'' else s)"

text \<open>The rows of \<open>runCosts\<close>: the columns before the numbers, and the totals.\<close>

definition cost_labels :: "string \<Rightarrow> CostEntry \<Rightarrow> string list" where
  "cost_labels groupBy e =
    (if groupBy = ''agent'' then [orNone (ce_AgentID e)]
     else if groupBy = ''session'' then [orNone (ce_AgentID e), orNone (ce_SessionID e)]
     else [ce_Provider e, ce_Model e])"

record cost_row =
  cr_labels :: "string list"
  cr_requests :: int
  cr_input :: int
  cr_output :: int
  cr_cost :: float64

definition cost_rows :: "string \<Rightarrow> CostEntry list \<Rightarrow> cost_row list" where
  "cost_rows groupBy es =
    map (\<lambda>e. \<lparr>cr_labels = cost_labels groupBy e, cr_requests = ce_Requests e, cr_input = ce_InputTokens e,
             cr_output = ce_OutputTokens e, cr_cost = ce_TotalCostUSD e\<rparr>) es @
    [\<lparr>cr_labels = (if groupBy = ''agent'' then [''TOTAL''] else [''TOTAL'', '''']),
      cr_requests = sum_requests es,
      cr_input = foldl (\<lambda>n e. i64 (n + ce_InputTokens e)) 0 es,
      cr_output = foldl (\<lambda>n e. i64 (n + ce_OutputTokens e)) 0 es,
      cr_cost = sum_spend es\<rparr>]"

definition report_filter :: "time \<Rightarrow> duration \<Rightarrow> string \<Rightarrow> string \<Rightarrow> CostFilter" where
  "report_filter now window groupBy tenant = cost_filter (time_Add now (i64 (- window))) now groupBy tenant"

text \<open>
  \<open>runCosts\<close> after the store is open: an error, or the rows printed; \<open>None\<close> when nothing was recorded.
  The errors of the two commands are kept as values: the argument and its parse error, an error of the
  store, and an unknown format.
\<close>

datatype report_error = InvalidLast string string | StoreError string | UnsupportedFormat string

definition runCosts :: "(string \<Rightarrow> string + duration) \<Rightarrow> ledger_api \<Rightarrow> time \<Rightarrow> string \<Rightarrow> string \<Rightarrow> string \<Rightarrow> report_error + cost_row list option" where
  "runCosts parse l now lastArg groupBy tenant =
    (case parseDuration parse lastArg of
       Inl err \<Rightarrow> Inl (InvalidLast lastArg err)
     | Inr window \<Rightarrow>
         (case la_QueryCosts l (report_filter now window groupBy tenant) of
            Inl err \<Rightarrow> Inl (StoreError err)
          | Inr entries \<Rightarrow> Inr (if entries = [] then None else Some (cost_rows groupBy entries))))"

definition runExport :: "(string \<Rightarrow> string + duration) \<Rightarrow> ledger_api \<Rightarrow> time \<Rightarrow> string \<Rightarrow> string \<Rightarrow> string \<Rightarrow> string \<Rightarrow> report_error + dash_body" where
  "runExport parse l now lastArg groupBy tenant format =
    (case parseDuration parse lastArg of
       Inl err \<Rightarrow> Inl (InvalidLast lastArg err)
     | Inr window \<Rightarrow>
         (case la_QueryCosts l (report_filter now window groupBy tenant) of
            Inl err \<Rightarrow> Inl (StoreError err)
          | Inr entries \<Rightarrow>
              if format = ''json'' then Inr (Costs entries)
              else if format = ''csv'' then Inr (CSV (writeCSV entries))
              else Inl (UnsupportedFormat format)))"

section \<open>Reading CSV back\<close>

text \<open>
  A reader of CSV as RFC 4180 describes it: a quoted field ends at a quote that is not doubled, an
  unquoted one before the next comma or line end. \<open>None\<close> is malformed input.
\<close>

fun read_quoted :: "string \<Rightarrow> (string \<times> string) option" where
  "read_quoted [] = None"
| "read_quoted [c] = (if c = dquote then Some ([], []) else None)"
| "read_quoted (c # d # s) =
    (if c = dquote then (if d = dquote then map_option (apfst ((#) c)) (read_quoted s) else Some ([], d # s))
     else map_option (apfst ((#) c)) (read_quoted (d # s)))"

definition field_end :: "char \<Rightarrow> bool" where
  "field_end c \<longleftrightarrow> c = CHR '','' \<or> c = LF"

definition read_field :: "string \<Rightarrow> (string \<times> string) option" where
  "read_field s =
    (case s of
       c # t \<Rightarrow> if c = dquote then read_quoted t
         else Some (takeWhile (\<lambda>c. \<not> field_end c) s, dropWhile (\<lambda>c. \<not> field_end c) s)
     | [] \<Rightarrow> None)"

lemma read_quoted_length: "read_quoted s = Some (f, r) \<Longrightarrow> length r < length s"
  by (induction s arbitrary: f r rule: read_quoted.induct) (fastforce split: if_splits)+

lemma read_field_length: "read_field s = Some (f, r) \<Longrightarrow> length r \<le> length s"
  by (auto simp: read_field_def length_dropWhile_le split: list.splits if_splits dest!: read_quoted_length)
    (meson le_SucI length_dropWhile_le)+

text \<open>The fields read so far of the current record, and the records.\<close>

function read_csv :: "string list \<Rightarrow> string \<Rightarrow> string list list option" where
  "read_csv acc s =
    (if s = [] then (if acc = [] then Some [] else None)
     else case read_field s of
       None \<Rightarrow> None
     | Some (f, r) \<Rightarrow>
         (case r of
            [] \<Rightarrow> None
          | c # t \<Rightarrow>
              if c = CHR '','' then (if t = [] then None else read_csv (acc @ [f]) t)
              else if c = LF then map_option ((#) (acc @ [f])) (read_csv [] t)
              else None))"
  by pat_completeness auto
termination by (relation "measure (\<lambda>(_, s). length s)") (auto dest: read_field_length)

declare read_csv.simps [simp del]

lemma read_quoted_quote:
  "t = [] \<or> hd t \<noteq> dquote \<Longrightarrow>
    read_quoted (concat (map (\<lambda>c. if c = dquote then [dquote, dquote] else [c]) f) @ dquote # t) = Some (f, t)"
proof (induction f)
  case Nil
  then show ?case by (cases t) auto
next
  case (Cons c f)
  let ?rest = "concat (map (\<lambda>c. if c = dquote then [dquote, dquote] else [c]) f) @ dquote # t"
  show ?case
  proof (cases "c = dquote")
    case True
    then show ?thesis using Cons by simp
  next
    case False
    obtain d s where ds: "?rest = d # s" by (cases ?rest) auto
    then show ?thesis using Cons False by simp
  qed
qed

lemma read_field_csv:
  assumes "field_end e"
  shows "read_field (csv_field f @ e # t) = Some (f, e # t)"
proof (cases "fieldNeedsQuotes f")
  case True
  have "e \<noteq> dquote" using assms by (auto simp: field_end_def dquote_def LF_def)
  then show ?thesis using True read_quoted_quote[of "e # t" f] by (simp add: csv_field_def quote_field_def read_field_def)
next
  case False
  then have plain: "\<forall>c \<in> set f. \<not> field_end c" and no_quote: "\<forall>c \<in> set f. c \<noteq> dquote"
    by (cases "f = []"; auto simp: fieldNeedsQuotes_def field_end_def split: if_splits)+
  have "e \<noteq> dquote" using assms by (auto simp: field_end_def dquote_def LF_def)
  then have "read_field (f @ e # t) = Some (takeWhile (\<lambda>c. \<not> field_end c) (f @ e # t), dropWhile (\<lambda>c. \<not> field_end c) (f @ e # t))"
    using no_quote by (cases f) (auto simp: read_field_def)
  also have "\<dots> = Some (f, e # t)"
    using plain assms by (simp add: takeWhile_append2 dropWhile_append2)
  finally show ?thesis using False by (simp add: csv_field_def)
qed

lemma read_csv_record:
  assumes "fs \<noteq> []"
  shows "read_csv acc (csv_fields fs @ LF # t) = map_option ((#) (acc @ fs)) (read_csv [] t)"
  using assms
proof (induction fs arbitrary: acc rule: csv_fields.induct)
  case (2 f)
  have "csv_fields [f] @ LF # t \<noteq> []" by simp
  then show ?case using read_field_csv[of LF f t] by (subst read_csv.simps) (simp add: field_end_def LF_def)
next
  case (3 f g fs)
  have "read_field (csv_field f @ CHR '','' # csv_fields (g # fs) @ LF # t) = Some (f, CHR '','' # csv_fields (g # fs) @ LF # t)"
    by (rule read_field_csv) (simp add: field_end_def)
  then show ?case using 3 by (subst read_csv.simps) simp
qed simp

lemma read_csv_records:
  "\<forall>r \<in> set rows. r \<noteq> [] \<Longrightarrow> read_csv [] (concat (map csv_Write rows)) = Some rows"
proof (induction rows)
  case Nil
  then show ?case by (simp add: read_csv.simps)
next
  case (Cons r rows)
  then show ?case using read_csv_record[of r "[]" "concat (map csv_Write rows)"] by (simp add: csv_Write_def[of r])
qed

section \<open>Properties\<close>

lemma read_writeCSV: "read_csv [] (writeCSV entries) = Some (csv_header # map csv_record entries)"
  unfolding writeCSV_def by (rule read_csv_records) (auto simp: csv_header_def csv_record_def)


lemma cost_filter_sel:
  "cf_Since (cost_filter since until g t) = since" "cf_Until (cost_filter since until g t) = until"
  "cf_TenantID (cost_filter since until g t) = t"
  by (simp_all add: cost_filter_def)

lemma sqlite_requests:
  "\<exists>es. la_QueryCosts (sqlite_api eng db None) flt = Inr es \<and>
    sum_list (map ce_Requests es) = int (length (usage_where db (cf_Since flt) (cf_Until flt) (cf_TenantID flt)))"
  using group_by_length[of "group_column (cf_GroupBy flt)" "usage_where db (cf_Since flt) (cf_Until flt) (cf_TenantID flt)"]
  by (simp add: sqlite_api_def sqlite_QueryCosts_def run_sql_def comp_def case_prod_unfold cost_entry_def Let_def)

text \<open>The largest number of hours whose duration fits into 64 bits.\<close>

definition max_hours :: int where "max_hours = 2562047"

lemma since_hours_exact: "0 < hours \<Longrightarrow> hours \<le> max_hours \<Longrightarrow> since_hours now hours = now - hours * Hour"
  by (simp add: since_hours_def time_Add_def max_hours_def duration_units in_i64_def)

lemma since_hours_wrapped:
  assumes "max_hours < hours" "hours \<le> 2 * max_hours"
  shows "now < since_hours now hours"
proof -
  have h: "in_i64 (- hours)" using assms by (simp add: in_i64_def max_hours_def)
  have "- hours * Hour + 2 ^ 63 = (- hours * Hour + 2 ^ 63 + 2 ^ 64) + - 1 * 2 ^ 64" by simp
  moreover have "0 \<le> - hours * Hour + 2 ^ 63 + 2 ^ 64" "- hours * Hour + 2 ^ 63 + 2 ^ 64 < 2 ^ 64"
    using assms by (simp_all add: max_hours_def duration_units)
  ultimately have "(- hours * Hour + 2 ^ 63) mod 2 ^ 64 = - hours * Hour + 2 ^ 63 + 2 ^ 64"
    by (metis mod_mult_self1 mod_pos_pos_trivial mult.commute)
  then have "i64 (- hours * Hour) = 2 ^ 64 - hours * Hour" by (simp add: i64_def)
  then show ?thesis using assms h by (simp add: since_hours_def time_Add_def max_hours_def duration_units)
qed

text \<open>
  The window of a report: without a usable \<open>hours\<close> parameter it is the last 24 hours, and up to
  2562047 hours, some 292 years, it is exactly the hours that were asked for; the report has exactly
  the records of this window and of the tenant that was asked for.
\<close>

theorem report_window:
  assumes "Atoi (param r ''hours'') \<le> max_hours" and "da_ledger h = sqlite_api eng db None"
  shows "\<exists>es. handleCosts h r = (200, Costs es) \<and>
    sum_list (map ce_Requests es) =
      int (length (usage_where db (da_now h - int_param r ''hours'' 24 * Hour) (da_now h) (param r ''tenant''))) \<and>
    (Atoi (param r ''hours'') \<le> 0 \<longrightarrow> int_param r ''hours'' 24 = 24)"
proof -
  have "0 < int_param r ''hours'' 24" "int_param r ''hours'' 24 \<le> max_hours"
    using assms(1) by (auto simp: int_param_def max_hours_def)
  then have since: "since_hours (da_now h) (int_param r ''hours'' 24) = da_now h - int_param r ''hours'' 24 * Hour"
    by (rule since_hours_exact)
  obtain es where es: "la_QueryCosts (da_ledger h) (cost_filter (da_now h - int_param r ''hours'' 24 * Hour) (da_now h)
      (param_or r ''group_by'' ''model'') (param r ''tenant'')) = Inr es"
    "sum_list (map ce_Requests es) =
      int (length (usage_where db (da_now h - int_param r ''hours'' 24 * Hour) (da_now h) (param r ''tenant'')))"
    using sqlite_requests[of eng db "cost_filter _ _ _ _"] assms(2) unfolding cost_filter_sel by metis
  then have "handleCosts h r = (200, Costs es)" by (simp add: handleCosts_def since answer_def)
  then show ?thesis using es by (auto simp: int_param_def)
qed

definition hours_request :: "string \<Rightarrow> request" where
  "hours_request n = \<lparr>Method = ''GET'', Host = '''', Path = ''/api/dashboard/costs'', RawQuery = ''hours='' @ n,
     ReqHeader = Map.empty, ReqBody = ''''\<rparr>"

definition sample_dashboard :: dashboard where
  "sample_dashboard = \<lparr>da_ledger = sqlite_api an_engine (empty_db\<lparr>usage_records := [a_record ''1'' ''g'', a_record ''2'' ''h'']\<rparr>) None,
     da_tracker = None, da_order = (\<lambda>xs. xs), da_now = 10, da_ParseFloat = (\<lambda>_. 0)\<rparr>"

theorem report_window_witness:
  "\<exists>es. handleCosts sample_dashboard (hours_request ''48'') = (200, Costs es) \<and> sum_list (map ce_Requests es) = 2"
proof -
  have hours: "Atoi (param (hours_request ''48'') ''hours'') = 48" "param (hours_request ''48'') ''tenant'' = ''''" by code_simp+
  have le: "Atoi (param (hours_request ''48'') ''hours'') \<le> max_hours" by (simp add: hours max_hours_def)
  have led: "da_ledger sample_dashboard = sqlite_api an_engine (empty_db\<lparr>usage_records := [a_record ''1'' ''g'', a_record ''2'' ''h'']\<rparr>) None"
    by (simp add: sample_dashboard_def)
  have "length (usage_where (empty_db\<lparr>usage_records := [a_record ''1'' ''g'', a_record ''2'' ''h'']\<rparr>)
      (da_now sample_dashboard - 48 * Hour) (da_now sample_dashboard) '''') = 2"
    by (simp add: usage_where_def empty_db_def a_record_def in_span_def sample_dashboard_def duration_units)
  then show ?thesis using report_window[OF le led] by (simp add: hours int_param_def)
qed

text \<open>
  Beyond 2562047 hours the duration overflows: up to twice that number, the window begins in the
  future, and the report is empty whatever was recorded up to now.
\<close>

theorem report_window_wraps:
  assumes "max_hours < Atoi (param r ''hours'')" and "Atoi (param r ''hours'') \<le> 2 * max_hours"
    and "da_ledger h = sqlite_api eng db None"
  shows "handleCosts h r = (200, Costs [])"
proof -
  have "int_param r ''hours'' 24 = Atoi (param r ''hours'')" using assms(1) by (simp add: int_param_def max_hours_def)
  then have "da_now h < since_hours (da_now h) (int_param r ''hours'' 24)"
    using since_hours_wrapped[OF assms(1,2)] by simp
  then have "usage_where db (since_hours (da_now h) (int_param r ''hours'' 24)) (da_now h) (param r ''tenant'') = []"
    by (auto simp: usage_where_def in_span_def filter_empty_conv)
  then show ?thesis using assms(3)
    by (simp add: handleCosts_def answer_def sqlite_api_def sqlite_QueryCosts_def run_sql_def cost_filter_def group_by_def sort_desc_def)
qed

theorem report_window_wraps_witness: "handleCosts sample_dashboard (hours_request ''3000000'') = (200, Costs [])"
proof -
  have "Atoi (param (hours_request ''3000000'') ''hours'') = 3000000" by code_simp
  then show ?thesis
    by (intro report_window_wraps[of "hours_request ''3000000''" sample_dashboard an_engine]) (simp_all add: max_hours_def sample_dashboard_def)
qed

lemma sum_requests_i64: "sum_requests es = i64 (sum_list (map ce_Requests es))"
proof -
  have add: "i64 (i64 a + b) = i64 (a + b)" for a b unfolding i64_def by (simp add: mod_simps algebra_simps)
  have "foldl (\<lambda>n e. i64 (n + ce_Requests e)) (i64 k) es = i64 (k + sum_list (map ce_Requests es))" for k
    by (induction es arbitrary: k) (simp_all add: add algebra_simps)
  from this[of 0] show ?thesis by (simp add: sum_requests_def i64_def)
qed

text \<open>
  The summary counts every request once: over SQLite, today's requests are the records since
  midnight of the tenant, or of all tenants when none is asked for, and the active sessions are those
  the tracker holds.
\<close>

theorem summary_counts:
  "\<exists>today month.
    handleSummary (h\<lparr>da_ledger := sqlite_api eng db None\<rparr>) r =
      (200, Summary \<lparr>su_today_spend = today, su_month_spend = month,
         su_today_requests = i64 (int (length (usage_where db (dayStart (da_now h)) (da_now h) (param r ''tenant'')))),
         su_active_sessions = (case da_tracker h of None \<Rightarrow> 0 | Some t \<Rightarrow> ActiveSessionCount t)\<rparr>)"
proof -
  obtain es where es: "la_QueryCosts (sqlite_api eng db None) (cost_filter (dayStart (da_now h)) (da_now h) ''model'' (param r ''tenant'')) = Inr es"
    "sum_list (map ce_Requests es) = int (length (usage_where db (dayStart (da_now h)) (da_now h) (param r ''tenant'')))"
    using sqlite_requests[of eng db "cost_filter (dayStart (da_now h)) (da_now h) ''model'' (param r ''tenant'')"]
    unfolding cost_filter_sel by blast
  obtain fs where "la_QueryCosts (sqlite_api eng db None) (cost_filter (monthStart (da_now h)) (da_now h) ''model'' (param r ''tenant'')) = Inr fs"
    using sqlite_requests by blast
  then show ?thesis using es by (simp add: handleSummary_def Let_def sum_requests_i64)
qed

end
