(* ===== verification/Serve.thy ===== *)
theory Serve
  imports MCP Alerting Dashboard
begin

text \<open>
  The server (\<open>cmd/agentledger/serve.go\<close>) and its configuration (\<open>internal/config/config.go\<close>): what
  \<open>runServe\<close> builds from a configuration, which handler a path reaches, the CORS middleware, and how
  the events of the budget manager become alerts.

  Viper, which reads files and environment variables, is not part of the sources: \<open>Load\<close> takes its
  reading and unmarshalling as arguments. Logging, opening the database, listening and the shutdown
  signals are not modelled.
\<close>

section \<open>Configuration\<close>

record StorageConfig =
  st_Driver :: string
  st_DSN :: string
  st_MaxOpenConns :: int
  st_MaxIdleConns :: int

record LogConfig =
  lg_Level :: string
  lg_Format :: string

record RecordingConfig =
  rc_BufferSize :: int
  rc_Workers :: int

record BudgetRuleConfig =
  br_APIKeyPattern :: string
  br_TenantID :: string
  br_DailyLimitUSD :: float64
  br_MonthlyLimitUSD :: float64
  br_SoftLimitPct :: float64
  br_Action :: string

record BudgetsConfig =
  bc_Default :: BudgetRuleConfig
  bc_Rules :: "BudgetRuleConfig list"

record CBConfig =
  cb_MaxFailures :: int
  cb_TimeoutSecs :: int

record TenantKeyMapping =
  tk_APIKeyPattern :: string
  tk_TenantID :: string

record TenantsConfig =
  tn_Enabled :: bool
  tn_KeyMappings :: "TenantKeyMapping list"

record AlertWebhookConfig =
  wh_URL :: string
  wh_Headers :: "(string \<times> string) list"

record AlertsConfig =
  ac_SlackURL :: string
  ac_Webhooks :: "AlertWebhookConfig list"
  ac_CooldownMin :: int

record RateLimitRule =
  rr_APIKeyPattern :: string
  rr_RequestsPerMinute :: int
  rr_RequestsPerHour :: int

record RateLimitsConfig =
  rlc_Default :: RateLimitRule
  rlc_Rules :: "RateLimitRule list"

record AdminConfig =
  adc_Enabled :: bool
  adc_Token :: string

record MCPPricingRule =
  mp_Server :: string
  mp_Tool :: string
  mp_CostPerCall :: float64

record MCPConfig =
  mcc_Enabled :: bool
  mcc_Upstream :: string
  mcc_Pricing :: "MCPPricingRule list"

record server_config =
  cfg_Listen :: string
  cfg_Providers :: ProvidersConfig
  cfg_Storage :: StorageConfig
  cfg_Log :: LogConfig
  cfg_Recording :: RecordingConfig
  cfg_Budgets :: BudgetsConfig
  cfg_CircuitBreaker :: CBConfig
  cfg_Agent :: agent_config
  cfg_Dashboard :: bool
  cfg_Tenants :: TenantsConfig
  cfg_Alerts :: AlertsConfig
  cfg_RateLimits :: RateLimitsConfig
  cfg_Admin :: AdminConfig
  cfg_MCP :: MCPConfig
  cfg_CORS :: "string list"
  cfg_TLS :: "string \<times> string"

text \<open>The defaults that \<open>Load\<close> registers, in source order.\<close>

datatype setting = SStr string | SBool bool | SInt int | SFloat float64

definition extra_defaults :: "string \<Rightarrow> string \<Rightarrow> string \<Rightarrow> (string \<times> setting) list" where
  "extra_defaults name typ upstream =
    (let key = (\<lambda>f. ''providers.extra.'' @ name @ ''.'' @ f) in
     [(key ''type'', SStr typ), (key ''upstream'', SStr upstream), (key ''path_prefix'', SStr (''/'' @ name)),
      (key ''enabled'', SBool False)])"

definition extra_literals :: "(string \<times> string \<times> string) list" where
  "extra_literals = [
    (''groq'', ''openai'', ''https://api.groq.com/openai''),
    (''mistral'', ''openai'', ''https://api.mistral.ai''),
    (''deepseek'', ''openai'', ''https://api.deepseek.com''),
    (''gemini'', ''gemini'', ''https://generativelanguage.googleapis.com''),
    (''cohere'', ''cohere'', ''https://api.cohere.com''),
    (''azure'', ''azure'', ''''),
    (''together'', ''openai'', ''https://api.together.xyz''),
    (''fireworks'', ''openai'', ''https://api.fireworks.ai/inference''),
    (''perplexity'', ''openai'', ''https://api.perplexity.ai''),
    (''openrouter'', ''openai'', ''https://openrouter.ai/api''),
    (''xai'', ''openai'', ''https://api.x.ai''),
    (''cerebras'', ''openai'', ''https://api.cerebras.ai''),
    (''sambanova'', ''openai'', ''https://api.sambanova.ai'')]"

definition default_settings :: "(string \<times> setting) list" where
  "default_settings =
    [(''listen'', SStr '':8787''),
     (''providers.openai.upstream'', SStr ''https://api.openai.com''), (''providers.openai.enabled'', SBool True),
     (''providers.anthropic.upstream'', SStr ''https://api.anthropic.com''), (''providers.anthropic.enabled'', SBool True)] @
    concat (map (\<lambda>(n, t, u). extra_defaults n t u) extra_literals) @
    [(''storage.driver'', SStr ''sqlite''), (''storage.dsn'', SStr ''data/agentledger.db''),
     (''log.level'', SStr ''info''), (''log.format'', SStr ''text''),
     (''recording.buffer_size'', SInt 10000), (''recording.workers'', SInt 4),
     (''agent.session_timeout_mins'', SInt 30), (''agent.loop_threshold'', SInt 0), (''agent.loop_window_mins'', SInt 5),
     (''agent.loop_action'', SStr ''warn''), (''agent.ghost_max_age_mins'', SInt 0), (''agent.ghost_min_calls'', SInt 50),
     (''agent.ghost_min_cost_usd'', SFloat 1), (''dashboard.enabled'', SBool True), (''mcp.enabled'', SBool False),
     (''mcp.upstream'', SStr '''')]"

text \<open>
  \<open>read\<close> reads the configuration file, \<open>unmarshal\<close> fills the struct from defaults, file and
  environment.
\<close>

definition Load :: "(string \<Rightarrow> string option) \<Rightarrow> ((string \<times> setting) list \<Rightarrow> string + server_config) \<Rightarrow> string \<Rightarrow> string + server_config" where
  "Load read unmarshal path =
    (case read path of
       Some err \<Rightarrow>
         if path \<noteq> '''' then Inl (wrap (''reading config '' @ path) err)
         else (case unmarshal default_settings of Inl e \<Rightarrow> Inl (wrap ''unmarshalling config'' e) | Inr cfg \<Rightarrow> Inr cfg)
     | None \<Rightarrow> (case unmarshal default_settings of Inl e \<Rightarrow> Inl (wrap ''unmarshalling config'' e) | Inr cfg \<Rightarrow> Inr cfg))"

section \<open>Building the server\<close>

definition budget_rule_of :: "BudgetRuleConfig \<Rightarrow> Rule" where
  "budget_rule_of r = \<lparr>APIKeyPattern = br_APIKeyPattern r, TenantID = br_TenantID r, DailyLimitUSD = br_DailyLimitUSD r,
     MonthlyLimitUSD = br_MonthlyLimitUSD r, SoftLimitPct = br_SoftLimitPct r, Action = br_Action r\<rparr>"

text \<open>The tenant of the default rule is not copied.\<close>

definition budget_config :: "BudgetsConfig \<Rightarrow> Config" where
  "budget_config b = \<lparr>Default = (budget_rule_of (bc_Default b))\<lparr>TenantID := ''''\<rparr>, Rules = map budget_rule_of (bc_Rules b)\<rparr>"

definition breaker_of :: "CBConfig \<Rightarrow> time \<Rightarrow> BreakerTransport option" where
  "breaker_of c zeroTime =
    (if cb_MaxFailures c > 0 then
       (let t = i64 (cb_TimeoutSecs c * Second) in
        Some (NewBreakerTransport (cb_MaxFailures c) (if t = 0 then 30 * Second else t) zeroTime))
     else None)"

text \<open>The notifier: the sinks and the deduplication, if there is a sink.\<close>

definition alert_sinks :: "AlertsConfig \<Rightarrow> sink list" where
  "alert_sinks a = sinks_of (ac_SlackURL a) (map (\<lambda>w. (wh_URL w, wh_Headers w)) (ac_Webhooks a))"

definition alert_notifier :: "AlertsConfig \<Rightarrow> RateLimitedNotifier option" where
  "alert_notifier a = (if alert_sinks a \<noteq> [] then Some (NewRateLimitedNotifier (alert_cooldown (ac_CooldownMin a))) else None)"

definition budget_manager :: "server_config \<Rightarrow> Manager" where
  "budget_manager cfg =
    (let m = NewManager (budget_config (cfg_Budgets cfg)) in
     if alert_notifier (cfg_Alerts cfg) \<noteq> None \<and> b_Enabled m then SetCallbacks m True True else m)"

definition session_tracker :: "server_config \<Rightarrow> Tracker" where
  "session_tracker cfg =
    (let t = NewTracker (cfg_Agent cfg) True in
     if alert_notifier (cfg_Alerts cfg) \<noteq> None \<and> t_Enabled t then SetAlertNotifier t else t)"

definition tenant_resolver :: "TenantsConfig \<Rightarrow> resolver option" where
  "tenant_resolver c =
    (if tn_Enabled c then
       Some (ChainResolver (HeaderResolver #
         (if tn_KeyMappings c \<noteq> []
          then [ConfigResolver (map (\<lambda>km. \<lparr>km_APIKeyPattern = tk_APIKeyPattern km, km_TenantID = tk_TenantID km\<rparr>) (tn_KeyMappings c))]
          else [])))
     else None)"

text \<open>The pattern of the default rate limit is not copied.\<close>

definition rate_limiter :: "RateLimitsConfig \<Rightarrow> limiter" where
  "rate_limiter c = rl_New
    \<lparr>rl_Default = \<lparr>rl_APIKeyPattern = '''', RequestsPerMinute = rr_RequestsPerMinute (rlc_Default c),
       RequestsPerHour = rr_RequestsPerHour (rlc_Default c)\<rparr>,
     rl_Rules = map (\<lambda>r. \<lparr>rl_APIKeyPattern = rr_APIKeyPattern r, RequestsPerMinute = rr_RequestsPerMinute r,
       RequestsPerHour = rr_RequestsPerHour r\<rparr>) (rlc_Rules c)\<rparr>"

definition admin_on :: "AdminConfig \<Rightarrow> bool" where
  "admin_on c \<longleftrightarrow> adc_Enabled c \<and> adc_Token c \<noteq> ''''"

definition server_proxy :: "server_config \<Rightarrow> 'enc meter \<Rightarrow> 'db \<Rightarrow> ('enc, 'db) proxy" where
  "server_proxy cfg m store =
    \<lparr>px_registry = NewRegistry (cfg_Providers cfg), px_meter = m,
     px_recorder = NewRecorder store (rc_BufferSize (cfg_Recording cfg)) (rc_Workers (cfg_Recording cfg)),
     px_budget = Some (budget_manager cfg), px_tracker = Some (session_tracker cfg), px_metrics = True,
     px_limiter = Some (rate_limiter (cfg_RateLimits cfg)), px_resolver = tenant_resolver (cfg_Tenants cfg),
     px_blocklist = (if admin_on (cfg_Admin cfg) then Some NewBlocklist else None)\<rparr>"

definition mcp_rules :: "MCPConfig \<Rightarrow> PricingRule list" where
  "mcp_rules c = map (\<lambda>r. \<lparr>pr_Server = mp_Server r, pr_Tool = mp_Tool r, pr_CostPerCall = mp_CostPerCall r\<rparr>) (mcc_Pricing c)"

definition mcp_proxy :: "MCPConfig \<Rightarrow> HTTPProxy option" where
  "mcp_proxy c = (if mcc_Enabled c \<and> mcc_Upstream c \<noteq> '''' then Some (NewHTTPProxy (mcc_Upstream c) (mcp_rules c)) else None)"

datatype log_level = LevelDebug | LevelInfo | LevelWarn | LevelError

definition newLogger :: "LogConfig \<Rightarrow> log_level \<times> bool" where
  "newLogger c =
    (if lg_Level c = ''debug'' then LevelDebug else if lg_Level c = ''warn'' then LevelWarn
     else if lg_Level c = ''error'' then LevelError else LevelInfo, lg_Format c = ''json'')"

section \<open>Routing\<close>

datatype target =
    ToProxy
  | ToMetrics
  | ToMCP
  | ToAdmin
  | ToDashboard
  | ToStatic

text \<open>A pattern of the mux: a method or none, a path, and the handler.\<close>

type_synonym pattern = "string option \<times> string \<times> target"

definition admin_patterns :: "pattern list" where
  "admin_patterns = map (\<lambda>(m, p). (Some m, p, ToAdmin)) [
    (''GET'', ''/api/admin/budgets/rules''), (''POST'', ''/api/admin/budgets/rules''), (''DELETE'', ''/api/admin/budgets/rules''),
    (''GET'', ''/api/admin/api-keys''), (''GET'', ''/api/admin/api-keys/blocked''), (''POST'', ''/api/admin/api-keys/block''),
    (''DELETE'', ''/api/admin/api-keys/block''), (''GET'', ''/api/admin/providers''), (''GET'', ''/api/admin/budgets/status'')]"

definition mux_patterns :: "server_config \<Rightarrow> pattern list" where
  "mux_patterns cfg =
    [(None, ''/v1/'', ToProxy), (None, ''/health'', ToProxy), (None, ''/metrics'', ToMetrics)] @
    map (\<lambda>prefix. (None, prefix @ ''/'', ToProxy)) (PathPrefixes (NewRegistry (cfg_Providers cfg))) @
    (if mcp_proxy (cfg_MCP cfg) \<noteq> None then [(None, ''/mcp/'', ToMCP)] else []) @
    (if admin_on (cfg_Admin cfg) then admin_patterns else []) @
    (if cfg_Dashboard cfg then map (\<lambda>(p, _). (Some ''GET'', p, ToDashboard)) dash_routes @ [(None, ''/'', ToStatic)] else [])"

text \<open>Registering a pattern twice panics.\<close>

definition register_all :: "server_config \<Rightarrow> string + pattern list" where
  "register_all cfg =
    (if distinct (map (\<lambda>(m, p, _). (m, p)) (mux_patterns cfg)) then Inr (mux_patterns cfg)
     else Inl ''http: multiple registrations'')"

text \<open>
  Which pattern matches a request with a clean path: one that ends in a slash matches the paths below
  it, another one its path only; GET also matches HEAD. The longest path wins.
\<close>

definition pattern_matches :: "request \<Rightarrow> pattern \<Rightarrow> bool" where
  "pattern_matches r pat =
    (case pat of (m, p, _) \<Rightarrow>
       (case m of None \<Rightarrow> True | Some meth \<Rightarrow> Method r = meth \<or> meth = ''GET'' \<and> Method r = ''HEAD'') \<and>
       (if HasSuffix p ''/'' then HasPrefix (Path r) p else Path r = p))"

fun most_specific :: "pattern list \<Rightarrow> pattern option" where
  "most_specific [] = None"
| "most_specific (pat # pats) =
    (case most_specific pats of
       None \<Rightarrow> Some pat
     | Some b \<Rightarrow> if length (fst (snd pat)) \<ge> length (fst (snd b)) then Some pat else Some b)"

definition route :: "pattern list \<Rightarrow> request \<Rightarrow> target option" where
  "route pats r = map_option (snd \<circ> snd) (most_specific (filter (pattern_matches r) pats))"

section \<open>CORS\<close>

definition options_reply :: "header \<Rightarrow> response" where
  "options_reply h = \<lparr>StatusCode = 204, RespHeader = h, RespBody = ''''\<rparr>"

text \<open>
  The middleware in front of a handler, which writes its answer with the headers that are set when
  it is called.
\<close>

definition corsMiddleware :: "string list \<Rightarrow> (header \<Rightarrow> request \<Rightarrow> response) \<Rightarrow> request \<Rightarrow> response" where
  "corsMiddleware origins handler r =
    (if origins = [] then handler Map.empty r
     else
       let origin = header_Get (ReqHeader r) ''Origin'';
           ok = (origin \<noteq> '''' \<and> origin \<in> set origins);
           h = (if ok then header_Set (header_Set Map.empty ''Access-Control-Allow-Origin'' origin) ''Vary'' ''Origin'' else Map.empty)
       in if Method r = ''OPTIONS'' then
            options_reply
             (if ok then header_Set (header_Set (header_Set h ''Access-Control-Allow-Methods'' ''GET, POST, DELETE, OPTIONS'')
                ''Access-Control-Allow-Headers'' ''Authorization, Content-Type, X-Requested-With'')
                ''Access-Control-Max-Age'' ''86400''
              else h)
          else handler h r)"

section \<open>Events of the budget manager\<close>

text \<open>The callbacks that \<open>runServe\<close> installs, each with the clock readings of its call of the notifier.\<close>

fun dispatch :: "post_log notify \<Rightarrow> (budget_event \<times> alert_clocks) list \<Rightarrow> RateLimitedNotifier \<times> post_log \<Rightarrow> RateLimitedNotifier \<times> post_log" where
  "dispatch inner [] s = s"
| "dispatch inner ((OnWarn h res, c) # es) (r, w) =
    (case rn_Notify inner c r w (budget_alert False h res) of (_, s) \<Rightarrow> dispatch inner es s)"
| "dispatch inner ((OnBlock h res, c) # es) (r, w) =
    (case rn_Notify inner c r w (budget_alert True h res) of (_, s) \<Rightarrow> dispatch inner es s)"
| "dispatch inner ((LogError m e, c) # es) s = dispatch inner es s"

fun alert_of :: "budget_event \<Rightarrow> Alert option" where
  "alert_of (OnWarn h res) = Some (budget_alert False h res)"
| "alert_of (OnBlock h res) = Some (budget_alert True h res)"
| "alert_of (LogError m e) = None"

lemma dispatch_run:
  "dispatch inner es (r, w) = rn_run inner r w (List.map_filter (\<lambda>(ev, c). map_option (\<lambda>a. (a, c)) (alert_of ev)) es)"
proof (induction es arbitrary: r w)
  case (Cons e es)
  obtain ev c where e: "e = (ev, c)" by (cases e)
  show ?case using Cons by (cases ev) (auto simp: e split: prod.splits)
qed simp

section \<open>Properties\<close>

lemma most_specific_max:
  "most_specific qs = Some b \<Longrightarrow> b \<in> set qs \<and> (\<forall>q \<in> set qs. length (fst (snd q)) \<le> length (fst (snd b)))"
proof (induction qs arbitrary: b)
  case (Cons q qs)
  show ?case
  proof (cases "most_specific qs")
    case None
    then have "qs = []" by (cases qs) (auto split: option.splits if_splits)
    then show ?thesis using Cons by simp
  next
    case (Some c)
    then show ?thesis using Cons.IH[OF Some] Cons.prems by (auto split: if_splits)
  qed
qed simp

lemma most_specific_None: "most_specific qs = None \<longleftrightarrow> qs = []"
  by (cases qs) (auto split: option.splits)

lemma pattern_choice:
  assumes "pat \<in> set pats" and "pattern_matches r pat"
    and "\<And>q. q \<in> set pats \<Longrightarrow> pattern_matches r q \<Longrightarrow> snd (snd q) \<noteq> t \<Longrightarrow> length (fst (snd q)) < length (fst (snd pat))"
  shows "route pats r = Some t"
proof -
  have "filter (pattern_matches r) pats \<noteq> []" using assms(1,2) by (auto simp: filter_empty_conv)
  then obtain b where b: "most_specific (filter (pattern_matches r) pats) = Some b" using most_specific_None by blast
  have max: "b \<in> set (filter (pattern_matches r) pats)"
    "\<forall>q \<in> set (filter (pattern_matches r) pats). length (fst (snd q)) \<le> length (fst (snd b))"
    using most_specific_max[OF b] by blast+
  then have "b \<in> set pats" "pattern_matches r b" by auto
  moreover have "length (fst (snd pat)) \<le> length (fst (snd b))" using bspec[OF max(2), of pat] assms(1,2) by simp
  ultimately have "snd (snd b) = t" using assms(3)[of b] by linarith
  then show ?thesis by (simp add: route_def b)
qed

text \<open>The pattern that a matching provider's requests fall under.\<close>

definition provider_pattern :: "provider \<Rightarrow> string" where
  "provider_pattern p = (case pv_PathPrefix p of Some pre \<Rightarrow> if pre = '''' then ''/v1/'' else pre @ ''/'' | None \<Rightarrow> ''/v1/'')"

lemma HasPrefix_trans: "HasPrefix s (p @ q) \<Longrightarrow> HasPrefix s p"
  by (auto simp: HasPrefix_iff)

lemma oc_Match_v1: "oc_Match p r \<Longrightarrow> oc_pathPrefix p = '''' \<Longrightarrow> HasPrefix (Path r) ''/v1/''"
  by (auto simp: oc_Match_def Let_def HasPrefix_iff)

lemma registry_azure: "PAzure q \<in> set (NewRegistry c) \<Longrightarrow> az_pathPrefix q = ''/azure''"
  by (auto simp: NewRegistry_def List.map_filter_def extra_provider_def NewProviderByType_def NewAzure_def split: if_splits)

lemma match_below:
  assumes "pv_Match p r" and "p \<in> set (NewRegistry c)"
  shows "HasPrefix (Path r) (provider_pattern p)"
proof (cases p)
  case (POpenAI q)
  then show ?thesis using assms oc_routed.below[of q r] oc_Match_v1[of q r] by (simp add: provider_pattern_def)
next
  case (PAnthropic q)
  then show ?thesis using assms by (auto simp: provider_pattern_def an_Match_def HasPrefix_iff split: if_splits)
next
  case (PAzure q)
  then show ?thesis using assms az_routed.below[of q r] registry_azure[of q c] by (simp add: provider_pattern_def)
next
  case (PGemini q)
  then show ?thesis using assms by (simp add: provider_pattern_def ge_Match_def)
next
  case (PCohere q)
  then show ?thesis using assms by (simp add: provider_pattern_def co_Match_def)
qed

lemma api_paths:
  "q \<in> set admin_patterns \<Longrightarrow> HasPrefix (fst (snd q)) ''/api/'' \<and> \<not> HasSuffix (fst (snd q)) ''/''"
  "e \<in> set dash_routes \<Longrightarrow> HasPrefix (fst e) ''/api/'' \<and> \<not> HasSuffix (fst e) ''/''"
proof -
  have "list_all (\<lambda>q. HasPrefix (fst (snd q)) ''/api/'' \<and> \<not> HasSuffix (fst (snd q)) ''/'') admin_patterns"
    by (simp add: admin_patterns_def HasPrefix_def HasSuffix_def)
  moreover have "list_all (\<lambda>e. HasPrefix (fst e) ''/api/'' \<and> \<not> HasSuffix (fst e) ''/'') dash_routes"
    by (simp add: dash_routes_def HasPrefix_def HasSuffix_def)
  ultimately show "q \<in> set admin_patterns \<Longrightarrow> HasPrefix (fst (snd q)) ''/api/'' \<and> \<not> HasSuffix (fst (snd q)) ''/''"
    "e \<in> set dash_routes \<Longrightarrow> HasPrefix (fst e) ''/api/'' \<and> \<not> HasSuffix (fst e) ''/''"
    by (auto simp: list_all_iff)
qed

lemma not_metrics:
  assumes "HasPrefix ''/metrics'' p" "2 \<le> length p"
  shows "last p \<noteq> CHR ''/''"
proof -
  have p: "p = take (length p) ''/metrics''" using assms(1) by (simp add: HasPrefix_def)
  have len: "length p \<le> 8" using HasPrefix_length[OF assms(1)] by simp
  have "last p = p ! (length p - 1)" using assms(2) by (intro last_conv_nth) auto
  also have "\<dots> = ''/metrics'' ! (length p - 1)" using assms(2) by (subst p) simp
  finally have last: "last p = ''/metrics'' ! (length p - 1)" .
  have "list_all (\<lambda>i. ''/metrics'' ! i \<noteq> CHR ''/'') [1..<8]" by code_simp
  then have "\<forall>i \<in> set [1..<8]. ''/metrics'' ! i \<noteq> CHR ''/''" by (simp only: list_all_iff)
  then show ?thesis unfolding last by (rule bspec) (use assms(2) len in auto)
qed


text \<open>A minimal configuration, for examples: every feature is off.\<close>

definition off_rule :: BudgetRuleConfig where
  "off_rule = \<lparr>br_APIKeyPattern = '''', br_TenantID = '''', br_DailyLimitUSD = 0, br_MonthlyLimitUSD = 0, br_SoftLimitPct = 0, br_Action = ''''\<rparr>"

definition off_provider :: ProviderConfig where
  "off_provider = \<lparr>pc_Upstream = '''', pc_Enabled = False, pc_Type = '''', pc_PathPrefix = ''''\<rparr>"

definition bare_config :: server_config where
  "bare_config =
    \<lparr>cfg_Listen = '''', cfg_Providers = \<lparr>ps_OpenAI = off_provider, ps_Anthropic = off_provider, ps_Extra = []\<rparr>,
     cfg_Storage = \<lparr>st_Driver = '''', st_DSN = '''', st_MaxOpenConns = 0, st_MaxIdleConns = 0\<rparr>,
     cfg_Log = \<lparr>lg_Level = '''', lg_Format = ''''\<rparr>, cfg_Recording = \<lparr>rc_BufferSize = 0, rc_Workers = 0\<rparr>,
     cfg_Budgets = \<lparr>bc_Default = off_rule, bc_Rules = []\<rparr>, cfg_CircuitBreaker = \<lparr>cb_MaxFailures = 0, cb_TimeoutSecs = 0\<rparr>,
     cfg_Agent = \<lparr>SessionTimeoutMins = 0, LoopThreshold = 0, LoopWindowMins = 0, LoopAction = '''', GhostMaxAgeMins = 0,
       GhostMinCalls = 0, GhostMinCostUSD = 0\<rparr>,
     cfg_Dashboard = True, cfg_Tenants = \<lparr>tn_Enabled = False, tn_KeyMappings = []\<rparr>,
     cfg_Alerts = \<lparr>ac_SlackURL = '''', ac_Webhooks = [], ac_CooldownMin = 0\<rparr>,
     cfg_RateLimits = \<lparr>rlc_Default = \<lparr>rr_APIKeyPattern = '''', rr_RequestsPerMinute = 0, rr_RequestsPerHour = 0\<rparr>, rlc_Rules = []\<rparr>,
     cfg_Admin = \<lparr>adc_Enabled = False, adc_Token = ''''\<rparr>, cfg_MCP = \<lparr>mcc_Enabled = False, mcc_Upstream = '''', mcc_Pricing = []\<rparr>,
     cfg_CORS = [], cfg_TLS = ('''', '''')\<rparr>"

definition groq_config :: server_config where
  "groq_config = bare_config\<lparr>cfg_Providers := \<lparr>ps_OpenAI = off_provider, ps_Anthropic = off_provider,
     ps_Extra = [(''groq'', \<lparr>pc_Upstream = '''', pc_Enabled = True, pc_Type = ''openai'', pc_PathPrefix = ''''\<rparr>)]\<rparr>\<rparr>"


lemma suppressed_other: "suppressed (mark r b d) a t \<Longrightarrow> alertKey b \<noteq> alertKey a \<Longrightarrow> suppressed r a t"
  by (auto simp: suppressed_def mark_def Let_def split: option.splits if_splits)

lemma suppressed_key: "alertKey a = alertKey b \<Longrightarrow> suppressed r a t = suppressed r b t"
  by (simp add: suppressed_def)

lemma first_let_through:
  assumes "(a, c) \<in> set es" and "\<forall>e \<in> set es. \<not> suppressed r a (cl_check (snd e))"
  shows "\<exists>e \<in> set (let_through r es). alertKey (fst e) = alertKey a"
  using assms
proof (induction r es rule: let_through.induct)
  case (2 r b d es)
  show ?case
  proof (cases "alertKey b = alertKey a")
    case True
    then show ?thesis using 2 suppressed_key[OF True] by simp
  next
    case False
    then show ?thesis using 2 suppressed_other[of r b d a] by (cases "suppressed r b (cl_check d)") auto
  qed
qed simp

lemma let_through_subset: "set (let_through r es) \<subseteq> set es"
  by (induction r es rule: let_through.induct) auto


definition alert_config :: server_config where
  "alert_config = bare_config\<lparr>cfg_Budgets := \<lparr>bc_Default = off_rule\<lparr>br_DailyLimitUSD := 10, br_Action := ''block''\<rparr>, bc_Rules = []\<rparr>,
     cfg_Alerts := \<lparr>ac_SlackURL = ''u'', ac_Webhooks = [], ac_CooldownMin = 0\<rparr>\<rparr>"

lemma alert_config_check:
  "fst (Check (flat_spend 12) (budget_manager alert_config) ''k'' ''h'' '''' (5, 5, 5) (5, 5, 5)) =
     evaluateRule (Default ten_dollars) 12 12"
  by (simp add: alert_config_def bare_config_def off_rule_def budget_manager_def budget_config_def budget_rule_of_def
      alert_notifier_def alert_sinks_def sinks_of_def NewManager_def SetCallbacks_def Check_result key_result_def tenant_result_def
      limited_def matchRule_def getSpend_def cachedSpend_def flat_spend_def ten_dollars_def Let_def)


text \<open>The middleware tells only a configured, non-empty origin that it may read an answer, and answers \<open>OPTIONS\<close> itself.\<close>

lemma cors_confined:
  assumes "origins \<noteq> []"
  shows "\<exists>h. header_Get h ''Access-Control-Allow-Origin'' =
        (if header_Get (ReqHeader r) ''Origin'' \<in> set origins then header_Get (ReqHeader r) ''Origin'' else '''') \<and>
      corsMiddleware origins handler r = (if Method r = ''OPTIONS'' then options_reply h else handler h r)"
proof -
  have keys: "list_all (\<lambda>k. CanonicalHeaderKey k \<noteq> CanonicalHeaderKey ''Access-Control-Allow-Origin'')
    [''Vary'', ''Access-Control-Allow-Methods'', ''Access-Control-Allow-Headers'', ''Access-Control-Max-Age'']"
    by code_simp
  have none: "header_Get Map.empty k = ''''" for k by (simp add: header_Get_def)
  let ?o = "header_Get (ReqHeader r) ''Origin''"
  have some_h: "P x \<Longrightarrow> f x = y \<Longrightarrow> \<exists>h. P h \<and> y = f h" for P and f :: "header \<Rightarrow> response" and x y by blast
  show ?thesis
  proof (cases "?o \<noteq> '''' \<and> ?o \<in> set origins"; cases "Method r = ''OPTIONS''")
    assume ok: "?o \<noteq> '''' \<and> ?o \<in> set origins" "Method r \<noteq> ''OPTIONS''"
    show ?thesis
      by (rule some_h[of _ "header_Set (header_Set Map.empty ''Access-Control-Allow-Origin'' ?o) ''Vary'' ''Origin''"])
         (use ok keys assms in \<open>simp_all add: corsMiddleware_def\<close>)
  next
    assume ok: "?o \<noteq> '''' \<and> ?o \<in> set origins" "Method r = ''OPTIONS''"
    show ?thesis
      by (rule some_h[of _ "RespHeader (corsMiddleware origins handler r)"])
         (use ok keys assms in \<open>simp_all add: corsMiddleware_def options_reply_def\<close>)
  qed (use assms in \<open>auto simp: corsMiddleware_def none intro!: exI[of _ Map.empty]\<close>)
qed

lemma distinct_admin_dash:
  "distinct (map (\<lambda>(m, p, _). (m, p)) admin_patterns @ map (\<lambda>(p, _). (Some ''GET'', p)) dash_routes)"
  by (simp add: admin_patterns_def dash_routes_def)

lemma distinct_by_method:
  assumes "\<And>x. x \<in> set api \<Longrightarrow> fst x \<noteq> None"
  shows "distinct (map (Pair None) paths @ api @ map (Pair None) rest) \<longleftrightarrow> distinct (paths @ rest) \<and> distinct api"
  using assms by (force simp: distinct_map inj_on_def)

lemma mux_distinct:
  "distinct (map (\<lambda>(m, p, _). (m, p)) (mux_patterns cfg)) \<longleftrightarrow>
    ''/v1'' \<notin> set (PathPrefixes (NewRegistry (cfg_Providers cfg))) \<and>
    (mcp_proxy (cfg_MCP cfg) = None \<or> ''/mcp'' \<notin> set (PathPrefixes (NewRegistry (cfg_Providers cfg))))"
proof -
  let ?ps = "PathPrefixes (NewRegistry (cfg_Providers cfg))"
  let ?mcp = "if mcp_proxy (cfg_MCP cfg) \<noteq> None then [''/mcp/''] else []"
  let ?api = "(if admin_on (cfg_Admin cfg) then map (\<lambda>(m, p, _). (m, p)) admin_patterns else []) @
    (if cfg_Dashboard cfg then map (\<lambda>(p, _). (Some ''GET'', p)) dash_routes else [])"
  let ?root = "if cfg_Dashboard cfg then [''/''] else []"
  let ?paths = "[''/v1/'', ''/health'', ''/metrics''] @ map (\<lambda>p. p @ ''/'') ?ps @ ?mcp"
  have ps: "distinct ?ps" "'''' \<notin> set ?ps" using PathPrefixes_exact[of "NewRegistry (cfg_Providers cfg)"] by auto
  have pres: "distinct (map (\<lambda>p. p @ ''/'') ?ps)" using ps(1) by (simp add: distinct_map inj_on_def)
  have tail: "p @ ''/'' = q @ ''/'' \<longleftrightarrow> p = q" "p @ ''/'' \<noteq> s @ ''h''" "p @ ''/'' \<noteq> s @ ''s''" for p q s :: string by auto
  have eqs: "p @ ''/'' = ''/v1/'' \<longleftrightarrow> p = ''/v1''" "p @ ''/'' = ''/mcp/'' \<longleftrightarrow> p = ''/mcp''" "p @ ''/'' = ''/'' \<longleftrightarrow> p = ''''"
    "p @ ''/'' \<noteq> ''/health''" "p @ ''/'' \<noteq> ''/metrics''" for p :: string
    using tail(1)[of p "''/v1''"] tail(1)[of p "''/mcp''"] tail(2)[of p "''/healt''"] tail(3)[of p "''/metric''"] by simp_all
  note eqs' = eqs(1-3)[THEN trans[OF eq_commute]] eqs(4,5)[symmetric]
  have keys: "map (\<lambda>(m, p, _). (m, p)) (mux_patterns cfg) = map (Pair None) ?paths @ ?api @ map (Pair None) ?root"
    by (simp add: mux_patterns_def split_beta comp_def)
  have "distinct ?api" using distinct_admin_dash by auto
  moreover have "fst x \<noteq> None" if "x \<in> set ?api" for x using that by (auto simp: admin_patterns_def split: if_splits)
  moreover have "distinct (?paths @ ?root) \<longleftrightarrow> ''/v1'' \<notin> set ?ps \<and> (mcp_proxy (cfg_MCP cfg) = None \<or> ''/mcp'' \<notin> set ?ps)"
    using pres ps(2) by (auto simp: image_iff eqs eqs')
  ultimately show ?thesis unfolding keys by (subst distinct_by_method) auto
qed


text \<open>The extra providers as the defaults configure them, each switched on or not.\<close>

definition default_extra :: "(string \<Rightarrow> bool) \<Rightarrow> string \<times> string \<times> string \<Rightarrow> string \<times> ProviderConfig" where
  "default_extra on = (\<lambda>(name, typ, upstream).
    (name, \<lparr>pc_Upstream = upstream, pc_Enabled = on name, pc_Type = typ, pc_PathPrefix = ''/'' @ name\<rparr>))"

lemma default_extra_prefix:
  assumes "e \<in> set extra_literals" and "extra_provider (default_extra on e) = Some p"
  shows "pv_PathPrefix p = Some (''/'' @ fst e)" and "on (fst e)"
proof -
  have "list_all (\<lambda>e. pv_PathPrefix (the (extra_provider (default_extra (\<lambda>_. True) e))) = Some (''/'' @ fst e)) extra_literals"
    by code_simp
  moreover have "on (fst e)" and "extra_provider (default_extra on e) = extra_provider (default_extra (\<lambda>_. True) e)"
    using assms(2) by (auto simp: extra_provider_def default_extra_def split: prod.splits if_splits)
  ultimately show "pv_PathPrefix p = Some (''/'' @ fst e)" "on (fst e)"
    using assms bspec[OF _ assms(1)] unfolding list_all_iff by (metis option.sel, blast)
qed

lemma map_filter_prefixes:
  assumes "\<And>e p. e \<in> set es \<Longrightarrow> f e = Some p \<Longrightarrow> g p = h e" and "distinct (map h es)"
  shows "distinct (map g (List.map_filter f es)) \<and> set (map g (List.map_filter f es)) \<subseteq> h ` set es"
proof -
  have "map g (List.map_filter f es) = map h (filter (\<lambda>e. f e \<noteq> None) es)"
    using assms(1) by (auto simp: List.map_filter_def)
  then show ?thesis using assms(2) by (auto simp: distinct_map_filter)
qed

lemma default_routable: "routable (List.map_filter extra_provider (map (default_extra on) extra_literals))"
  and default_prefixes: "pv_PathPrefix ` set (List.map_filter extra_provider (map (default_extra on) extra_literals)) \<subseteq>
    (\<lambda>e. Some (''/'' @ fst e)) ` set extra_literals"
proof -
  let ?ps = "List.map_filter (extra_provider \<circ> default_extra on) extra_literals"
  have eq: "List.map_filter extra_provider (map (default_extra on) extra_literals) = ?ps"
    by (simp add: List.map_filter_def comp_def filter_map)
  have "distinct (map (\<lambda>e. Some (''/'' @ fst e)) extra_literals)" by (simp add: extra_literals_def)
  then have d: "distinct (map pv_PathPrefix ?ps)" "set (map pv_PathPrefix ?ps) \<subseteq> (\<lambda>e. Some (''/'' @ fst e)) ` set extra_literals"
    using map_filter_prefixes[of extra_literals "extra_provider \<circ> default_extra on" pv_PathPrefix "\<lambda>e. Some (''/'' @ fst e)"]
      default_extra_prefix(1) by auto
  have "list_all (\<lambda>e. one_segment (''/'' @ fst e)) extra_literals" by (simp add: extra_literals_def one_segment_def)
  then show "routable (List.map_filter extra_provider (map (default_extra on) extra_literals))"
    using d unfolding eq routable_def by (fastforce simp: list_all_iff)
  show "pv_PathPrefix ` set (List.map_filter extra_provider (map (default_extra on) extra_literals)) \<subseteq>
    (\<lambda>e. Some (''/'' @ fst e)) ` set extra_literals" using d(2) unfolding eq by simp
qed

text \<open>
  The default providers: whichever of them are switched on and in whatever order the configuration
  map yields them, the server starts, and every request is taken by the same provider.
\<close>

theorem default_providers_start:
  assumes "mset (ps_Extra (cfg_Providers cfg)) = mset (map (default_extra on) extra_literals)"
  shows "register_all cfg = Inr (mux_patterns cfg) \<and>
    Detect (NewRegistry (cfg_Providers cfg)) r =
    Detect (NewRegistry ((cfg_Providers cfg)\<lparr>ps_Extra := map (default_extra on) extra_literals\<rparr>)) r"
proof
  let ?ds = "List.map_filter extra_provider (map (default_extra on) extra_literals)"
  have same: "set (List.map_filter extra_provider (ps_Extra (cfg_Providers cfg))) = set ?ds"
    using mset_eq_setD[OF assms] by (simp add: List.map_filter_def)
  have "set (PathPrefixes (NewRegistry (cfg_Providers cfg))) \<subseteq> (\<lambda>e. ''/'' @ fst e) ` set extra_literals"
  proof
    fix pre assume "pre \<in> set (PathPrefixes (NewRegistry (cfg_Providers cfg)))"
    then obtain p where p: "p \<in> set (NewRegistry (cfg_Providers cfg))" "pv_PathPrefix p = Some pre" "pre \<noteq> ''''"
      using PathPrefixes_exact[of "NewRegistry (cfg_Providers cfg)"] by force
    then have "p \<in> set ?ds"
      unfolding same[symmetric] by (auto simp: NewRegistry_def NewOpenAI_def NewOpenAICompatible_def split: if_splits)
    from subsetD[OF default_prefixes imageI[OF this]]
    have "Some pre \<in> (\<lambda>e. Some (''/'' @ fst e)) ` set extra_literals" unfolding p(2) .
    then show "pre \<in> (\<lambda>e. ''/'' @ fst e) ` set extra_literals" by auto
  qed
  moreover have "list_all (\<lambda>e. ''/'' @ fst e \<notin> {''/v1'', ''/mcp''}) extra_literals" by (simp add: extra_literals_def)
  ultimately have "''/v1'' \<notin> set (PathPrefixes (NewRegistry (cfg_Providers cfg)))"
    "''/mcp'' \<notin> set (PathPrefixes (NewRegistry (cfg_Providers cfg)))"
    by (fastforce simp: list_all_iff dest!: subsetD)+
  then show "register_all cfg = Inr (mux_patterns cfg)" using mux_distinct[of cfg] by (simp add: register_all_def)
  show "Detect (NewRegistry (cfg_Providers cfg)) r =
    Detect (NewRegistry ((cfg_Providers cfg)\<lparr>ps_Extra := map (default_extra on) extra_literals\<rparr>)) r"
    using Detect_set[OF default_routable[of on] same] by (simp add: NewRegistry_def Detect_def)
qed

theorem default_providers_start_witness:
  "let cfg = bare_config\<lparr>cfg_Providers := (cfg_Providers bare_config)\<lparr>ps_Extra := rev (map (default_extra (\<lambda>_. True)) extra_literals)\<rparr>\<rparr>
   in register_all cfg = Inr (mux_patterns cfg)"
  unfolding Let_def by (rule conjunct1[OF default_providers_start[where on = "\<lambda>_. True"]]) simp

end
