(* ===== verification/Storage.thy ===== *)
theory Storage
  imports Recorder Paths
begin

text \<open>
  Opening and closing the database: \<open>NewSQLite\<close> and \<open>NewPostgres\<close> with their migrations
  (\<open>internal/ledger/sqlite.go\<close>, \<open>postgres.go\<close>), and the choice of the store by the configured driver.

  The file system, the SQL drivers and Goose are not part of the sources: which of their calls fail
  is an argument, the record \<open>sql_env\<close>. The connection pool of \<open>database/sql\<close> is modelled: a handle is
  its number in the list of handles ever opened. Goose keeps the file system of the migrations and the
  dialect in global variables, which are part of the state.
\<close>

section \<open>Connection pools\<close>

text \<open>\<open>sql.DB\<close>: the limits as the package keeps them, whether it is open, and the migrations run on it.\<close>

record sql_handle =
  h_driver :: string
  h_dsn :: string
  h_maxOpen :: int
  h_maxIdleCount :: int
  h_open :: bool
  h_migrated :: "(string \<times> string) list"

definition maxIdleConns :: "sql_handle \<Rightarrow> int" where
  "maxIdleConns h = (if h_maxIdleCount h = 0 then 2 else if h_maxIdleCount h < 0 then 0 else h_maxIdleCount h)"

definition SetMaxIdleConns :: "int \<Rightarrow> sql_handle \<Rightarrow> sql_handle" where
  "SetMaxIdleConns n h =
    (let h1 = h\<lparr>h_maxIdleCount := if n > 0 then n else - 1\<rparr>
     in if h_maxOpen h1 > 0 \<and> maxIdleConns h1 > h_maxOpen h1 then h1\<lparr>h_maxIdleCount := h_maxOpen h1\<rparr> else h1)"

definition SetMaxOpenConns :: "int \<Rightarrow> sql_handle \<Rightarrow> sql_handle" where
  "SetMaxOpenConns n h =
    (let h1 = h\<lparr>h_maxOpen := if n < 0 then 0 else n\<rparr>
     in if h_maxOpen h1 > 0 \<and> maxIdleConns h1 > h_maxOpen h1 then SetMaxIdleConns n h1 else h1)"

record sql_system =
  sy_dirs :: "string list"
  sy_handles :: "sql_handle list"
  sy_baseFS :: string
  sy_dialect :: string

text \<open>The errors of the code outside, by the arguments of the call.\<close>

record sql_env =
  en_mkdir :: "string \<Rightarrow> string option"
  en_open :: "string \<Rightarrow> string \<Rightarrow> string option"
  en_ping :: "sql_handle \<Rightarrow> string option"
  en_dialect :: "string \<Rightarrow> string option"
  en_up :: "string \<Rightarrow> string \<Rightarrow> sql_handle \<Rightarrow> string \<Rightarrow> string option"

definition on_handle :: "(sql_handle \<Rightarrow> sql_handle) \<Rightarrow> nat \<Rightarrow> sql_system \<Rightarrow> sql_system" where
  "on_handle f db s = s\<lparr>sy_handles := (sy_handles s)[db := f (sy_handles s ! db)]\<rparr>"

definition sql_Open :: "sql_env \<Rightarrow> string \<Rightarrow> string \<Rightarrow> sql_system \<Rightarrow> (string + nat) \<times> sql_system" where
  "sql_Open env driver dsn s =
    (case en_open env driver dsn of
       Some err \<Rightarrow> (Inl err, s)
     | None \<Rightarrow>
         (Inr (length (sy_handles s)),
          s\<lparr>sy_handles := sy_handles s @ [\<lparr>h_driver = driver, h_dsn = dsn, h_maxOpen = 0, h_maxIdleCount = 0,
              h_open = True, h_migrated = []\<rparr>]\<rparr>))"

definition sql_Close :: "nat \<Rightarrow> sql_system \<Rightarrow> sql_system" where
  "sql_Close = on_handle (\<lambda>h. h\<lparr>h_open := False\<rparr>)"

text \<open>\<open>goose.SetDialect\<close> and \<open>goose.Up\<close>, which works with the global file system and dialect.\<close>

definition goose_SetDialect :: "sql_env \<Rightarrow> string \<Rightarrow> sql_system \<Rightarrow> string option \<times> sql_system" where
  "goose_SetDialect env d s =
    (case en_dialect env d of Some err \<Rightarrow> (Some err, s) | None \<Rightarrow> (None, s\<lparr>sy_dialect := d\<rparr>))"

definition goose_Up :: "sql_env \<Rightarrow> nat \<Rightarrow> string \<Rightarrow> sql_system \<Rightarrow> string option \<times> sql_system" where
  "goose_Up env db dir s =
    (case en_up env (sy_baseFS s) (sy_dialect s) (sy_handles s ! db) dir of
       Some err \<Rightarrow> (Some err, s)
     | None \<Rightarrow> (None, on_handle (\<lambda>h. h\<lparr>h_migrated := h_migrated h @ [(sy_dialect s, sy_baseFS s @ '':'' @ dir)]\<rparr>) db s))"

section \<open>SQLite\<close>

definition runSQLiteMigrations :: "sql_env \<Rightarrow> nat \<Rightarrow> sql_system \<Rightarrow> string option \<times> sql_system" where
  "runSQLiteMigrations env db s =
    (case goose_SetDialect env ''sqlite3'' (s\<lparr>sy_baseFS := ''embedSQLiteMigrations''\<rparr>) of
       (Some err, s1) \<Rightarrow> (Some (wrap ''setting goose dialect'' err), s1)
     | (None, s1) \<Rightarrow>
         (case goose_Up env db ''migrations/sqlite'' s1 of
            (Some err, s2) \<Rightarrow> (Some (wrap ''running migrations'' err), s2)
          | (None, s2) \<Rightarrow> (None, s2)))"

definition sqlite_options :: string where
  "sqlite_options = ''?_journal_mode=WAL&_busy_timeout=5000&_synchronous=NORMAL''"

definition MkdirAll :: "sql_env \<Rightarrow> string \<Rightarrow> sql_system \<Rightarrow> string option \<times> sql_system" where
  "MkdirAll env dir s =
    (case en_mkdir env dir of Some err \<Rightarrow> (Some err, s) | None \<Rightarrow> (None, s\<lparr>sy_dirs := sy_dirs s @ [dir]\<rparr>))"

definition NewSQLite :: "sql_env \<Rightarrow> string \<Rightarrow> sql_system \<Rightarrow> (string + nat) \<times> sql_system" where
  "NewSQLite env dsn s =
    (let dir = filepath_Dir dsn in
     case (if dir \<noteq> '''' \<and> dir \<noteq> ''.'' then MkdirAll env dir s else (None, s)) of
       (Some err, s1) \<Rightarrow> (Inl (wrap ''creating data dir'' err), s1)
     | (None, s1) \<Rightarrow>
         (case sql_Open env ''sqlite'' (dsn @ sqlite_options) s1 of
            (Inl err, s2) \<Rightarrow> (Inl (wrap ''opening sqlite'' err), s2)
          | (Inr db, s2) \<Rightarrow>
              (case runSQLiteMigrations env db (on_handle (SetMaxOpenConns 1) db s2) of
                 (Some err, s3) \<Rightarrow> (Inl err, sql_Close db s3)
               | (None, s3) \<Rightarrow> (Inr db, s3))))"

section \<open>Postgres\<close>

definition runPostgresMigrations :: "sql_env \<Rightarrow> nat \<Rightarrow> sql_system \<Rightarrow> string option \<times> sql_system" where
  "runPostgresMigrations env db s =
    (case goose_SetDialect env ''postgres'' (s\<lparr>sy_baseFS := ''embedPostgresMigrations''\<rparr>) of
       (Some err, s1) \<Rightarrow> (Some (wrap ''setting goose dialect'' err), s1)
     | (None, s1) \<Rightarrow>
         (case goose_Up env db ''migrations/postgres'' s1 of
            (Some err, s2) \<Rightarrow> (Some (wrap ''running postgres migrations'' err), s2)
          | (None, s2) \<Rightarrow> (None, s2)))"

definition NewPostgres :: "sql_env \<Rightarrow> string \<Rightarrow> int \<Rightarrow> int \<Rightarrow> sql_system \<Rightarrow> (string + nat) \<times> sql_system" where
  "NewPostgres env dsn maxOpen maxIdle s =
    (case sql_Open env ''postgres'' dsn s of
       (Inl err, s1) \<Rightarrow> (Inl (wrap ''opening postgres'' err), s1)
     | (Inr db, s1) \<Rightarrow>
         (let s2 = (if maxOpen > 0 then on_handle (SetMaxOpenConns maxOpen) db s1 else s1);
              s3 = (if maxIdle > 0 then on_handle (SetMaxIdleConns maxIdle) db s2 else s2)
          in case en_ping env (sy_handles s3 ! db) of
               Some err \<Rightarrow> (Inl (wrap ''pinging postgres'' err), sql_Close db s3)
             | None \<Rightarrow>
                 (case runPostgresMigrations env db s3 of
                    (Some err, s4) \<Rightarrow> (Inl err, sql_Close db s4)
                  | (None, s4) \<Rightarrow> (Inr db, s4))))"

section \<open>The store of a command\<close>

text \<open>
  The variable \<open>store\<close> of \<open>runServe\<close>, \<open>runCosts\<close> and \<open>runExport\<close>: one of the two stores, with its
  handle. \<open>Close\<close> and \<open>DB\<close> are the same for both.
\<close>

datatype store = SQLite nat | Postgres nat

fun store_DB :: "store \<Rightarrow> nat" where
  "store_DB (SQLite db) = db"
| "store_DB (Postgres db) = db"

definition store_Close :: "store \<Rightarrow> sql_system \<Rightarrow> sql_system" where
  "store_Close st = sql_Close (store_DB st)"

definition open_store :: "sql_env \<Rightarrow> string \<Rightarrow> string \<Rightarrow> int \<Rightarrow> int \<Rightarrow> sql_system \<Rightarrow> (string + store) \<times> sql_system" where
  "open_store env driver dsn maxOpen maxIdle s =
    (if driver = ''postgres'' then
       (case NewPostgres env dsn maxOpen maxIdle s of
          (Inl err, s1) \<Rightarrow> (Inl err, s1)
        | (Inr db, s1) \<Rightarrow> (Inr (Postgres db), s1))
     else
       (case NewSQLite env dsn s of
          (Inl err, s1) \<Rightarrow> (Inl err, s1)
        | (Inr db, s1) \<Rightarrow> (Inr (SQLite db), s1)))"

text \<open>The calls of the interface, by the store behind it.\<close>

fun store_RecordUsage :: "store \<Rightarrow> (UsageRecord \<Rightarrow> fault) \<Rightarrow> database \<Rightarrow> UsageRecord \<Rightarrow> string option \<times> database" where
  "store_RecordUsage (SQLite _) faults db x = sqlite_RecordUsage db (faults x) x"
| "store_RecordUsage (Postgres _) faults db x = pg_RecordUsage db (faults x) x"

fun store_UpsertSession :: "store \<Rightarrow> (Session \<Rightarrow> fault) \<Rightarrow> database \<Rightarrow> Session \<Rightarrow> string option \<times> database" where
  "store_UpsertSession (SQLite _) faults db s = sqlite_UpsertSession faults db s"
| "store_UpsertSession (Postgres _) faults db s = pg_UpsertSession faults db s"

fun store_GetSession :: "store \<Rightarrow> database \<Rightarrow> fault \<Rightarrow> string \<Rightarrow> string + Session" where
  "store_GetSession (SQLite _) db fault i = sqlite_GetSession db fault i"
| "store_GetSession (Postgres _) db fault i = pg_GetSession db fault i"

section \<open>The interfaces the components rely on\<close>

lemma find_GetSession: "store_GetSession st db None i = Inr s \<longleftrightarrow> find_session db i = Some s"
  by (cases st) (auto simp: sqlite_GetSession_def pg_GetSession_def split: option.splits)

interpretation store_sessions: session_store "store_UpsertSession st faults" find_session for st faults
proof -
  have "store_UpsertSession st faults = (case st of SQLite _ \<Rightarrow> sqlite_UpsertSession faults | Postgres _ \<Rightarrow> pg_UpsertSession faults)"
    by (cases st) (simp_all add: fun_eq_iff)
  then show "session_store (store_UpsertSession st faults) find_session"
    using sqlite_sessions.session_store_axioms pg_sessions.session_store_axioms by (simp split: store.split)
qed

interpretation store_sink: record_sink "store_RecordUsage st faults" usage_records for st faults
proof -
  have "store_RecordUsage st faults =
      (case st of SQLite _ \<Rightarrow> (\<lambda>db x. sqlite_RecordUsage db (faults x) x) | Postgres _ \<Rightarrow> (\<lambda>db x. pg_RecordUsage db (faults x) x))"
    by (cases st) (simp_all add: fun_eq_iff)
  then show "record_sink (store_RecordUsage st faults) usage_records"
    using sqlite_sink.record_sink_axioms pg_sink.record_sink_axioms by (simp split: store.split)
qed

text \<open>The two components write different tables.\<close>

lemma store_UpsertSession_rows: "store_UpsertSession st faults db s = (err, db') \<Longrightarrow> usage_records db' = usage_records db"
  by (cases st) (auto simp: sqlite_UpsertSession_def pg_UpsertSession_def split: option.splits)

lemma store_RecordUsage_sessions: "agent_sessions (snd (store_RecordUsage st faults db x)) = agent_sessions db"
  by (cases st) (auto simp: sqlite_RecordUsage_def pg_RecordUsage_def split: option.splits)

section \<open>The pool of one command\<close>

definition open_handles :: "sql_system \<Rightarrow> sql_handle list" where
  "open_handles s = filter h_open (sy_handles s)"

text \<open>Everything \<open>NewSQLite\<close> and \<open>NewPostgres\<close> do after \<open>sql.Open\<close> concerns the last handle.\<close>

definition tops :: "sql_handle list \<Rightarrow> sql_handle \<Rightarrow> sql_system \<Rightarrow> bool" where
  "tops hs h s \<longleftrightarrow> sy_handles s = hs @ [h]"

lemma tops_on_handle [simp]: "tops hs h s \<Longrightarrow> tops hs h' (on_handle f (length hs) s) \<longleftrightarrow> h' = f h"
  by (auto simp: tops_def on_handle_def)

lemma tops_last [simp]: "tops hs h s \<Longrightarrow> sy_handles s ! length hs = h"
  by (simp add: tops_def)

lemma tops_frame [simp]:
  "tops hs h (s\<lparr>sy_baseFS := x\<rparr>) = tops hs h s" "tops hs h (s\<lparr>sy_dialect := x\<rparr>) = tops hs h s"
  by (simp_all add: tops_def)

lemma tops_Close: "tops hs h s \<Longrightarrow> open_handles (sql_Close (length hs) s) = filter h_open hs"
  by (simp add: tops_def open_handles_def sql_Close_def on_handle_def)

lemma goose_Up_tops:
  assumes "goose_Up env (length hs) dir s = (r, s')" and "tops hs h s"
  shows "r = None \<Longrightarrow> tops hs (h\<lparr>h_migrated := h_migrated h @ [(sy_dialect s, sy_baseFS s @ '':'' @ dir)]\<rparr>) s'"
    and "r \<noteq> None \<Longrightarrow> tops hs h s'"
  using assms by (auto simp: goose_Up_def split: option.splits)

lemma migrations_tops:
  assumes "tops hs h s"
  shows "runSQLiteMigrations env (length hs) s = (None, s') \<Longrightarrow>
      tops hs (h\<lparr>h_migrated := h_migrated h @ [(''sqlite3'', ''embedSQLiteMigrations:migrations/sqlite'')]\<rparr>) s'"
    and "runSQLiteMigrations env (length hs) s = (Some err, s') \<Longrightarrow> tops hs h s'"
    and "runPostgresMigrations env (length hs) s = (None, s') \<Longrightarrow>
      tops hs (h\<lparr>h_migrated := h_migrated h @ [(''postgres'', ''embedPostgresMigrations:migrations/postgres'')]\<rparr>) s'"
    and "runPostgresMigrations env (length hs) s = (Some err, s') \<Longrightarrow> tops hs h s'"
  using assms
  by (auto simp: runSQLiteMigrations_def runPostgresMigrations_def goose_SetDialect_def
      dest: goose_Up_tops split: prod.splits option.splits)

text \<open>The limits of the pool, set on a new handle.\<close>

lemma SetMax_frame [simp]:
  "h_driver (SetMaxOpenConns n h) = h_driver h" "h_driver (SetMaxIdleConns n h) = h_driver h"
  "h_dsn (SetMaxOpenConns n h) = h_dsn h" "h_dsn (SetMaxIdleConns n h) = h_dsn h"
  "h_open (SetMaxOpenConns n h) = h_open h" "h_open (SetMaxIdleConns n h) = h_open h"
  "h_migrated (SetMaxOpenConns n h) = h_migrated h" "h_migrated (SetMaxIdleConns n h) = h_migrated h"
  "h_maxOpen (SetMaxIdleConns n h) = h_maxOpen h" "h_maxOpen (SetMaxOpenConns n h) = max 0 n"
  by (simp_all add: SetMaxOpenConns_def SetMaxIdleConns_def Let_def)

definition pool_ok :: "sql_handle \<Rightarrow> bool" where
  "pool_ok h \<longleftrightarrow> h_maxOpen h > 0 \<longrightarrow> maxIdleConns h \<le> h_maxOpen h"

lemma pool_ok_set [simp]: "pool_ok (SetMaxIdleConns n h)" "pool_ok (SetMaxOpenConns n h)"
  by (auto simp: pool_ok_def SetMaxOpenConns_def SetMaxIdleConns_def maxIdleConns_def Let_def)

lemma pool_ok_New: "h_maxOpen h = 0 \<Longrightarrow> pool_ok h"
  by (simp add: pool_ok_def)

lemma pool_ok_frame [simp]: "pool_ok (h\<lparr>h_migrated := m\<rparr>) = pool_ok h"
  by (simp add: pool_ok_def maxIdleConns_def)

definition fresh :: "string \<Rightarrow> string \<Rightarrow> sql_handle" where
  "fresh driver dsn = \<lparr>h_driver = driver, h_dsn = dsn, h_maxOpen = 0, h_maxIdleCount = 0, h_open = True, h_migrated = []\<rparr>"

lemma sql_Open_cases:
  assumes "sql_Open env driver dsn s = (r, s')"
  obtains err where "r = Inl err" "s' = s"
    | "r = Inr (length (sy_handles s))" "tops (sy_handles s) (fresh driver dsn) s'"
proof (cases "en_open env driver dsn")
  case (Some err)
  then show ?thesis using assms that(1)[of err] by (auto simp: sql_Open_def)
next
  case None
  then show ?thesis using assms that(2) by (auto simp: sql_Open_def tops_def fresh_def)
qed

lemma NewSQLite_result:
  assumes "NewSQLite env dsn s = (r, s')"
  shows "case r of Inl err \<Rightarrow> open_handles s' = open_handles s
    | Inr db \<Rightarrow> db = length (sy_handles s) \<and> tops (sy_handles s)
        ((SetMaxOpenConns 1 (fresh ''sqlite'' (dsn @ sqlite_options)))\<lparr>h_migrated := [(''sqlite3'', ''embedSQLiteMigrations:migrations/sqlite'')]\<rparr>) s'"
proof -
  let ?dir = "filepath_Dir dsn"
  obtain e s1 where mk: "(if ?dir \<noteq> '''' \<and> ?dir \<noteq> ''.'' then MkdirAll env ?dir s else (None, s)) = (e, s1)" by fastforce
  then have hs: "sy_handles s1 = sy_handles s" by (auto simp: MkdirAll_def split: if_splits option.splits)
  show ?thesis
  proof (cases e)
    case (Some err)
    then show ?thesis using assms mk hs by (auto simp: NewSQLite_def Let_def open_handles_def)
  next
    case None
    obtain r2 s2 where op: "sql_Open env ''sqlite'' (dsn @ sqlite_options) s1 = (r2, s2)" by fastforce
    from op show ?thesis
    proof (cases rule: sql_Open_cases)
      case (1 err)
      then show ?thesis using assms mk None op hs by (auto simp: NewSQLite_def Let_def open_handles_def)
    next
      case 2
      let ?h = "SetMaxOpenConns 1 (fresh ''sqlite'' (dsn @ sqlite_options))"
      let ?s2 = "on_handle (SetMaxOpenConns 1) (length (sy_handles s)) s2"
      have top: "tops (sy_handles s) ?h ?s2" using 2(2) by (simp add: hs)
      obtain e3 s3 where mi: "runSQLiteMigrations env (length (sy_handles s)) ?s2 = (e3, s3)" by fastforce
      have "(r, s') = (case e3 of Some err \<Rightarrow> (Inl err, sql_Close (length (sy_handles s)) s3) | None \<Rightarrow> (Inr (length (sy_handles s)), s3))"
        using assms mk None op 2(1) mi by (auto simp: NewSQLite_def Let_def hs split: option.split)
      then show ?thesis
        using migrations_tops(1,2)[OF top, where env = env and s' = s3] mi
        by (cases e3) (auto simp: tops_Close open_handles_def[of s] fresh_def)
    qed
  qed
qed

lemma NewPostgres_result:
  assumes "NewPostgres env dsn maxOpen maxIdle s = (r, s')"
  shows "case r of Inl err \<Rightarrow> open_handles s' = open_handles s
    | Inr db \<Rightarrow> db = length (sy_handles s) \<and> (\<exists>h. tops (sy_handles s) h s' \<and> h_driver h = ''postgres'' \<and> h_dsn h = dsn \<and>
        h_open h \<and> pool_ok h \<and> h_maxOpen h = max 0 maxOpen \<and>
        h_migrated h = [(''postgres'', ''embedPostgresMigrations:migrations/postgres'')])"
proof -
  obtain r1 s1 where op: "sql_Open env ''postgres'' dsn s = (r1, s1)" by fastforce
  from op show ?thesis
  proof (cases rule: sql_Open_cases)
    case (1 err)
    then show ?thesis using assms op by (auto simp: NewPostgres_def)
  next
    case 2
    let ?hs = "sy_handles s" and ?db = "length (sy_handles s)"
    define h where "h = (let h2 = (if maxOpen > 0 then SetMaxOpenConns maxOpen (fresh ''postgres'' dsn) else fresh ''postgres'' dsn)
      in if maxIdle > 0 then SetMaxIdleConns maxIdle h2 else h2)"
    define s3 where "s3 = (let s2 = (if maxOpen > 0 then on_handle (SetMaxOpenConns maxOpen) ?db s1 else s1)
      in if maxIdle > 0 then on_handle (SetMaxIdleConns maxIdle) ?db s2 else s2)"
    have top: "tops ?hs h s3" using 2(2) by (simp add: h_def s3_def Let_def)
    have h: "h_driver h = ''postgres''" "h_dsn h = dsn" "h_open h" "pool_ok h" "h_maxOpen h = max 0 maxOpen" "h_migrated h = []"
      by (simp_all add: h_def fresh_def Let_def pool_ok_New)
    obtain e4 s4 where mi: "runPostgresMigrations env ?db s3 = (e4, s4)" by fastforce
    have "NewPostgres env dsn maxOpen maxIdle s = (case en_ping env (sy_handles s3 ! ?db) of
        Some err \<Rightarrow> (Inl (wrap ''pinging postgres'' err), sql_Close ?db s3)
      | None \<Rightarrow> (case runPostgresMigrations env ?db s3 of (Some err, s4) \<Rightarrow> (Inl err, sql_Close ?db s4) | (None, s4) \<Rightarrow> (Inr ?db, s4)))"
      by (simp only: NewPostgres_def op 2(1) s3_def Let_def prod.case sum.case)
    then have "(r, s') = (case en_ping env (sy_handles s3 ! ?db) of
        Some err \<Rightarrow> (Inl (wrap ''pinging postgres'' err), sql_Close ?db s3)
      | None \<Rightarrow> (case e4 of Some err \<Rightarrow> (Inl err, sql_Close ?db s4) | None \<Rightarrow> (Inr ?db, s4)))"
      using assms mi by (simp split: option.split)
    then show ?thesis
      using migrations_tops(3,4)[OF top, where env = env and s' = s4] mi h top
      by (cases "en_ping env (sy_handles s3 ! ?db)"; cases e4) (auto simp: tops_Close open_handles_def[of s])
  qed
qed

section \<open>Properties\<close>

text \<open>
  C21. Opening a store leaks nothing and opens the right one. When opening fails, at whatever call of
  the file system, the driver or the migrations, the connection pools that are open are those that
  were open before. When it succeeds there is one more, of the configured driver, on which the
  migrations of that driver were run once in its own dialect, and whose limits are those asked for:
  one connection for SQLite, and never more idle connections than open ones.
\<close>

theorem open_store_safe:
  assumes "open_store env driver dsn maxOpen maxIdle s = (r, s')"
  shows "case r of
      Inl err \<Rightarrow> open_handles s' = open_handles s
    | Inr st \<Rightarrow> \<exists>h. sy_handles s' = sy_handles s @ [h] \<and> store_DB st = length (sy_handles s) \<and> h_open h \<and> pool_ok h \<and>
        (if driver = ''postgres''
         then st = Postgres (store_DB st) \<and> h_driver h = ''postgres'' \<and> h_dsn h = dsn \<and> h_maxOpen h = max 0 maxOpen \<and>
           h_migrated h = [(''postgres'', ''embedPostgresMigrations:migrations/postgres'')]
         else st = SQLite (store_DB st) \<and> h_driver h = ''sqlite'' \<and> h_dsn h = dsn @ sqlite_options \<and> h_maxOpen h = 1 \<and>
           h_migrated h = [(''sqlite3'', ''embedSQLiteMigrations:migrations/sqlite'')])"
proof (cases "driver = ''postgres''")
  case True
  obtain r1 s1 where n: "NewPostgres env dsn maxOpen maxIdle s = (r1, s1)" by fastforce
  from NewPostgres_result[OF n] show ?thesis using assms n True
    by (cases r1) (auto simp: open_store_def tops_def)
next
  case False
  obtain r1 s1 where n: "NewSQLite env dsn s = (r1, s1)" by fastforce
  from NewSQLite_result[OF n] show ?thesis using assms n False
    by (cases r1) (auto simp: open_store_def tops_def fresh_def)
qed

definition quiet_sql :: sql_env where
  "quiet_sql = \<lparr>en_mkdir = \<lambda>_. None, en_open = \<lambda>_ _. None, en_ping = \<lambda>_. None, en_dialect = \<lambda>_. None, en_up = \<lambda>_ _ _ _. None\<rparr>"

definition no_system :: sql_system where
  "no_system = \<lparr>sy_dirs = [], sy_handles = [], sy_baseFS = [], sy_dialect = []\<rparr>"

theorem open_store_safe_witness:
  "let broken = open_store (quiet_sql\<lparr>en_up := \<lambda>_ _ _ _. Some ''locked''\<rparr>) ''sqlite'' ''data/agentledger.db'' 0 0 no_system;
       good = open_store quiet_sql ''postgres'' ''postgres://'' 10 20 no_system
   in isl (fst broken) \<and> open_handles (snd broken) = [] \<and> map h_driver (sy_handles (snd good)) = [''postgres'']"
proof -
  let ?broken = "open_store (quiet_sql\<lparr>en_up := \<lambda>_ _ _ _. Some ''locked''\<rparr>) ''sqlite'' ''data/agentledger.db'' 0 0 no_system"
  let ?good = "open_store quiet_sql ''postgres'' ''postgres://'' 10 20 no_system"
  have b: "isl (fst ?broken)" and g: "\<not> isl (fst ?good)" and n: "sy_handles no_system = []" by code_simp+
  have "open_handles (snd ?broken) = open_handles no_system"
    using open_store_safe[of _ _ _ _ _ _ "fst ?broken" "snd ?broken", OF prod.collapse[symmetric]] b by (cases "fst ?broken") simp_all
  moreover have "map h_driver (sy_handles (snd ?good)) = [''postgres'']"
    using open_store_safe[of _ _ _ _ _ _ "fst ?good" "snd ?good", OF prod.collapse[symmetric]] g n by (cases "fst ?good") auto
  ultimately show ?thesis using b n by (simp add: Let_def open_handles_def[of no_system])
qed

end
