(* ===== verification/Commands.thy ===== *)
theory Commands
  imports Serve Storage
begin

text \<open>
  The commands (\<open>cmd/agentledger/main.go\<close>, \<open>mcpwrap.go\<close>) and the run of the stdio wrapper
  (\<open>internal/mcp/stdio.go\<close>). The child process is an argument: the errors of its start and of waiting
  for it, the bytes that were piped in each direction, and the order in which the two goroutines
  called the interceptor. Cobra, log lines and the forwarding of signals are not modelled.
\<close>

section \<open>The stdio wrapper\<close>

datatype wait_result = Exited | ExitError int | WaitError string

record child =
  cd_stdin_err :: "string option"
  cd_stdout_err :: "string option"
  cd_start_err :: "string option"
  cd_messages :: "mcp_message list"
  cd_wait :: wait_result

text \<open>
  The messages are an interleaving of the lines of the client, as many as were read before the run
  ended, with all lines of the server.
\<close>

definition piped :: "string \<Rightarrow> (time \<times> time \<times> string) list \<Rightarrow> nat \<Rightarrow> string \<Rightarrow> (time \<times> time \<times> string) list \<Rightarrow> child \<Rightarrow> bool" where
  "piped stdin inClocks n stdout outClocks c \<longleftrightarrow>
    cd_messages c \<in> shuffles (take n (pipe_messages True stdin inClocks)) (pipe_messages False stdout outClocks)"

text \<open>\<open>StdioWrapper.Run\<close>: the exit code with an error or none, and the records made.\<close>

definition wrapper_Run :: "child \<Rightarrow> Interceptor \<Rightarrow> (int \<times> string option) \<times> UsageRecord list" where
  "wrapper_Run c i =
    (case cd_stdin_err c of
       Some err \<Rightarrow> ((1, Some (wrap ''stdin pipe'' err)), [])
     | None \<Rightarrow>
         (case cd_stdout_err c of
            Some err \<Rightarrow> ((1, Some (wrap ''stdout pipe'' err)), [])
          | None \<Rightarrow>
              (case cd_start_err c of
                 Some err \<Rightarrow> ((1, Some (wrap ''starting command'' err)), [])
               | None \<Rightarrow>
                   ((case cd_wait c of Exited \<Rightarrow> (0, None) | ExitError code \<Rightarrow> (code, None) | WaitError err \<Rightarrow> (1, Some err)),
                    fst (mcp_run i (cd_messages c))))))"

section \<open>The command mcp-wrap\<close>

definition wrap_interceptor :: "server_config \<Rightarrow> (string \<Rightarrow> string) \<Rightarrow> Interceptor" where
  "wrap_interceptor cfg getenv =
    NewInterceptor ''unknown'' (mcp_rules (cfg_MCP cfg)) (getenv ''AGENTLEDGER_AGENT_ID'')
      (getenv ''AGENTLEDGER_SESSION_ID'') (getenv ''AGENTLEDGER_USER_ID'')"

definition wrap_recorder :: "'db \<Rightarrow> 'db recorder" where
  "wrap_recorder store = NewRecorder store 100 1"

text \<open>
  \<open>runMCPWrap\<close>: the exit code with an error or none, the records made, and the connection pools. The
  configured DSN is opened as SQLite; the deferred calls close the recorder and then the store.
\<close>

definition runMCPWrap ::
  "string + server_config \<Rightarrow> sql_env \<Rightarrow> (string \<Rightarrow> string) \<Rightarrow> child \<Rightarrow> sql_system \<Rightarrow>
   ((int \<times> string option) \<times> UsageRecord list) \<times> sql_system" where
  "runMCPWrap loaded env getenv c s =
    (case loaded of
       Inl err \<Rightarrow> (((1, Some (wrap ''loading config'' err)), []), s)
     | Inr cfg \<Rightarrow>
         (case NewSQLite env (st_DSN (cfg_Storage cfg)) s of
            (Inl err, s1) \<Rightarrow> (((1, Some (wrap ''opening storage'' err)), []), s1)
          | (Inr db, s1) \<Rightarrow>
              (case wrapper_Run c (wrap_interceptor cfg getenv) of ((code, err), rs) \<Rightarrow>
                 ((case err of Some e \<Rightarrow> (1, Some e) | None \<Rightarrow> (code, None), rs), sql_Close db s1))))"

text \<open>The exit status of the process: an error is printed by \<open>main\<close>, which exits with 1.\<close>

definition exit_status :: "int \<times> string option \<Rightarrow> int" where
  "exit_status res = (case res of (code, err) \<Rightarrow> if err \<noteq> None then 1 else if code \<noteq> 0 then code else 0)"

section \<open>The commands version and healthcheck\<close>

definition version_output :: "string \<Rightarrow> string" where
  "version_output version = ''agentledger '' @ version @ [LF]"

definition healthcheck :: "(string \<Rightarrow> string + response) \<Rightarrow> string \<Rightarrow> string + string" where
  "healthcheck get addr =
    (case get (''http://'' @ addr @ ''/health'') of
       Inl err \<Rightarrow> Inl (wrap ''health check failed'' err)
     | Inr resp \<Rightarrow> if StatusCode resp \<noteq> 200 then Inl (''unhealthy: status '' @ show_int (StatusCode resp)) else Inr ''ok'')"

section \<open>Properties\<close>

fun failed_of :: "rlabel \<Rightarrow> UsageRecord list" where
  "failed_of (Written x (Some err)) = [x]"
| "failed_of _ = []"

definition offered_of :: "rlabel \<Rightarrow> UsageRecord list" where
  "offered_of l = accepted_of l @ dropped_of l"

lemma hist_offered: "length (hist offered_of ls) = length (hist accepted_of ls) + length (hist dropped_of ls)"
  by (induction ls rule: rev_induct) (auto simp: offered_of_def)

lemma hist_written: "length (hist written_of ls) = length (hist saved_of ls) + length (hist failed_of ls)"
proof (induction ls rule: rev_induct)
  case (snoc l ls)
  have "length (written_of l) = length (saved_of l) + length (failed_of l)"
    by (cases l rule: failed_of.cases) auto
  then show ?case using snoc by simp
qed simp

lemma mcp_run_agent:
  assumes "it_agentID i = a" "it_sessionID i = s" "it_userID i = u" "\<forall>m \<in> set ms. mm_ctx m = None"
  shows "\<forall>x \<in> set (fst (mcp_run i ms)). u_AgentID x = a \<and> u_SessionID x = s \<and> u_UserID x = u"
  using assms
proof (induction ms arbitrary: i)
  case (Cons m ms)
  have frame: "it_agentID (snd (HandleMessage i m)) = a" "it_sessionID (snd (HandleMessage i m)) = s"
    "it_userID (snd (HandleMessage i m)) = u"
    using Cons.prems by (auto simp: HandleMessage_def handleServerResponse_def handleClientRequest_def tryExtractServerName_def
        split: sum.splits rpc_message.splits option.splits)
  have "u_AgentID x = a \<and> u_SessionID x = s \<and> u_UserID x = u" if "fst (HandleMessage i m) = Some x" for x
    using that Cons.prems by (auto simp: HandleMessage_record tool_record_def Let_def split: option.splits)
  then show ?case using Cons.IH[OF frame] Cons.prems(4) by (auto split: prod.splits option.splits)
qed simp

lemma pipe_messages_ctx: "m \<in> set (pipe_messages dir input clocks) \<Longrightarrow> mm_ctx m = None"
  by (auto simp: pipe_messages_def)

lemma piped_ctx:
  assumes "piped stdin ic n stdout oc c" and "m \<in> set (cd_messages c)"
  shows "mm_ctx m = None"
  using assms set_shuffles[OF assms(1)[unfolded piped_def]] pipe_messages_ctx
  by (auto dest!: in_set_takeD)

lemma saved_written: "set (saved_of l) \<subseteq> set (written_of l)"
  by (cases l rule: saved_of.cases) auto


text \<open>One call and its answer, as lines of the two pipes.\<close>

definition wrap_child :: child where
  "wrap_child = \<lparr>cd_stdin_err = None, cd_stdout_err = None, cd_start_err = None,
     cd_messages = pipe_messages True (call_text ''1'' ''ls'' @ [LF]) [(5, 5, ''x'')] @
       pipe_messages False (answer_text ''1'' @ [LF]) [(7, 7, ''y'')],
     cd_wait = ExitError 3\<rparr>"

lemma append_in_shuffles: "xs @ ys \<in> shuffles xs ys"
proof (induction xs)
  case (Cons x xs)
  then show ?case by (cases ys) (auto simp: Cons_in_shuffles_leftI)
qed simp

lemma wrap_child_ids: "List.map_filter call_id (cd_messages wrap_child) = [''1'']"
  by code_simp

lemma wrap_child_records: "length (snd (fst (runMCPWrap (Inr bare_config) quiet_sql (\<lambda>_. ''a'') wrap_child no_system))) = 1"
  by code_simp

lemma wrap_child_code: "fst (fst (runMCPWrap (Inr bare_config) quiet_sql (\<lambda>_. ''a'') wrap_child no_system)) = (3, None)"
  by code_simp


end
