(* ===== verification/Metrics.thy ===== *)
theory Metrics
  imports Proxy
begin

text \<open>
  Metrics (\<open>internal/otel/metrics.go\<close>): the instruments, and which updates of them each method makes.
  The OpenTelemetry library is not part of the sources: registering an instrument and making the
  exporter are arguments, and an update is a value. \<open>counter\<close> is the documented meaning of updates of
  an integer counter: the sum of what was added under a set of attributes.
\<close>

section \<open>Instruments\<close>

datatype instrument =
    requestTotal
  | tokensTotal
  | costUSDTotal
  | requestDurationMS
  | activeSessions
  | alertsTotal
  | rateLimitedTotal

datatype instrument_kind = Int64Counter | Float64Counter | Float64Histogram "int list" | Int64UpDownCounter

text \<open>The instruments in the order in which \<open>NewMetrics\<close> registers them.\<close>

definition registrations :: "(instrument \<times> instrument_kind \<times> string) list" where
  "registrations = [
    (requestTotal, Int64Counter, ''agentledger_request_total''),
    (tokensTotal, Int64Counter, ''agentledger_tokens_total''),
    (costUSDTotal, Float64Counter, ''agentledger_cost_usd_total''),
    (requestDurationMS, Float64Histogram [10, 50, 100, 250, 500, 1000, 2500, 5000, 10000, 30000], ''agentledger_request_duration_ms''),
    (activeSessions, Int64UpDownCounter, ''agentledger_active_sessions''),
    (alertsTotal, Int64Counter, ''agentledger_alerts_total''),
    (rateLimitedTotal, Int64Counter, ''agentledger_rate_limited_total'')]"

fun register_loop :: "(instrument_kind \<Rightarrow> string \<Rightarrow> string option) \<Rightarrow> (instrument \<times> instrument_kind \<times> string) list \<Rightarrow> string + instrument list" where
  "register_loop register [] = Inr []"
| "register_loop register ((i, k, name) # rest) =
    (case register k name of
       Some err \<Rightarrow> Inl err
     | None \<Rightarrow> (case register_loop register rest of Inl err \<Rightarrow> Inl err | Inr is \<Rightarrow> Inr (i # is)))"

definition NewMetrics :: "(instrument_kind \<Rightarrow> string \<Rightarrow> string option) \<Rightarrow> string + instrument list" where
  "NewMetrics register = register_loop register registrations"

definition SetupPrometheus :: "string option \<Rightarrow> (instrument_kind \<Rightarrow> string \<Rightarrow> string option) \<Rightarrow> string + instrument list" where
  "SetupPrometheus exporter_err register = (case exporter_err of Some err \<Rightarrow> Inl err | None \<Rightarrow> NewMetrics register)"

section \<open>Updates\<close>

datatype attr_value = AString string | AInt int | ABool bool

type_synonym attributes = "(string \<times> attr_value) list"

datatype update =
    AddInt instrument int attributes
  | AddFloat instrument float64 attributes
  | RecordFloat instrument float64 attributes

definition RecordRequest :: "request_metrics \<Rightarrow> update list" where
  "RecordRequest x =
    (let attrs = [(''provider'', AString (rm_provider x)), (''model'', AString (rm_model x)),
                  (''status_code'', AInt (rm_statusCode x)), (''streaming'', ABool (rm_streaming x))];
         tokenAttrs = [(''provider'', AString (rm_provider x)), (''model'', AString (rm_model x))]
     in [AddInt requestTotal 1 attrs,
         RecordFloat requestDurationMS (float_of_int (rm_durationMS x)) attrs,
         AddInt tokensTotal (rm_inputTokens x) (tokenAttrs @ [(''type'', AString ''prompt'')]),
         AddInt tokensTotal (rm_outputTokens x) (tokenAttrs @ [(''type'', AString ''completion'')]),
         AddFloat costUSDTotal (rm_costUSD x)
           [(''provider'', AString (rm_provider x)), (''model'', AString (rm_model x)), (''api_key_hash'', AString (rm_apiKeyHash x))]])"

definition RecordRateLimited :: "string \<Rightarrow> update list" where
  "RecordRateLimited apiKeyHash = [AddInt rateLimitedTotal 1 [(''api_key_hash'', AString apiKeyHash)]]"

text \<open>\<open>SessionStarted\<close>, \<open>SessionEnded\<close> and \<open>RecordAlert\<close>, as the tracker calls them.\<close>

fun tracker_updates :: "tracker_event \<Rightarrow> update list" where
  "tracker_updates SessionStarted = [AddInt activeSessions 1 []]"
| "tracker_updates SessionEnded = [AddInt activeSessions (-1) []]"
| "tracker_updates (RecordAlert alertType) = [AddInt alertsTotal 1 [(''type'', AString alertType)]]"
| "tracker_updates (Notified a) = []"

fun effect_updates :: "usage_effect \<Rightarrow> update list" where
  "effect_updates (EffMetrics x) = RecordRequest x"
| "effect_updates (EffRecord r) = []"
| "effect_updates (EffCost sid c n) = []"

fun serve_updates :: "serve_event \<Rightarrow> update list" where
  "serve_updates (SvTracker e) = tracker_updates e"
| "serve_updates (SvBudget e) = []"
| "serve_updates (SvRateLimited apiKeyHash) = RecordRateLimited apiKeyHash"

fun amount :: "instrument \<Rightarrow> attributes \<Rightarrow> update \<Rightarrow> int" where
  "amount i attrs (AddInt j n as) = (if i = j \<and> attrs = as then n else 0)"
| "amount i attrs (AddFloat j x as) = 0"
| "amount i attrs (RecordFloat j x as) = 0"

definition counter :: "instrument \<Rightarrow> attributes \<Rightarrow> update list \<Rightarrow> int" where
  "counter i attrs us = sum_list (map (amount i attrs) us)"

lemma counter_simps [simp]:
  "counter i attrs [] = 0" "counter i attrs (u # us) = amount i attrs u + counter i attrs us"
  "counter i attrs (us @ vs) = counter i attrs us + counter i attrs vs"
  by (simp_all add: counter_def)

section \<open>The gauge of active sessions\<close>

text \<open>What the operations of the tracker report, and the reports of a run.\<close>

fun tk_reports :: "Tracker \<Rightarrow> tk_event \<Rightarrow> tracker_event list" where
  "tk_reports t (Track ord sid agentID userID task model path clk) =
    fst (snd (TrackCall ord t sid agentID userID task model path clk))"
| "tk_reports t (End sid now) = fst (EndSession t sid now)"
| "tk_reports t (Expire now) = fst (expireIdleSessions t now)"
| "tk_reports t (Ghosts ord now) = fst (detectGhosts ord t now)"
| "tk_reports t (Cost sid c n) = []"
| "tk_reports t (Flush ord) = []"

fun run_reports :: "Tracker \<Rightarrow> tk_event list \<Rightarrow> tracker_event list" where
  "run_reports t [] = []"
| "run_reports t (e # es) = tk_reports t e @ run_reports (tk_step t e) es"

definition gauge :: "tracker_event list \<Rightarrow> int" where
  "gauge evs = counter activeSessions [] (concat (map tracker_updates evs))"

text \<open>
  Where the gauge and the memory part: active sessions that a call evicts, and ends of sessions
  that are not active any more.
\<close>

fun evicted_active :: "Tracker \<Rightarrow> tk_event \<Rightarrow> int" where
  "evicted_active t (Track ord sid agentID userID task model path clk) =
    (if map_of (t_sessions t) sid = None \<and> length (t_sessions t) \<ge> maxActiveSessions
     then int (ActiveSessionCount t) - int (ActiveSessionCount (evictOldest ord t)) else 0)"
| "evicted_active t e = 0"

fun ended_again :: "Tracker \<Rightarrow> tk_event \<Rightarrow> int" where
  "ended_again t (End sid now) =
    (case map_of (t_sessions t) sid of
       Some ts \<Rightarrow> if s_Status (ts_session ts) = StatusActive then 0 else 1
     | None \<Rightarrow> 0)"
| "ended_again t e = 0"

fun run_sum :: "(Tracker \<Rightarrow> tk_event \<Rightarrow> int) \<Rightarrow> Tracker \<Rightarrow> tk_event list \<Rightarrow> int" where
  "run_sum f t [] = 0"
| "run_sum f t (e # es) = f t e + run_sum f (tk_step t e) es"

lemma gauge_simps [simp]:
  "gauge [] = 0" "gauge (evs @ evs') = gauge evs + gauge evs'"
  "gauge (SessionStarted # evs) = 1 + gauge evs" "gauge (SessionEnded # evs) = gauge evs - 1"
  "gauge (RecordAlert a # evs) = gauge evs" "gauge (Notified n # evs) = gauge evs"
  by (simp_all add: gauge_def)

lemma gauge_concat: "gauge (concat xss) = sum_list (map gauge xss)"
  by (induction xss) simp_all

lemma gauge_ended: "gauge (map (\<lambda>_. SessionEnded) xs) = - int (length xs)"
  by (induction xs) simp_all

definition act :: "trackedSession \<Rightarrow> int" where
  "act ts = (if s_Status (ts_session ts) = StatusActive then 1 else 0)"

lemma count_sum: "int (ActiveSessionCount t) = sum_list (map (act \<circ> snd) (t_sessions t))"
proof -
  have "int (length (filter (\<lambda>(_, ts). s_Status (ts_session ts) = StatusActive) xs)) = sum_list (map (act \<circ> snd) xs)" for xs :: sessions
    by (induction xs) (auto simp: act_def)
  then show ?thesis by (simp add: ActiveSessionCount_def)
qed

lemma sum_update:
  "sum_list (map (act \<circ> snd) (AList.update k ts xs)) =
    sum_list (map (act \<circ> snd) xs) + act ts - (case map_of xs k of None \<Rightarrow> 0 | Some ts' \<Rightarrow> act ts')"
  by (induction xs) auto

lemma count_put:
  "int (ActiveSessionCount (t\<lparr>t_sessions := AList.update k ts (t_sessions t)\<rparr>)) =
    int (ActiveSessionCount t) + act ts - (case map_of (t_sessions t) k of None \<Rightarrow> 0 | Some ts' \<Rightarrow> act ts')"
  by (simp add: count_sum sum_update)

lemma count_keep:
  assumes "map_of (t_sessions t) k = Some ts'" "act ts = act ts'"
  shows "ActiveSessionCount (t\<lparr>t_sessions := AList.update k ts (t_sessions t)\<rparr>) = ActiveSessionCount t"
  using count_put[where t = t and k = k and ts = ts] assms by simp

lemma evict_keeps_absent: "map_of (t_sessions t) k = None \<Longrightarrow> map_of (t_sessions (evictOldest ord t)) k = None"
  by (auto simp: evictOldest_def delete_conv' split: option.split)

lemma has_metrics_evict [simp]: "has_metrics (evictOldest ord t) = has_metrics t"
  by (simp add: evictOldest_def split: option.split)

lemma get_or_start_gauge:
  assumes "get_or_start ord t sid agentID userID task now = (ts, evs, t1)" and "has_metrics t"
    and "e = Track ord sid agentID userID task model path clk"
  shows "gauge evs = int (ActiveSessionCount t1) - int (ActiveSessionCount t) + evicted_active t e"
    and "map_of (t_sessions t1) sid = Some ts"
proof -
  let ?t0 = "if length (t_sessions t) \<ge> maxActiveSessions then evictOldest ord t else t"
  have "map_of (t_sessions ?t0) sid = None" if "map_of (t_sessions t) sid = None"
    using that evict_keeps_absent by simp
  moreover have "act (new_session sid agentID userID task now) = 1" by (simp add: act_def new_session_def)
  ultimately show "gauge evs = int (ActiveSessionCount t1) - int (ActiveSessionCount t) + evicted_active t e"
    using assms by (auto simp: get_or_start_def Let_def count_put split: option.splits)
  show "map_of (t_sessions t1) sid = Some ts"
    using assms(1) by (auto simp: get_or_start_def Let_def update_conv' split: option.splits)
qed

lemma track_gauge:
  assumes "has_metrics t" and "e = Track ord sid agentID userID task model path clk"
  shows "gauge (tk_reports t e) = int (ActiveSessionCount (tk_step t e)) - int (ActiveSessionCount t) + evicted_active t e"
proof -
  obtain tstart tcall ttrim tcheck where clk: "clk = (tstart, tcall, ttrim, tcheck)" by (cases clk)
  obtain ts evs t1 where g: "get_or_start ord t sid agentID userID task tstart = (ts, evs, t1)" by (metis prod_cases3)
  note start = get_or_start_gauge[OF g assms(1,2)]
  define ts' where "ts' = ts\<lparr>ts_calls := trim_calls t ttrim (ts_calls ts @ [\<lparr>cr_Timestamp = tcall, cr_Model = model, cr_Path = path\<rparr>]),
    dirty := True, ts_session := (ts_session ts)\<lparr>s_CallCount := i64 (s_CallCount (ts_session ts) + 1)\<rparr>\<rparr>"
  have "act ts' = act ts" by (simp add: ts'_def act_def)
  then have "ActiveSessionCount (t1\<lparr>t_sessions := AList.update sid ts' (t_sessions t1)\<rparr>) = ActiveSessionCount t1"
    by (rule count_keep[OF start(2)])
  moreover have "tk_step t e = t1\<lparr>t_sessions := AList.update sid ts' (t_sessions t1)\<rparr>" and "gauge (tk_reports t e) = gauge evs"
    using assms(2) by (auto simp: clk TrackCall_def g Let_def ts'_def split: option.split)
  ultimately show ?thesis using start(1) by simp
qed

lemma expire_gauge:
  assumes "has_metrics t"
  shows "gauge (tk_reports t (Expire now)) = int (ActiveSessionCount (tk_step t (Expire now))) - int (ActiveSessionCount t)"
proof -
  have "sum_list (map (act \<circ> snd) (map (\<lambda>(i, ts). (i, if expire tmo now ts
        then ts\<lparr>ts_session := (ts_session ts)\<lparr>s_EndedAt := Some now, s_Status := StatusCompleted\<rparr>, dirty := True\<rparr> else ts)) xs)) =
      sum_list (map (act \<circ> snd) xs) - int (length (filter (\<lambda>(_, ts). expire tmo now ts) xs))" for tmo xs
    by (induction xs) (auto simp: act_def expire_def status_defs)
  from this[of "i64 (SessionTimeoutMins (t_cfg t) * Minute)" "t_sessions t"] show ?thesis
    using assms by (simp add: expireIdleSessions_def Let_def gauge_ended count_sum)
qed

lemma step_gauge:
  assumes "has_metrics t"
  shows "gauge (tk_reports t e) =
    int (ActiveSessionCount (tk_step t e)) - int (ActiveSessionCount t) + evicted_active t e - ended_again t e"
proof (cases e)
  case Track
  then show ?thesis using track_gauge[OF assms Track] by simp
next
  case (Cost sid c n)
  then show ?thesis by (auto simp: RecordCost_def Let_def act_def intro!: count_keep split: option.split)
next
  case (End sid now)
  then show ?thesis using assms
    by (auto simp: EndSession_def Let_def count_put act_def status_defs split: option.split)
next
  case (Flush ord)
  have "sum_list (map (act \<circ> snd) (filter (\<lambda>(_, ts). \<not> (s_Status (ts_session ts) \<noteq> StatusActive \<and> \<not> dirty ts))
      (map (\<lambda>(i, ts). (i, ts\<lparr>dirty := False\<rparr>)) xs))) = sum_list (map (act \<circ> snd) xs)" for xs
    by (induction xs) (auto simp: act_def)
  then show ?thesis using Flush by (simp add: collect_dirty_def count_sum)
next
  case (Expire now)
  then show ?thesis using expire_gauge[OF assms, of now] by simp
next
  case (Ghosts ord now)
  have "gauge (concat (map (\<lambda>p. case ghost_alert t now p of None \<Rightarrow> []
      | Some alert \<Rightarrow> (if has_metrics t then [RecordAlert ''ghost_detected''] else []) @ (if has_notifier t then [Notified alert] else [])) xs)) = 0" for xs
    by (induction xs) (auto split: option.split)
  moreover have "sum_list (map (act \<circ> snd) (map (\<lambda>(i, ts). (i, if ghost_alert t now (i, ts) \<noteq> None then ts\<lparr>ghostAlerted := True\<rparr> else ts)) xs)) =
      sum_list (map (act \<circ> snd) xs)" for xs
    by (induction xs) (auto simp: act_def split: if_splits)
  ultimately show ?thesis using Ghosts by (simp add: detectGhosts_def count_sum)
qed

lemma tk_step_metrics [simp]: "has_metrics (tk_step t e) = has_metrics t"
proof (cases e)
  case (Track ord sid agentID userID task model path clk)
  then show ?thesis
    by (cases clk) (auto simp: TrackCall_def get_or_start_def Let_def split: option.split prod.split)
qed (auto simp: RecordCost_def EndSession_def collect_dirty_def expireIdleSessions_def detectGhosts_def Let_def split: option.split)

lemma run_gauge:
  "has_metrics t \<Longrightarrow> gauge (run_reports t es) =
    int (ActiveSessionCount (fold (\<lambda>e t. tk_step t e) es t)) - int (ActiveSessionCount t) + run_sum evicted_active t es - run_sum ended_again t es"
  by (induction es arbitrary: t) (auto simp: step_gauge)

text \<open>
  C28. The gauge of active sessions: after every run of the tracker its value is the number of active
  sessions in memory, plus the active sessions that were evicted at the cap, minus the ends of
  sessions that had already ended. Without these two it is exact; each of them shifts it for good.
\<close>

theorem active_sessions_gauge:
  "counter activeSessions [] (concat (map tracker_updates (run_reports (NewTracker cfg True) es))) =
    int (ActiveSessionCount (fold (\<lambda>e t. tk_step t e) es (NewTracker cfg True))) +
    run_sum evicted_active (NewTracker cfg True) es - run_sum ended_again (NewTracker cfg True) es"
  using run_gauge[of "NewTracker cfg True" es] by (simp add: gauge_def NewTracker_def ActiveSessionCount_def)

text \<open>
  Every usage record the proxy makes is also reported: the token counters of a provider and model
  are the sums over the records.
\<close>

definition model_attrs :: "string \<Rightarrow> string \<Rightarrow> string \<Rightarrow> attributes" where
  "model_attrs p m typ = [(''provider'', AString p), (''model'', AString m), (''type'', AString typ)]"

lemma metrics_match_records:
  assumes "with_metrics ps"
  shows "counter tokensTotal (model_attrs p m typ) (concat (map effect_updates (concat (map (\<lambda>(s, r). usage_effects ps s r) rs)))) =
    sum_list (map (\<lambda>(_, r). if u_Provider r = p \<and> u_Model r = m
      then (if typ = ''prompt'' then u_InputTokens r else 0) + (if typ = ''completion'' then u_OutputTokens r else 0) else 0) rs)"
  using assms by (induction rs) (auto simp: usage_effects_def RecordRequest_def Let_def model_attrs_def)

end
