(* ===== verification/Pages.thy ===== *)
theory Pages
  imports Paths
begin

text \<open>
  The pages of the dashboard (\<open>internal/dashboard/server.go\<close>): the embedded files and the handler that
  serves them, with \<open>fs.Sub\<close>, \<open>http.FS\<close> and \<open>http.FileServer\<close> of the standard library as far as the
  handler uses them. The bytes of a file are an argument. The headers of a file's answer, byte ranges
  and conditional requests are not modelled.
\<close>

section \<open>The embedded files\<close>

definition staticFiles :: "string list" where
  "staticFiles = [''app.js'', ''index.html'', ''style.css'']"

datatype fs_entry = FsDir | FsFile string

text \<open>\<open>Open\<close> on the subtree \<open>static\<close>, and on it as an \<open>http.FileSystem\<close>, whose names are rooted.\<close>

definition sub_Open :: "string \<Rightarrow> fs_entry option" where
  "sub_Open name =
    (if \<not> ValidPath name then None
     else if name = ''.'' then Some FsDir
     else if name \<in> set staticFiles then Some (FsFile name) else None)"

definition httpFS_Open :: "string \<Rightarrow> fs_entry option" where
  "httpFS_Open name = sub_Open (if name = ''/'' then ''.'' else TrimPrefix name ''/'')"

section \<open>The file server\<close>

text \<open>\<open>path.Base\<close>.\<close>

definition path_Base :: "string \<Rightarrow> string" where
  "path_Base p =
    (if p = '''' then ''.''
     else let q = rev (dropWhile (\<lambda>c. c = CHR ''/'') (rev p)); b = rev (takeWhile (\<lambda>c. c \<noteq> CHR ''/'') (rev q))
       in if b = '''' then ''/'' else b)"

datatype page =
    PageFile string
  | PageListing string
  | PageRedirect string
  | PageError int

definition localRedirect :: "string \<Rightarrow> string \<Rightarrow> page" where
  "localRedirect newPath query = PageRedirect (if query \<noteq> '''' then newPath @ ''?'' @ query else newPath)"

definition serveFile :: "string \<Rightarrow> string \<Rightarrow> string \<Rightarrow> page" where
  "serveFile url query name =
    (if HasSuffix url ''/index.html'' then localRedirect ''./'' query
     else case httpFS_Open name of
       None \<Rightarrow> PageError 404
     | Some (FsFile f) \<Rightarrow>
         if HasSuffix url ''/'' then
           (if path_Base url = ''/'' \<or> path_Base url = ''.'' then PageError 500 else localRedirect (''../'' @ path_Base url) query)
         else PageFile f
     | Some FsDir \<Rightarrow>
         if \<not> HasSuffix url ''/'' then localRedirect (path_Base url @ ''/'') query
         else case httpFS_Open (TrimSuffix name ''/'' @ ''/index.html'') of
           Some (FsFile f) \<Rightarrow> PageFile f
         | _ \<Rightarrow> PageListing name)"

definition fileServer :: "string \<Rightarrow> string \<Rightarrow> page" where
  "fileServer url query =
    (let upath = (if HasPrefix url ''/'' then url else ''/'' @ url) in serveFile upath query (Clean upath))"

section \<open>The handler\<close>

definition StaticHandler :: "request \<Rightarrow> page" where
  "StaticHandler r =
    (let path = (if length (Path r) > 0 then drop 1 (Path r) else Path r) in
     case sub_Open path of
       Some _ \<Rightarrow> fileServer (Path r) (RawQuery r)
     | None \<Rightarrow> fileServer ''/'' (RawQuery r))"

text \<open>The answer, with the bytes of the files.\<close>

definition page_response :: "(string \<Rightarrow> string) \<Rightarrow> page \<Rightarrow> response" where
  "page_response bytes p =
    (case p of
       PageFile f \<Rightarrow> \<lparr>StatusCode = 200, RespHeader = Map.empty, RespBody = bytes f\<rparr>
     | PageListing d \<Rightarrow> \<lparr>StatusCode = 200, RespHeader = Map.empty, RespBody = d\<rparr>
     | PageRedirect to \<Rightarrow> \<lparr>StatusCode = 301, RespHeader = header_Set Map.empty ''Location'' to, RespBody = ''''\<rparr>
     | PageError code \<Rightarrow> \<lparr>StatusCode = code, RespHeader = Map.empty, RespBody = ''''\<rparr>)"

section \<open>Properties\<close>

lemma sub_Open_file: "sub_Open name = Some (FsFile f) \<longleftrightarrow> name = f \<and> f \<in> set staticFiles"
  by (auto simp: sub_Open_def staticFiles_def ValidPath_def)

lemma sub_Open_dir: "sub_Open name = Some FsDir \<longleftrightarrow> name = ''.''"
  by (auto simp: sub_Open_def ValidPath_def)

lemma root_page: "fileServer ''/'' query = PageFile ''index.html''"
proof -
  have "HasPrefix ''/'' ''/''" "Clean ''/'' = ''/''" "\<not> HasSuffix ''/'' ''/index.html''" "httpFS_Open ''/'' = Some FsDir"
    "HasSuffix ''/'' ''/''" "httpFS_Open (TrimSuffix ''/'' ''/'' @ ''/index.html'') = Some (FsFile ''index.html'')" by code_simp+
  then show ?thesis by (simp add: fileServer_def serveFile_def)
qed

lemma file_page:
  assumes "f \<in> set staticFiles"
  shows "fileServer (CHR ''/'' # f) query = (if f = ''index.html'' then localRedirect ''./'' query else PageFile f)"
proof -
  have "f = ''index.html'' \<or> f = ''app.js'' \<or> f = ''style.css''" using assms by (auto simp: staticFiles_def)
  moreover have "HasPrefix ''/app.js'' ''/''" "\<not> HasSuffix ''/app.js'' ''/index.html''" "\<not> HasSuffix ''/app.js'' ''/''"
    "httpFS_Open (Clean ''/app.js'') = Some (FsFile ''app.js'')" "HasPrefix ''/style.css'' ''/''"
    "\<not> HasSuffix ''/style.css'' ''/index.html''" "\<not> HasSuffix ''/style.css'' ''/''"
    "httpFS_Open (Clean ''/style.css'') = Some (FsFile ''style.css'')" "HasPrefix ''/index.html'' ''/''"
    "HasSuffix ''/index.html'' ''/index.html''" by code_simp+
  ultimately show ?thesis by (auto simp: fileServer_def serveFile_def)
qed



end
