(* ===== verification/Shutdown.thy ===== *)
theory Shutdown
  imports Storage
begin

text \<open>
  How the server runs and stops (\<open>runServe\<close>, the deferred calls of \<open>cmd/agentledger/serve.go\<close>): requests
  change the sessions in memory, the background goroutine of the tracker flushes, expires and looks
  for ghosts, the recorder's callers and workers move usage records to the ledger, and at the stop the
  tracker is closed, then the recorder, then the store. All of them work on one database.

  One step is one critical section or one statement of the database, so a flush is a snapshot under
  the lock and then one write after the other, between which anything else can happen. The timers are
  not modelled: a tick may come at any time.
\<close>

section \<open>The tracker's goroutine and Close, uninterrupted\<close>

text \<open>
  A tick of \<open>backgroundLoop\<close>: flush, expire, ghosts, each with its iteration order and clock.
\<close>

definition background_tick ::
  "'db upsert \<Rightarrow> iteration \<Rightarrow> time \<Rightarrow> iteration \<Rightarrow> (string \<Rightarrow> time) \<Rightarrow> Tracker \<times> 'db \<Rightarrow> string list \<times> tracker_event list \<times> Tracker \<times> 'db" where
  "background_tick upsert ord now ord2 nows s =
    (case s of (t, db) \<Rightarrow>
       case flush upsert ord t db of (errs, t1, db1) \<Rightarrow>
         case expireIdleSessions t1 now of (evs, t2) \<Rightarrow>
           case detectGhosts ord2 t2 nows of (evs2, t3) \<Rightarrow> (errs, evs @ evs2, t3, db1))"

text \<open>\<open>Tracker.Close\<close>: the first call flushes, the others do nothing.\<close>

definition tracker_Close :: "'db upsert \<Rightarrow> iteration \<Rightarrow> bool \<Rightarrow> Tracker \<Rightarrow> 'db \<Rightarrow> string list \<times> Tracker \<times> 'db" where
  "tracker_Close upsert ord again t db = (if again then ([], t, db) else flush upsert ord t db)"

section \<open>Steps of the server\<close>

text \<open>Where the background goroutine is: at its \<open>select\<close>, in a flush with the writes left, or gone.\<close>

datatype bg_phase = BgSelect | BgFlush "Session list" | BgExpire | BgGhosts | BgReturned

text \<open>
  How far the stop is. \<open>Closing\<close>: the server has shut down, so no request is in progress, and
  \<open>Tracker.Close\<close> has closed the channel \<open>done\<close>.
\<close>

datatype stop_phase = Serving | Closing | CloseFlush "Session list" | TrackerClosed | StoreClosed

record server_state =
  sv_tracker :: Tracker
  sv_recorder :: "database recorder"
  sv_bg :: bg_phase
  sv_stop :: stop_phase

text \<open>The recorder's share: a call of \<open>Record\<close>, a worker's action, the two halves of \<open>Close\<close>.\<close>

datatype r_action = RRecord UsageRecord | RWorker nat | RClose | RWait

definition worker_label :: "('db \<Rightarrow> UsageRecord \<Rightarrow> string option \<times> 'db) \<Rightarrow> 'db recorder \<Rightarrow> nat \<Rightarrow> rlabel" where
  "worker_label save r i =
    (case r_workers r ! i of
       Waiting \<Rightarrow> (case r_buf r of x # _ \<Rightarrow> Taken x | [] \<Rightarrow> Internal)
     | Writing x \<Rightarrow> Written x (fst (save (r_ledger r) x))
     | Returned \<Rightarrow> Internal)"

fun r_exec ::
  "('db \<Rightarrow> UsageRecord \<Rightarrow> string option \<times> 'db) \<Rightarrow> r_action \<Rightarrow> 'db recorder \<Rightarrow> (rlabel \<times> 'db recorder) option" where
  "r_exec save (RRecord x) r =
    (case Record r x of
       Inl _ \<Rightarrow> None
     | Inr r' \<Rightarrow> Some (if length (r_buf r) < r_cap r then Accepted x else DroppedL x, r'))"
| "r_exec save (RWorker i) r = map_option (Pair (worker_label save r i)) (worker_step save r i)"
| "r_exec save RClose r = map_option (Pair Internal) (Close_begin r)"
| "r_exec save RWait r = map_option (Pair Internal) (Close_wait r)"

datatype sv_action =
    Request tk_event
  | BgTick iteration
  | BgWrite
  | BgFlushed
  | BgExpireIdle time
  | BgDetect iteration "string \<Rightarrow> time"
  | BgReturn
  | BeginClose
  | CloseTake iteration
  | CloseWrite
  | CloseDone
  | Rec r_action
  | CloseStore

text \<open>What a step shows: the errors of the session store that are logged, and the recorder's label.\<close>

datatype sv_label = SvErrors "string list" | SvUsage rlabel

fun is_request :: "tk_event \<Rightarrow> bool" where
  "is_request (Track ord sid agentID userID task model path clk) \<longleftrightarrow> True"
| "is_request (Cost sid c n) \<longleftrightarrow> True"
| "is_request (End sid now) \<longleftrightarrow> True"
| "is_request e \<longleftrightarrow> False"

text \<open>Statements on a closed database fail.\<close>

definition db_faults :: "stop_phase \<Rightarrow> ('a \<Rightarrow> fault) \<Rightarrow> 'a \<Rightarrow> fault" where
  "db_faults stop faults = (if stop = StoreClosed then (\<lambda>_. Some ''sql: database is closed'') else faults)"

definition sv_write :: "store \<Rightarrow> (Session \<Rightarrow> fault) \<Rightarrow> server_state \<Rightarrow> Session \<Rightarrow> sv_label \<times> server_state" where
  "sv_write st sf v s =
    (case store_UpsertSession st (db_faults (sv_stop v) sf) (r_ledger (sv_recorder v)) s of
       (err, db) \<Rightarrow> (SvErrors (case err of Some e \<Rightarrow> [e] | None \<Rightarrow> []),
                    v\<lparr>sv_recorder := (sv_recorder v)\<lparr>r_ledger := db\<rparr>\<rparr>))"

text \<open>
  One step; \<open>None\<close> when it is not possible in this state. The recorder is closed after the tracker,
  and the store after the recorder; nothing but \<open>runServe\<close> closes them.
\<close>

fun sv_step ::
  "store \<Rightarrow> (Session \<Rightarrow> fault) \<Rightarrow> (UsageRecord \<Rightarrow> fault) \<Rightarrow> sv_action \<Rightarrow> server_state \<Rightarrow> (sv_label \<times> server_state) option" where
  "sv_step st sf uf (Request e) v =
    (if sv_stop v = Serving \<and> is_request e then Some (SvErrors [], v\<lparr>sv_tracker := tk_step (sv_tracker v) e\<rparr>) else None)"
| "sv_step st sf uf (BgTick ord) v =
    (if sv_bg v = BgSelect
     then (case collect_dirty ord (sv_tracker v) of (ss, t) \<Rightarrow> Some (SvErrors [], v\<lparr>sv_tracker := t, sv_bg := BgFlush ss\<rparr>))
     else None)"
| "sv_step st sf uf BgWrite v =
    (case sv_bg v of
       BgFlush (s # ss) \<Rightarrow> (case sv_write st sf v s of (l, w) \<Rightarrow> Some (l, w\<lparr>sv_bg := BgFlush ss\<rparr>))
     | _ \<Rightarrow> None)"
| "sv_step st sf uf BgFlushed v = (if sv_bg v = BgFlush [] then Some (SvErrors [], v\<lparr>sv_bg := BgExpire\<rparr>) else None)"
| "sv_step st sf uf (BgExpireIdle now) v =
    (if sv_bg v = BgExpire
     then Some (SvErrors [], v\<lparr>sv_tracker := snd (expireIdleSessions (sv_tracker v) now), sv_bg := BgGhosts\<rparr>)
     else None)"
| "sv_step st sf uf (BgDetect ord nows) v =
    (if sv_bg v = BgGhosts
     then Some (SvErrors [], v\<lparr>sv_tracker := snd (detectGhosts ord (sv_tracker v) nows), sv_bg := BgSelect\<rparr>)
     else None)"
| "sv_step st sf uf BgReturn v =
    (if sv_bg v = BgSelect \<and> sv_stop v \<noteq> Serving then Some (SvErrors [], v\<lparr>sv_bg := BgReturned\<rparr>) else None)"
| "sv_step st sf uf BeginClose v = (if sv_stop v = Serving then Some (SvErrors [], v\<lparr>sv_stop := Closing\<rparr>) else None)"
| "sv_step st sf uf (CloseTake ord) v =
    (if sv_stop v = Closing
     then (case collect_dirty ord (sv_tracker v) of (ss, t) \<Rightarrow> Some (SvErrors [], v\<lparr>sv_tracker := t, sv_stop := CloseFlush ss\<rparr>))
     else None)"
| "sv_step st sf uf CloseWrite v =
    (case sv_stop v of
       CloseFlush (s # ss) \<Rightarrow> (case sv_write st sf v s of (l, w) \<Rightarrow> Some (l, w\<lparr>sv_stop := CloseFlush ss\<rparr>))
     | _ \<Rightarrow> None)"
| "sv_step st sf uf CloseDone v = (if sv_stop v = CloseFlush [] then Some (SvErrors [], v\<lparr>sv_stop := TrackerClosed\<rparr>) else None)"
| "sv_step st sf uf (Rec a) v =
    (if a = RClose \<and> sv_stop v \<noteq> TrackerClosed \<or> a = RWait \<and> r_once (sv_recorder v) \<noteq> Running then None
     else map_option (\<lambda>(l, r). (SvUsage l, v\<lparr>sv_recorder := r\<rparr>))
       (r_exec (store_RecordUsage st (db_faults (sv_stop v) uf)) a (sv_recorder v)))"
| "sv_step st sf uf CloseStore v =
    (if sv_stop v = TrackerClosed \<and> r_once (sv_recorder v) = Finished then Some (SvErrors [], v\<lparr>sv_stop := StoreClosed\<rparr>) else None)"

fun sv_run ::
  "store \<Rightarrow> (Session \<Rightarrow> fault) \<Rightarrow> (UsageRecord \<Rightarrow> fault) \<Rightarrow> sv_action list \<Rightarrow> server_state \<Rightarrow> (sv_label list \<times> server_state) option" where
  "sv_run st sf uf [] v = Some ([], v)"
| "sv_run st sf uf (a # as) v =
    (case sv_step st sf uf a v of
       None \<Rightarrow> None
     | Some (l, w) \<Rightarrow> map_option (\<lambda>(ls, x). (l # ls, x)) (sv_run st sf uf as w))"

text \<open>
  The background goroutine is only started when a feature of the tracker is configured; with alert targets
  the tracker gets a notifier.
\<close>

definition sv_start :: "agent_config \<Rightarrow> bool \<Rightarrow> bool \<Rightarrow> database \<Rightarrow> int \<Rightarrow> int \<Rightarrow> server_state" where
  "sv_start cfg metrics notify db bufSize workers =
    (let t = NewTracker cfg metrics; t = (if notify \<and> t_Enabled t then SetAlertNotifier t else t)
     in \<lparr>sv_tracker = t, sv_recorder = NewRecorder db bufSize workers,
         sv_bg = (if t_Enabled t then BgSelect else BgReturned), sv_stop = Serving\<rparr>)"

text \<open>The range loops of an action go over the map in some order.\<close>

fun action_ok :: "sv_action \<Rightarrow> bool" where
  "action_ok (Request e) \<longleftrightarrow> ev_ok e"
| "action_ok (BgTick ord) \<longleftrightarrow> permutes ord"
| "action_ok (BgDetect ord nows) \<longleftrightarrow> permutes ord"
| "action_ok (CloseTake ord) \<longleftrightarrow> permutes ord"
| "action_ok a \<longleftrightarrow> True"

fun is_background :: "sv_action \<Rightarrow> bool" where
  "is_background (BgTick ord) \<longleftrightarrow> True"
| "is_background BgWrite \<longleftrightarrow> True"
| "is_background BgFlushed \<longleftrightarrow> True"
| "is_background (BgExpireIdle now) \<longleftrightarrow> True"
| "is_background (BgDetect ord nows) \<longleftrightarrow> True"
| "is_background a \<longleftrightarrow> False"

fun usage_of :: "sv_label \<Rightarrow> rlabel list" where
  "usage_of (SvUsage l) = [l]"
| "usage_of (SvErrors errs) = []"

definition usages :: "sv_label list \<Rightarrow> rlabel list" where
  "usages ls = concat (map usage_of ls)"

fun no_errors :: "sv_label \<Rightarrow> bool" where
  "no_errors (SvErrors errs) \<longleftrightarrow> errs = []"
| "no_errors (SvUsage l) \<longleftrightarrow> True"

lemma usages_simps [simp]: "usages [] = []" "usages (l # ls) = usage_of l @ usages ls" "usages (ls @ ls') = usages ls @ usages ls'"
  by (simp_all add: usages_def)

section \<open>Without interleaving\<close>

text \<open>The steps of a tick, taken one after the other, are \<open>background_tick\<close>; those of the stop are \<open>tracker_Close\<close>.\<close>

fun errors_of :: "sv_label \<Rightarrow> string list" where
  "errors_of (SvErrors errs) = errs"
| "errors_of (SvUsage l) = []"

lemma sv_run_append:
  "sv_run st sf uf as v = Some (ls, w) \<Longrightarrow> sv_run st sf uf bs w = Some (ls', x) \<Longrightarrow> sv_run st sf uf (as @ bs) v = Some (ls @ ls', x)"
  by (induction as arbitrary: v ls) (auto split: option.splits)

abbreviation with_db :: "server_state \<Rightarrow> database \<Rightarrow> server_state" where
  "with_db v db \<equiv> v\<lparr>sv_recorder := (sv_recorder v)\<lparr>r_ledger := db\<rparr>\<rparr>"

lemma bg_writes:
  assumes "sv_stop v \<noteq> StoreClosed" "sv_bg v = BgFlush ss" "upsert_all (store_UpsertSession st sf) (r_ledger (sv_recorder v)) ss = (errs, db)"
  shows "\<exists>ls. sv_run st sf uf (replicate (length ss) BgWrite) v = Some (ls, (with_db v db)\<lparr>sv_bg := BgFlush []\<rparr>) \<and>
    concat (map errors_of ls) = errs"
  using assms
proof (induction ss arbitrary: v errs)
  case (Cons s ss)
  obtain err db1 where u: "store_UpsertSession st sf (r_ledger (sv_recorder v)) s = (err, db1)" by fastforce
  obtain errs' where r: "upsert_all (store_UpsertSession st sf) db1 ss = (errs', db)"
    "errs = (case err of Some e \<Rightarrow> [e] | None \<Rightarrow> []) @ errs'"
    using Cons.prems(3) by (auto simp: u Let_def split: prod.splits)
  show ?case
    using Cons.IH[of "(with_db v db1)\<lparr>sv_bg := BgFlush ss\<rparr>" errs'] Cons.prems(1,2) r u
    by (force simp: sv_write_def db_faults_def)
qed simp

lemma close_writes:
  assumes "sv_stop v = CloseFlush ss" "upsert_all (store_UpsertSession st sf) (r_ledger (sv_recorder v)) ss = (errs, db)"
  shows "\<exists>ls. sv_run st sf uf (replicate (length ss) CloseWrite) v = Some (ls, (with_db v db)\<lparr>sv_stop := CloseFlush []\<rparr>) \<and>
    concat (map errors_of ls) = errs"
  using assms
proof (induction ss arbitrary: v errs)
  case (Cons s ss)
  obtain err db1 where u: "store_UpsertSession st sf (r_ledger (sv_recorder v)) s = (err, db1)" by fastforce
  obtain errs' where r: "upsert_all (store_UpsertSession st sf) db1 ss = (errs', db)"
    "errs = (case err of Some e \<Rightarrow> [e] | None \<Rightarrow> []) @ errs'"
    using Cons.prems(2) by (auto simp: u Let_def split: prod.splits)
  show ?case
    using Cons.IH[of "(with_db v db1)\<lparr>sv_stop := CloseFlush ss\<rparr>" errs'] Cons.prems(1) r u
    by (force simp: sv_write_def db_faults_def)
qed simp

lemma tick_uninterrupted:
  assumes "sv_bg v = BgSelect" "sv_stop v \<noteq> StoreClosed"
    and "background_tick (store_UpsertSession st sf) ord now ord2 nows (sv_tracker v, r_ledger (sv_recorder v)) = (errs, evs, t, db)"
  shows "\<exists>n ls. sv_run st sf uf ([BgTick ord] @ replicate n BgWrite @ [BgFlushed, BgExpireIdle now, BgDetect ord2 nows]) v
      = Some (ls, (with_db v db)\<lparr>sv_tracker := t\<rparr>) \<and> concat (map errors_of ls) = errs"
proof -
  obtain ss t1 where c: "collect_dirty ord (sv_tracker v) = (ss, t1)" by fastforce
  have up: "upsert_all (store_UpsertSession st sf) (r_ledger (sv_recorder v)) ss = (errs, db)"
    and t: "t = snd (detectGhosts ord2 (snd (expireIdleSessions t1 now)) nows)"
    using assms(3) by (auto simp: background_tick_def flush_def c Let_def split: prod.splits)
  let ?v = "v\<lparr>sv_tracker := t1, sv_bg := BgFlush ss\<rparr>"
  have "\<exists>ls. sv_run st sf uf (replicate (length ss) BgWrite) ?v = Some (ls, (with_db ?v db)\<lparr>sv_bg := BgFlush []\<rparr>) \<and>
      concat (map errors_of ls) = errs"
    by (rule bg_writes) (use assms(2) up in simp_all)
  then obtain ls where w: "sv_run st sf uf (replicate (length ss) BgWrite) ?v = Some (ls, (with_db ?v db)\<lparr>sv_bg := BgFlush []\<rparr>)"
    "concat (map errors_of ls) = errs" by blast
  have first: "sv_run st sf uf [BgTick ord] v = Some ([SvErrors []], ?v)" using assms(1) c by simp
  have last: "sv_run st sf uf [BgFlushed, BgExpireIdle now, BgDetect ord2 nows] ((with_db ?v db)\<lparr>sv_bg := BgFlush []\<rparr>) =
      Some ([SvErrors [], SvErrors [], SvErrors []], (with_db v db)\<lparr>sv_tracker := t\<rparr>)"
    using assms(1) by (simp add: t)
  show ?thesis
    using sv_run_append[OF first sv_run_append[OF w(1) last]] w(2)
    by (intro exI[of _ "length ss"] exI[of _ "[SvErrors []] @ ls @ [SvErrors [], SvErrors [], SvErrors []]"]) simp
qed

lemma close_uninterrupted:
  assumes "sv_stop v = Closing" and "tracker_Close (store_UpsertSession st sf) ord False (sv_tracker v) (r_ledger (sv_recorder v)) = (errs, t, db)"
  shows "\<exists>n ls. sv_run st sf uf ([CloseTake ord] @ replicate n CloseWrite @ [CloseDone]) v
      = Some (ls, (with_db v db)\<lparr>sv_tracker := t, sv_stop := TrackerClosed\<rparr>) \<and> concat (map errors_of ls) = errs"
proof -
  obtain ss t1 where c: "collect_dirty ord (sv_tracker v) = (ss, t1)" by fastforce
  have up: "upsert_all (store_UpsertSession st sf) (r_ledger (sv_recorder v)) ss = (errs, db)" "t = t1"
    using assms(2) by (auto simp: tracker_Close_def flush_def c Let_def split: prod.splits)
  let ?v = "v\<lparr>sv_tracker := t1, sv_stop := CloseFlush ss\<rparr>"
  have "\<exists>ls. sv_run st sf uf (replicate (length ss) CloseWrite) ?v = Some (ls, (with_db ?v db)\<lparr>sv_stop := CloseFlush []\<rparr>) \<and>
      concat (map errors_of ls) = errs"
    by (rule close_writes) (use up in simp_all)
  then obtain ls where w: "sv_run st sf uf (replicate (length ss) CloseWrite) ?v = Some (ls, (with_db ?v db)\<lparr>sv_stop := CloseFlush []\<rparr>)"
    "concat (map errors_of ls) = errs" by blast
  have first: "sv_run st sf uf [CloseTake ord] v = Some ([SvErrors []], ?v)" using assms(1) c by simp
  have last: "sv_run st sf uf [CloseDone] ((with_db ?v db)\<lparr>sv_stop := CloseFlush []\<rparr>) =
      Some ([SvErrors []], (with_db v db)\<lparr>sv_tracker := t, sv_stop := TrackerClosed\<rparr>)" by (simp add: up(2))
  show ?thesis
    using sv_run_append[OF first sv_run_append[OF w(1) last]] w(2)
    by (intro exI[of _ "length ss"] exI[of _ "[SvErrors []] @ ls @ [SvErrors []]"]) simp
qed

section \<open>Snapshots\<close>

text \<open>
  While the sessions of a snapshot are still to be written, a session is safe if its last state is in
  the snapshot, or it is not in the snapshot and stored.
\<close>

context session_store
begin

definition covered :: "'db \<Rightarrow> Session list \<Rightarrow> string \<Rightarrow> Session \<Rightarrow> bool" where
  "covered db pend i s \<longleftrightarrow>
    (\<exists>r \<in> set pend. s_ID r = i \<and> progress r = progress s) \<or> i \<notin> s_ID ` set pend \<and> stored db i s"

definition synced_with :: "Tracker \<Rightarrow> 'db \<Rightarrow> Session list \<Rightarrow> bool" where
  "synced_with t db pend \<longleftrightarrow>
    (\<forall>i ts. map_of (t_sessions t) i = Some ts \<and> \<not> dirty ts \<longrightarrow> covered db pend i (ts_session ts))"

lemma covered_Nil [simp]: "covered db [] i s = stored db i s"
  by (simp add: covered_def)

lemma synced_with_Nil [simp]: "synced_with t db [] = synced t db"
  by (simp add: synced_with_def synced_def)

lemma covered_write:
  assumes "upsert db r = (None, db')" and "distinct (map s_ID (r # rs))" and "covered db (r # rs) i s"
  shows "covered db' rs i s"
proof (cases "i = s_ID r")
  case True
  then have "stored db' i s"
    using upsert_ok[OF assms(1)] assms(2,3) by (force simp: covered_def stored_def image_iff)
  then show ?thesis using True assms(2) by (auto simp: covered_def)
next
  case False
  then show ?thesis using upsert_other[OF assms(1) False] assms(3) by (auto simp: covered_def stored_def)
qed

lemma synced_with_write:
  "upsert db r = (None, db') \<Longrightarrow> distinct (map s_ID (r # rs)) \<Longrightarrow> synced_with t db (r # rs) \<Longrightarrow> synced_with t db' rs"
  using covered_write unfolding synced_with_def by blast

lemma covered_collect:
  assumes "t_inv t" "permutes ord" "synced t db" "map_of (t_sessions t) i = Some ts"
  shows "covered db (fst (collect_dirty ord t)) i (ts_session ts)"
proof (cases "dirty ts")
  case True
  have "(i, ts) \<in> set (ord (t_sessions t))" using map_of_SomeD[OF assms(4)] permutes_set[OF assms(2)] by simp
  then have "ts_session ts \<in> set (fst (collect_dirty ord t))" using True by (force simp: collect_dirty_def)
  then show ?thesis using t_inv_lookup[OF assms(1,4)] by (auto simp: covered_def)
next
  case False
  have "i \<notin> s_ID ` set (fst (collect_dirty ord t))"
  proof
    assume "i \<in> s_ID ` set (fst (collect_dirty ord t))"
    then obtain j ts' where "(j, ts') \<in> set (t_sessions t)" "dirty ts'" "s_ID (ts_session ts') = i"
      using permutes_set[OF assms(2), of "t_sessions t"] by (auto simp: collect_dirty_def)
    then have "map_of (t_sessions t) i = Some ts'" using assms(1) by (auto simp: t_inv_def intro: map_of_is_SomeI)
    then show False using \<open>dirty ts'\<close> assms(4) False by simp
  qed
  then show ?thesis using assms(3,4) False by (auto simp: covered_def synced_def)
qed

lemma synced_with_collect:
  assumes "t_inv t" "permutes ord" "synced t db" "collect_dirty ord t = (ss, t')"
  shows "synced_with t' db ss"
  using collect_dirty_lookup[OF assms(1), of ord] covered_collect[OF assms(1-3)] assms(4) unfolding synced_with_def
  by fastforce

lemma synced_with_step: "synced_with t db pend \<Longrightarrow> marks_changes t t' \<Longrightarrow> synced_with t' db pend"
  unfolding synced_with_def marks_changes_def by metis

end

section \<open>The recorder's part\<close>

lemma r_exec_rstep: "r_exec save a r = Some (l, r') \<Longrightarrow> rstep save r l r'"
proof (cases a)
  case (RWorker i)
  assume "r_exec save a r = Some (l, r')"
  then have w: "worker_step save r i = Some r'" "l = worker_label save r i" using RWorker by auto
  then show ?thesis
  proof (cases "r_workers r ! i")
    case Waiting
    then show ?thesis using w by (cases "r_buf r") (auto simp: worker_label_def intro: rstep.take rstep.leave)
  next
    case (Writing x)
    then show ?thesis using w rstep.finish[OF w(1) Writing] by (simp add: worker_label_def)
  next
    case Returned
    then show ?thesis using w by (auto simp: worker_step_def split: if_splits)
  qed
qed (auto intro: rstep.accept rstep.drop rstep.close rstep.closed split: sum.splits if_splits)

lemma rstep_finished: "rstep save r l r' \<Longrightarrow> r_once r = Finished \<Longrightarrow> r_once r' = Finished"
  by (induction rule: rstep.induct) (auto simp: rstep_defs split: if_splits once.splits worker.splits list.splits)

lemma rstep_sessions:
  "rstep (store_RecordUsage st faults) r l r' \<Longrightarrow> agent_sessions (r_ledger r') = agent_sessions (r_ledger r)"
  by (induction rule: rstep.induct)
     (auto simp: rstep_defs store_RecordUsage_sessions split: if_splits once.splits worker.splits list.splits)

lemma r_inv_ledger [simp]: "r_inv (r\<lparr>r_ledger := db\<rparr>) us = r_inv r us"
  by (simp add: r_inv_def)

lemma r_inv_finished:
  assumes "r_inv s us" "r_once s = Finished" "r_workers s \<noteq> []"
  shows "r_buf s = []" "mset (hist written_of us) = mset (hist accepted_of us)"
proof -
  have all: "list_all (\<lambda>w. w = Returned) (r_workers s)" using assms by (simp add: r_inv_def)
  then have "Returned \<in> set (r_workers s)" using assms(3) by (cases "r_workers s") auto
  then show buf: "r_buf s = []" using assms(1) by (simp add: r_inv_def)
  show "mset (hist written_of us) = mset (hist accepted_of us)"
    using assms(1) flying_returned[OF all] buf by (simp add: r_inv_def)
qed

text \<open>A step that is not the recorder's leaves the recorder and the usage records alone.\<close>

lemma sv_step_rec:
  assumes "sv_step st sf uf (Rec a) v = Some (l, w)"
  obtains l' where "l = SvUsage l'" "sv_stop w = sv_stop v" "sv_tracker w = sv_tracker v" "sv_bg w = sv_bg v"
    "rstep (store_RecordUsage st (db_faults (sv_stop v) uf)) (sv_recorder v) l' (sv_recorder w)"
  using assms by (auto split: if_splits dest!: r_exec_rstep)

lemma sv_write_frame:
  assumes "sv_write st sf v s = (l, w)"
  obtains db where "w = v\<lparr>sv_recorder := (sv_recorder v)\<lparr>r_ledger := db\<rparr>\<rparr>" "usage_of l = []"
    "usage_records db = usage_records (r_ledger (sv_recorder v))"
    "no_errors l \<Longrightarrow> store_UpsertSession st (db_faults (sv_stop v) sf) (r_ledger (sv_recorder v)) s = (None, db)"
  using assms store_UpsertSession_rows[of st "db_faults (sv_stop v) sf" "r_ledger (sv_recorder v)" s]
  by (auto simp: sv_write_def split: prod.splits option.splits)

lemma sv_step_other:
  assumes "sv_step st sf uf a v = Some (l, w)" and "\<And>b. a \<noteq> Rec b"
  shows "usage_of l = [] \<and> (\<exists>db. sv_recorder w = (sv_recorder v)\<lparr>r_ledger := db\<rparr> \<and>
      usage_records db = usage_records (r_ledger (sv_recorder v))) \<and>
    (sv_stop w = StoreClosed \<longrightarrow> sv_stop v = StoreClosed \<or> r_once (sv_recorder v) = Finished)"
proof -
  have same: "\<exists>db. r = r\<lparr>r_ledger := db\<rparr> \<and> usage_records db = usage_records (r_ledger r)" for r :: "database recorder"
    by (rule exI[of _ "r_ledger r"]) simp
  show ?thesis
    using assms by (cases a)
      (auto intro!: same elim!: sv_write_frame split: if_splits prod.splits bg_phase.splits stop_phase.splits list.splits)
qed

definition rec_inv :: "database \<Rightarrow> server_state \<Rightarrow> rlabel list \<Rightarrow> bool" where
  "rec_inv db v us \<longleftrightarrow>
    r_inv (sv_recorder v) us \<and> r_workers (sv_recorder v) \<noteq> [] \<and>
    mset (usage_records (r_ledger (sv_recorder v))) = mset (usage_records db) + mset (hist saved_of us) \<and>
    (sv_stop v = StoreClosed \<longrightarrow> r_once (sv_recorder v) = Finished)"

lemma hist_append [simp]: "hist f (xs @ ys) = hist f xs @ hist f ys" "hist f [l] = f l"
  by (simp_all add: hist_def)

lemma rec_inv_step:
  assumes "sv_step st sf uf a v = Some (l, w)" "rec_inv db v us"
  shows "rec_inv db w (us @ usage_of l)"
proof (cases "\<exists>b. a = Rec b")
  case True
  then obtain b where "sv_step st sf uf (Rec b) v = Some (l, w)" using assms(1) by blast
  then obtain l' where l: "l = SvUsage l'" "sv_stop w = sv_stop v"
    and r: "rstep (store_RecordUsage st (db_faults (sv_stop v) uf)) (sv_recorder v) l' (sv_recorder w)"
    by (rule sv_step_rec)
  show ?thesis
    using r_inv_step[OF r] store_sink.saved_step[OF r] rstep_cap[OF r] rstep_finished[OF r] assms(2) by (auto simp: l rec_inv_def)
next
  case False
  then show ?thesis using sv_step_other[OF assms(1)] assms(2) by (auto simp: rec_inv_def)
qed

lemma rec_inv_run: "sv_run st sf uf as v = Some (ls, w) \<Longrightarrow> rec_inv db v us \<Longrightarrow> rec_inv db w (us @ usages ls)"
proof (induction as arbitrary: v ls us)
  case (Cons a as)
  obtain l x ls' where s: "sv_step st sf uf a v = Some (l, x)" "sv_run st sf uf as x = Some (ls', w)" "ls = l # ls'"
    using Cons.prems(1) by (auto split: option.splits)
  show ?case using Cons.IH[OF s(2) rec_inv_step[OF s(1) Cons.prems(2)]] s(3) by simp
qed simp

lemma rec_inv_start: "rec_inv db (sv_start cfg metrics notify db bufSize workers) []"
  using r_inv_New[of db bufSize workers] by (simp add: rec_inv_def sv_start_def Let_def) (simp add: NewRecorder_def Let_def)

section \<open>The sessions' part\<close>

text \<open>What the background goroutine has still to write.\<close>

fun pending :: "bg_phase \<Rightarrow> Session list" where
  "pending (BgFlush ss) = ss"
| "pending p = []"

lemma covered_tables:
  "agent_sessions db = agent_sessions db' \<Longrightarrow> store_sessions.covered db pend i s = store_sessions.covered db' pend i s"
  by (simp add: store_sessions.covered_def store_sessions.stored_def find_session_def)

lemma synced_tables:
  "agent_sessions db = agent_sessions db' \<Longrightarrow> store_sessions.synced_with t db pend = store_sessions.synced_with t db' pend"
  using covered_tables unfolding store_sessions.synced_with_def by blast

text \<open>
  While the server serves, a session that is not marked dirty is stored, or its last state waits in
  the snapshot the background goroutine is writing.
\<close>

definition sess_inv :: "server_state \<Rightarrow> bool" where
  "sess_inv v \<longleftrightarrow> t_inv (sv_tracker v) \<and> distinct (map s_ID (pending (sv_bg v))) \<and>
    (sv_stop v = Serving \<or> sv_stop v = Closing \<longrightarrow>
      store_sessions.synced_with (sv_tracker v) (r_ledger (sv_recorder v)) (pending (sv_bg v)))"

lemma sess_inv_marks:
  assumes "sess_inv v" and "ev_ok e" and "\<And>ord. e \<noteq> Flush ord"
  shows "sess_inv (v\<lparr>sv_tracker := tk_step (sv_tracker v) e\<rparr>)"
  using assms tk_step_inv[of "sv_tracker v" e] marks_step[of e "sv_tracker v"]
    store_sessions.synced_with_step[of "sv_tracker v" "r_ledger (sv_recorder v)" "pending (sv_bg v)"]
  by (auto simp: sess_inv_def)

lemma sess_inv_take:
  assumes "sess_inv v" and "permutes ord" and "collect_dirty ord (sv_tracker v) = (ss, t)" and "sv_bg v = BgSelect"
  shows "sess_inv (v\<lparr>sv_tracker := t, sv_bg := BgFlush ss\<rparr>)" and "sess_inv (v\<lparr>sv_tracker := t, sv_stop := CloseFlush rs\<rparr>)"
proof -
  have inv: "t_inv (sv_tracker v)" using assms(1) by (simp add: sess_inv_def)
  have t: "t_inv t" using tk_step_inv[OF inv, of "Flush ord"] assms(2,3) by simp
  show "sess_inv (v\<lparr>sv_tracker := t, sv_bg := BgFlush ss\<rparr>)"
    using collect_dirty_ids[OF inv assms(2)] store_sessions.synced_with_collect[OF inv assms(2) _ assms(3)] t assms
    by (auto simp: sess_inv_def)
  show "sess_inv (v\<lparr>sv_tracker := t, sv_stop := CloseFlush rs\<rparr>)" using t assms(1) by (simp add: sess_inv_def)
qed

lemma sess_inv_step:
  assumes "sv_step st sf uf a v = Some (l, w)" and inv: "sess_inv v" and "action_ok a" and "no_errors l"
  shows "sess_inv w"
proof (cases a)
  case (Request e)
  then show ?thesis using assms sess_inv_marks[of v e] by (cases e) (auto split: if_splits)
next
  case (BgTick ord)
  then show ?thesis using assms sess_inv_take(1)[of v ord] by (auto split: if_splits prod.splits)
next
  case BgWrite
  then obtain s ss x where b: "sv_bg v = BgFlush (s # ss)" "sv_write st sf v s = (l, x)" "w = x\<lparr>sv_bg := BgFlush ss\<rparr>"
    using assms(1) by (auto split: bg_phase.splits list.splits prod.splits)
  from b(2) obtain db where d: "x = v\<lparr>sv_recorder := (sv_recorder v)\<lparr>r_ledger := db\<rparr>\<rparr>"
    "store_UpsertSession st (db_faults (sv_stop v) sf) (r_ledger (sv_recorder v)) s = (None, db)"
    using assms(4) by (elim sv_write_frame) blast
  show ?thesis
    using inv b(1) store_sessions.synced_with_write[OF d(2), of ss "sv_tracker v"] by (auto simp: sess_inv_def b(3) d(1))
next
  case BgFlushed
  then show ?thesis using assms by (auto simp: sess_inv_def split: if_splits)
next
  case (BgExpireIdle now)
  then show ?thesis using assms sess_inv_marks[of v "Expire now"] by (auto simp: sess_inv_def split: if_splits)
next
  case (BgDetect ord nows)
  then show ?thesis using assms sess_inv_marks[of v "Ghosts ord nows"] by (auto simp: sess_inv_def split: if_splits)
next
  case (CloseTake ord)
  then show ?thesis
    using assms tk_step_inv[of "sv_tracker v" "Flush ord"] by (auto simp: sess_inv_def split: if_splits prod.splits)
next
  case CloseWrite
  then show ?thesis using assms by (auto simp: sess_inv_def elim!: sv_write_frame split: stop_phase.splits list.splits prod.splits)
next
  case (Rec b)
  then have "sv_step st sf uf (Rec b) v = Some (l, w)" using assms(1) by simp
  then show ?thesis
  proof (rule sv_step_rec)
    fix l' assume w: "sv_stop w = sv_stop v" "sv_tracker w = sv_tracker v" "sv_bg w = sv_bg v"
      and r: "rstep (store_RecordUsage st (db_faults (sv_stop v) uf)) (sv_recorder v) l' (sv_recorder w)"
    show ?thesis using inv synced_tables[OF rstep_sessions[OF r]] by (simp add: sess_inv_def w)
  qed
qed (use assms in \<open>auto simp: sess_inv_def split: if_splits\<close>)

lemma sess_inv_start: "sess_inv (sv_start cfg metrics notify db bufSize workers)"
  by (simp add: sess_inv_def sv_start_def Let_def NewTracker_def SetAlertNotifier_def t_inv_def store_sessions.synced_def)

lemma sess_inv_run:
  "sv_run st sf uf as v = Some (ls, w) \<Longrightarrow> sess_inv v \<Longrightarrow> list_all action_ok as \<Longrightarrow> list_all no_errors ls \<Longrightarrow> sess_inv w"
proof (induction as arbitrary: v ls)
  case (Cons a as)
  obtain l x ls' where s: "sv_step st sf uf a v = Some (l, x)" "sv_run st sf uf as x = Some (ls', w)" "ls = l # ls'"
    using Cons.prems(1) by (auto split: option.splits)
  show ?case using Cons.IH[OF s(2) sess_inv_step[OF s(1) Cons.prems(2)]] s(3) Cons.prems(3,4) by simp
qed simp

text \<open>
  From the beginning of \<open>Close\<close> on, with the background goroutine at rest: every session that was in
  memory is covered by the final flush and then stored.
\<close>

definition kept :: "Tracker \<Rightarrow> database \<Rightarrow> Session list \<Rightarrow> bool" where
  "kept t db pend \<longleftrightarrow> (\<forall>i ts. map_of (t_sessions t) i = Some ts \<longrightarrow> store_sessions.covered db pend i (ts_session ts))"

lemma kept_tables: "agent_sessions db = agent_sessions db' \<Longrightarrow> kept t db pend = kept t db' pend"
  using covered_tables unfolding kept_def by blast

definition close_inv :: "Tracker \<Rightarrow> server_state \<Rightarrow> bool" where
  "close_inv t v \<longleftrightarrow>
    (case sv_stop v of
       Serving \<Rightarrow> False
     | Closing \<Rightarrow> sv_tracker v = t \<and> t_inv t \<and> store_sessions.synced t (r_ledger (sv_recorder v))
     | CloseFlush ss \<Rightarrow> distinct (map s_ID ss) \<and> kept t (r_ledger (sv_recorder v)) ss
     | _ \<Rightarrow> kept t (r_ledger (sv_recorder v)) [])"

lemma close_inv_step:
  assumes "sv_step st sf uf a v = Some (l, w)" and inv: "close_inv t v" and "action_ok a" "no_errors l" "\<not> is_background a"
  shows "close_inv t w"
proof (cases a)
  case (CloseTake ord)
  then obtain ss t' where c: "sv_stop v = Closing" "collect_dirty ord (sv_tracker v) = (ss, t')"
    "w = v\<lparr>sv_tracker := t', sv_stop := CloseFlush ss\<rparr>" using assms(1) by (auto split: if_splits prod.splits)
  then have t: "sv_tracker v = t" "t_inv t" "store_sessions.synced t (r_ledger (sv_recorder v))" using inv by (auto simp: close_inv_def)
  show ?thesis
    using store_sessions.covered_collect[OF t(2) _ t(3), of ord] collect_dirty_ids[OF t(2), of ord] assms(3) CloseTake c t(1)
    by (simp add: close_inv_def kept_def)
next
  case CloseWrite
  then obtain s ss x where b: "sv_stop v = CloseFlush (s # ss)" "sv_write st sf v s = (l, x)" "w = x\<lparr>sv_stop := CloseFlush ss\<rparr>"
    using assms(1) by (auto split: stop_phase.splits list.splits prod.splits)
  from b(2) obtain db where d: "x = v\<lparr>sv_recorder := (sv_recorder v)\<lparr>r_ledger := db\<rparr>\<rparr>"
    "store_UpsertSession st (db_faults (sv_stop v) sf) (r_ledger (sv_recorder v)) s = (None, db)"
    using assms(4) by (elim sv_write_frame) blast
  show ?thesis using inv b store_sessions.covered_write[OF d(2)] by (simp add: close_inv_def kept_def d(1))
next
  case (Rec b)
  then have "sv_step st sf uf (Rec b) v = Some (l, w)" using assms(1) by simp
  then show ?thesis
  proof (rule sv_step_rec)
    fix l' assume w: "sv_stop w = sv_stop v" "sv_tracker w = sv_tracker v"
      and r: "rstep (store_RecordUsage st (db_faults (sv_stop v) uf)) (sv_recorder v) l' (sv_recorder w)"
    show ?thesis
      using inv synced_tables[OF rstep_sessions[OF r], of t "[]"] kept_tables[OF rstep_sessions[OF r]]
      by (simp add: close_inv_def w split: stop_phase.splits)
  qed
qed (use assms in \<open>auto simp: close_inv_def split: if_splits stop_phase.splits\<close>)

lemma close_inv_run:
  "sv_run st sf uf as v = Some (ls, w) \<Longrightarrow> close_inv t v \<Longrightarrow> list_all action_ok as \<Longrightarrow> list_all no_errors ls \<Longrightarrow>
    list_all (\<lambda>a. \<not> is_background a) as \<Longrightarrow> close_inv t w"
proof (induction as arbitrary: v ls)
  case (Cons a as)
  obtain l x ls' where s: "sv_step st sf uf a v = Some (l, x)" "sv_run st sf uf as x = Some (ls', w)" "ls = l # ls'"
    using Cons.prems(1) by (auto split: option.splits)
  show ?case using Cons.IH[OF s(2) close_inv_step[OF s(1) Cons.prems(2)]] s(3) Cons.prems(3-5) by simp
qed simp

section \<open>A write that comes too late\<close>

text \<open>
  Whatever the goroutine at rest in a flush does after the store is closed: the row of a session that
  the final flush did not take stays as it was.
\<close>

definition late_inv :: "Tracker \<Rightarrow> string \<Rightarrow> Session option \<Rightarrow> server_state \<Rightarrow> bool" where
  "late_inv t i row v \<longleftrightarrow> find_session (r_ledger (sv_recorder v)) i = row \<and>
    (case sv_stop v of Serving \<Rightarrow> False | Closing \<Rightarrow> sv_tracker v = t | CloseFlush ss \<Rightarrow> i \<notin> s_ID ` set ss | _ \<Rightarrow> True)"

lemma find_tables: "agent_sessions db = agent_sessions db' \<Longrightarrow> find_session db i = find_session db' i"
  by (simp add: find_session_def)

lemma store_closed_write: "sv_stop v = StoreClosed \<Longrightarrow> sv_write st sf v s = (l, w) \<Longrightarrow> w = v"
  by (cases st) (auto simp: sv_write_def db_faults_def sqlite_UpsertSession_def pg_UpsertSession_def)

lemma collect_dirty_not:
  assumes "t_inv t" "permutes ord" "map_of (t_sessions t) i = Some ts" "\<not> dirty ts"
  shows "i \<notin> s_ID ` set (fst (collect_dirty ord t))"
proof
  assume "i \<in> s_ID ` set (fst (collect_dirty ord t))"
  then obtain j ts' where "(j, ts') \<in> set (t_sessions t)" "dirty ts'" "s_ID (ts_session ts') = i"
    using permutes_set[OF assms(2), of "t_sessions t"] by (auto simp: collect_dirty_def)
  then have "map_of (t_sessions t) i = Some ts'" using assms(1) by (auto simp: t_inv_def intro: map_of_is_SomeI)
  then show False using \<open>dirty ts'\<close> assms(3,4) by simp
qed

lemma late_inv_step:
  assumes "sv_step st sf uf a v = Some (l, w)" and inv: "late_inv t i row v" and "action_ok a"
    and "sv_stop v = StoreClosed \<or> \<not> is_background a" and t: "t_inv t" "map_of (t_sessions t) i = Some ts" "\<not> dirty ts"
  shows "late_inv t i row w"
proof (cases a)
  case BgWrite
  then obtain s ss x where b: "sv_write st sf v s = (l, x)" "w = x\<lparr>sv_bg := BgFlush ss\<rparr>" and c: "sv_stop v = StoreClosed"
    using assms(1,4) by (auto split: bg_phase.splits list.splits prod.splits)
  then show ?thesis using store_closed_write[OF c b(1)] inv by (simp add: late_inv_def)
next
  case (CloseTake ord)
  then show ?thesis
    using assms(1,3) inv collect_dirty_not[OF t(1) _ t(2,3), of ord] by (auto simp: late_inv_def split: if_splits prod.splits)
next
  case CloseWrite
  then obtain s ss x where b: "sv_stop v = CloseFlush (s # ss)" "sv_write st sf v s = (l, x)" "w = x\<lparr>sv_stop := CloseFlush ss\<rparr>"
    using assms(1) by (auto split: stop_phase.splits list.splits prod.splits)
  then have "i \<noteq> s_ID s" using inv by (auto simp: late_inv_def)
  then show ?thesis
    using b inv store_sessions.upsert_other[of st "db_faults (sv_stop v) sf" "r_ledger (sv_recorder v)" s _ _ i]
    by (auto simp: late_inv_def sv_write_def split: prod.splits)
next
  case (Rec b)
  then have "sv_step st sf uf (Rec b) v = Some (l, w)" using assms(1) by simp
  then show ?thesis
  proof (rule sv_step_rec)
    fix l' assume w: "sv_stop w = sv_stop v" "sv_tracker w = sv_tracker v"
      and r: "rstep (store_RecordUsage st (db_faults (sv_stop v) uf)) (sv_recorder v) l' (sv_recorder w)"
    show ?thesis using inv find_tables[OF rstep_sessions[OF r]] by (simp add: late_inv_def w split: stop_phase.splits)
  qed
qed (use assms(1,4) inv in \<open>auto simp: late_inv_def split: if_splits prod.splits stop_phase.splits\<close>)

lemma late_inv_run:
  assumes "t_inv t" "map_of (t_sessions t) i = Some ts" "\<not> dirty ts"
  shows "sv_run st sf uf as v = Some (ls, w) \<Longrightarrow> late_inv t i row v \<Longrightarrow> list_all action_ok as \<Longrightarrow>
    sv_stop v = StoreClosed \<or> list_all (\<lambda>a. \<not> is_background a) as \<Longrightarrow> late_inv t i row w"
proof (induction as arbitrary: v ls)
  case (Cons a as)
  obtain l x ls' where s: "sv_step st sf uf a v = Some (l, x)" "sv_run st sf uf as x = Some (ls', w)" "ls = l # ls'"
    using Cons.prems(1) by (auto split: option.splits)
  have "sv_stop v = StoreClosed \<Longrightarrow> sv_stop x = StoreClosed"
    using s(1) by (cases a) (auto simp: sv_write_def split: if_splits prod.splits bg_phase.splits list.splits)
  then show ?case
    using Cons.IH[OF s(2) late_inv_step[OF s(1) Cons.prems(2) _ _ assms]] Cons.prems(3,4) by auto
qed simp

section \<open>Properties\<close>

text \<open>
  C8. A clean stop loses nothing, on either store. While the server runs, requests, the background
  goroutine, which writes a snapshot of the changed sessions row by row, and the recorder's callers and
  workers are interleaved in any way. Then the tracker is closed, while that goroutine has nothing to
  write, and after it the recorder and the store. If the session store reported no error, every session that
  was in memory when the stop began can be read back with its final state; every usage record that was
  ever accepted has been handed to the ledger exactly once, and those it did not refuse are in the
  table.
\<close>

theorem shutdown_persists:
  assumes "sv_run st sf uf as (sv_start cfg metrics notify db bufSize workers) = Some (ls, v)"
    and "sv_stop v = Closing" and "pending (sv_bg v) = []"
    and "sv_run st sf uf as' v = Some (ls', w)" and "sv_stop w = StoreClosed" and "list_all (\<lambda>a. \<not> is_background a) as'"
    and "list_all action_ok (as @ as')" and "list_all no_errors (ls @ ls')"
  shows "(\<forall>i ts. map_of (t_sessions (sv_tracker v)) i = Some ts \<longrightarrow>
      (\<exists>s. store_GetSession st (r_ledger (sv_recorder w)) None i = Inr s \<and> progress s = progress (ts_session ts))) \<and>
    r_buf (sv_recorder w) = [] \<and>
    mset (hist written_of (usages (ls @ ls'))) = mset (hist accepted_of (usages (ls @ ls'))) \<and>
    mset (usage_records (r_ledger (sv_recorder w))) = mset (usage_records db) + mset (hist saved_of (usages (ls @ ls')))"
proof -
  have "rec_inv db w ([] @ usages ls @ usages ls')"
    using rec_inv_run[OF assms(4) rec_inv_run[OF assms(1) rec_inv_start[of db]]] by simp
  then have rec: "rec_inv db w (usages (ls @ ls'))" by simp
  then have fin: "r_buf (sv_recorder w) = []"
    "mset (hist written_of (usages (ls @ ls'))) = mset (hist accepted_of (usages (ls @ ls')))"
    using r_inv_finished[of "sv_recorder w" "usages (ls @ ls')"] assms(5) by (auto simp: rec_inv_def)
  have "sess_inv v" using sess_inv_run[OF assms(1) sess_inv_start] assms(7,8) by simp
  then have "close_inv (sv_tracker v) v" using assms(2,3) by (simp add: sess_inv_def close_inv_def)
  then have "close_inv (sv_tracker v) w" using close_inv_run[OF assms(4)] assms(6-8) by simp
  then have "\<forall>i ts. map_of (t_sessions (sv_tracker v)) i = Some ts \<longrightarrow>
      (\<exists>s. store_GetSession st (r_ledger (sv_recorder w)) None i = Inr s \<and> progress s = progress (ts_session ts))"
    using assms(5) by (simp add: close_inv_def kept_def store_sessions.stored_def find_GetSession)
  then show ?thesis using fin rec by (simp add: rec_inv_def)
qed

definition sample_track :: "time \<Rightarrow> sv_action" where
  "sample_track t = Request (Track id ''s'' ''a'' ''u'' ''t'' ''m'' ''/v1'' (t, t, t, t))"

definition stop_before :: "sv_action list" where
  "stop_before = [sample_track 1, Rec (RRecord sample_usage), BgTick id, sample_track 2, BgWrite, BgFlushed,
     BgExpireIdle 3, BgDetect id (\<lambda>_. 3), Rec (RWorker 0), BeginClose]"

definition stop_after :: "sv_action list" where
  "stop_after = [CloseTake id, Rec (RWorker 0), CloseWrite, CloseDone, Rec RClose, Rec (RWorker 0), Rec RWait, BgReturn, CloseStore]"

definition no_faults :: "'a \<Rightarrow> fault" where
  "no_faults x = None"

abbreviation quiet_run :: "store \<Rightarrow> sv_action list \<Rightarrow> server_state \<Rightarrow> (sv_label list \<times> server_state) option" where
  "quiet_run st \<equiv> sv_run st no_faults no_faults"

abbreviation sample_start :: server_state where
  "sample_start \<equiv> sv_start loop_cfg True False empty_db 1 1"

lemma sample_stop:
  "case quiet_run (Postgres 0) stop_before sample_start of
     None \<Rightarrow> False
   | Some (ls, v) \<Rightarrow> sv_stop v = Closing \<and> pending (sv_bg v) = [] \<and> list_all no_errors ls \<and>
       map_option (s_CallCount \<circ> ts_session) (map_of (t_sessions (sv_tracker v)) ''s'') = Some 2 \<and>
       (case quiet_run (Postgres 0) stop_after v of
          None \<Rightarrow> False
        | Some (ls', w) \<Rightarrow> sv_stop w = StoreClosed \<and> list_all no_errors ls' \<and> hist saved_of (usages (ls @ ls')) = [sample_usage])"
  by code_simp

theorem shutdown_persists_witness:
  "let (ls, v) = the (quiet_run (Postgres 0) stop_before sample_start); (ls', w) = the (quiet_run (Postgres 0) stop_after v)
   in map_option (s_CallCount \<circ> ts_session) (map_of (t_sessions (sv_tracker v)) ''s'') = Some 2 \<and>
     (\<exists>s. store_GetSession (Postgres 0) (r_ledger (sv_recorder w)) None ''s'' = Inr s \<and> s_CallCount s = 2) \<and>
     mset (usage_records (r_ledger (sv_recorder w))) = {#sample_usage#}"
proof -
  obtain ls v where r: "quiet_run (Postgres 0) stop_before sample_start = Some (ls, v)" "sv_stop v = Closing" "pending (sv_bg v) = []"
    "list_all no_errors ls" "map_option (s_CallCount \<circ> ts_session) (map_of (t_sessions (sv_tracker v)) ''s'') = Some 2"
    and rest: "case quiet_run (Postgres 0) stop_after v of None \<Rightarrow> False
      | Some (ls', w) \<Rightarrow> sv_stop w = StoreClosed \<and> list_all no_errors ls' \<and> hist saved_of (usages (ls @ ls')) = [sample_usage]"
    using sample_stop by (auto split: option.splits)
  then obtain ls' w where r': "quiet_run (Postgres 0) stop_after v = Some (ls', w)" "sv_stop w = StoreClosed" "list_all no_errors ls'"
    "hist saved_of (usages (ls @ ls')) = [sample_usage]" by (auto split: option.splits)
  obtain ts where ts: "map_of (t_sessions (sv_tracker v)) ''s'' = Some ts" "s_CallCount (ts_session ts) = 2" using r(5) by auto
  have "list_all (\<lambda>a. \<not> is_background a) stop_after" "list_all action_ok (stop_before @ stop_after)" "list_all no_errors (ls @ ls')"
    using r(4) r'(3) by (simp_all add: stop_before_def stop_after_def sample_track_def permutes_def)
  from shutdown_persists[OF r(1-3) r'(1,2) this]
  have res: "\<forall>i ts. map_of (t_sessions (sv_tracker v)) i = Some ts \<longrightarrow>
      (\<exists>s. store_GetSession (Postgres 0) (r_ledger (sv_recorder w)) None i = Inr s \<and> progress s = progress (ts_session ts))"
    "mset (usage_records (r_ledger (sv_recorder w))) = {#sample_usage#}"
    unfolding r'(4) by (simp_all add: empty_db_def)
  show ?thesis using res(1)[rule_format, OF ts(1)] res(2) ts r(5) unfolding r(1) r'(1) Let_def option.sel prod.case
    by (auto simp: progress_def)
qed

text \<open>
  The store is closed last. In every state the server can reach, whatever was interleaved and
  whatever failed, when the store has been closed the recorder is drained: no record waits or is being
  written, and every accepted one has been handed to the ledger exactly once, before the store was
  closed; the table holds those that were not refused.
\<close>

theorem store_closed_last:
  assumes "sv_run st sf uf as (sv_start cfg metrics notify db bufSize workers) = Some (ls, v)" and "sv_stop v = StoreClosed"
  shows "r_buf (sv_recorder v) = [] \<and> list_all (\<lambda>w. w = Returned) (r_workers (sv_recorder v)) \<and>
    mset (hist written_of (usages ls)) = mset (hist accepted_of (usages ls)) \<and>
    mset (usage_records (r_ledger (sv_recorder v))) = mset (usage_records db) + mset (hist saved_of (usages ls))"
proof -
  have "rec_inv db v ([] @ usages ls)" by (rule rec_inv_run[OF assms(1) rec_inv_start])
  then have inv: "r_inv (sv_recorder v) (usages ls)" "r_once (sv_recorder v) = Finished" "r_workers (sv_recorder v) \<noteq> []"
    "mset (usage_records (r_ledger (sv_recorder v))) = mset (usage_records db) + mset (hist saved_of (usages ls))"
    using assms(2) by (simp_all add: rec_inv_def)
  moreover have "list_all (\<lambda>w. w = Returned) (r_workers (sv_recorder v))" using inv(1,2) by (simp add: r_inv_def)
  ultimately show ?thesis using r_inv_finished[OF inv(1-3)] by blast
qed

theorem store_closed_last_witness:
  "let (ls, v) = the (quiet_run (SQLite 0) (stop_before @ stop_after) sample_start)
   in list_all (\<lambda>w. w = Returned) (r_workers (sv_recorder v)) \<and> mset (hist written_of (usages ls)) = {#sample_usage#}"
proof -
  have "case quiet_run (SQLite 0) (stop_before @ stop_after) sample_start of None \<Rightarrow> False
    | Some (ls, v) \<Rightarrow> sv_stop v = StoreClosed \<and> hist accepted_of (usages ls) = [sample_usage]" by code_simp
  then obtain ls v where r: "quiet_run (SQLite 0) (stop_before @ stop_after) sample_start = Some (ls, v)" "sv_stop v = StoreClosed"
    "hist accepted_of (usages ls) = [sample_usage]" by (auto split: option.splits)
  show ?thesis using store_closed_last[OF r(1,2)] r(3) unfolding r(1) Let_def option.sel prod.case by simp
qed

text \<open>
  C40. The stop does not wait for the background goroutine. When \<open>Close\<close> begins while that goroutine
  still has to write a session of its snapshot, and it is not scheduled again before the store is
  closed, the changes of the snapshot are lost: whatever happens afterwards, the row of the session
  stays what it was.
\<close>

theorem close_race_loses:
  assumes "sv_run st sf uf as (sv_start cfg metrics notify db bufSize workers) = Some (ls, v)"
    and "list_all action_ok as" and "list_all no_errors ls" and "sv_stop v = Closing"
    and "sv_bg v = BgFlush ss" and "s \<in> set ss" and "map_of (t_sessions (sv_tracker v)) (s_ID s) = Some ts" and "\<not> dirty ts"
    and "sv_run st sf uf as' v = Some (ls', w)" and "list_all action_ok as'" and "list_all (\<lambda>a. \<not> is_background a) as'"
    and "sv_stop w = StoreClosed" and "sv_run st sf uf as'' w = Some (ls'', x)" and "list_all action_ok as''"
  shows "progress s = progress (ts_session ts) \<and>
    find_session (r_ledger (sv_recorder x)) (s_ID s) = find_session (r_ledger (sv_recorder v)) (s_ID s)"
proof
  have inv: "sess_inv v" using sess_inv_run[OF assms(1) sess_inv_start] assms(2,3) by simp
  then have "store_sessions.covered (r_ledger (sv_recorder v)) ss (s_ID s) (ts_session ts)"
    using assms(4,5,7,8) by (auto simp: sess_inv_def store_sessions.synced_with_def)
  then obtain r where "r \<in> set ss" "s_ID r = s_ID s" "progress r = progress (ts_session ts)"
    using assms(6) by (auto simp: store_sessions.covered_def)
  moreover have "distinct (map s_ID ss)" using inv assms(5) by (simp add: sess_inv_def)
  ultimately show "progress s = progress (ts_session ts)" using assms(6) by (metis distinct_map inj_onD)
  note late = late_inv_run[OF _ assms(7,8), where row = "find_session (r_ledger (sv_recorder v)) (s_ID s)"]
  have t: "t_inv (sv_tracker v)" using inv by (simp add: sess_inv_def)
  have "late_inv (sv_tracker v) (s_ID s) (find_session (r_ledger (sv_recorder v)) (s_ID s)) v"
    using assms(4) by (simp add: late_inv_def)
  from late[OF t assms(13) late[OF t assms(9) this assms(10)] assms(14)]
  show "find_session (r_ledger (sv_recorder x)) (s_ID s) = find_session (r_ledger (sv_recorder v)) (s_ID s)"
    using assms(11,12) by (simp add: late_inv_def)
qed

definition race_before :: "sv_action list" where
  "race_before = [sample_track 1, BgTick id, BeginClose]"

definition race_stop :: "sv_action list" where
  "race_stop = [CloseTake id, CloseDone, Rec RClose, Rec (RWorker 0), Rec RWait, CloseStore]"

definition race_late :: "sv_action list" where
  "race_late = [BgWrite]"

lemma sample_race:
  "case quiet_run (SQLite 0) race_before sample_start of
     None \<Rightarrow> False
   | Some (ls, v) \<Rightarrow> list_all no_errors ls \<and> sv_stop v = Closing \<and> map s_ID (pending (sv_bg v)) = [''s''] \<and>
       map_option (\<lambda>ts. (dirty ts, s_CallCount (ts_session ts))) (map_of (t_sessions (sv_tracker v)) ''s'') = Some (False, 1) \<and>
       find_session (r_ledger (sv_recorder v)) ''s'' = None \<and>
       (case quiet_run (SQLite 0) race_stop v of
          None \<Rightarrow> False
        | Some (ls', w) \<Rightarrow> sv_stop w = StoreClosed \<and> quiet_run (SQLite 0) race_late w \<noteq> None)"
  by code_simp

theorem close_race_loses_witness:
  "let v = snd (the (quiet_run (SQLite 0) race_before sample_start)); w = snd (the (quiet_run (SQLite 0) race_stop v));
       x = snd (the (quiet_run (SQLite 0) race_late w))
   in map_option (s_CallCount \<circ> ts_session) (map_of (t_sessions (sv_tracker v)) ''s'') = Some 1 \<and>
     find_session (r_ledger (sv_recorder x)) ''s'' = None"
proof -
  obtain ls v where r: "quiet_run (SQLite 0) race_before sample_start = Some (ls, v)" "list_all no_errors ls" "sv_stop v = Closing"
    "map s_ID (pending (sv_bg v)) = [''s'']" "find_session (r_ledger (sv_recorder v)) ''s'' = None"
    "map_option (\<lambda>ts. (dirty ts, s_CallCount (ts_session ts))) (map_of (t_sessions (sv_tracker v)) ''s'') = Some (False, 1)"
    and rest: "case quiet_run (SQLite 0) race_stop v of None \<Rightarrow> False
      | Some (ls', w) \<Rightarrow> sv_stop w = StoreClosed \<and> quiet_run (SQLite 0) race_late w \<noteq> None"
    using sample_race by (auto split: option.splits)
  then obtain ls' w ls'' x where r': "quiet_run (SQLite 0) race_stop v = Some (ls', w)" "sv_stop w = StoreClosed"
    "quiet_run (SQLite 0) race_late w = Some (ls'', x)" by (auto split: option.splits)
  obtain s where s: "sv_bg v = BgFlush [s]" "s_ID s = ''s''" using r(4) by (cases "sv_bg v") auto
  obtain ts where ts: "map_of (t_sessions (sv_tracker v)) (s_ID s) = Some ts" "\<not> dirty ts" "s_CallCount (ts_session ts) = 1"
    using r(6) s(2) by auto
  have ok: "list_all action_ok race_before" "list_all action_ok race_stop" "list_all (\<lambda>a. \<not> is_background a) race_stop"
    "list_all action_ok race_late" "s \<in> set [s]"
    by (simp_all add: race_before_def race_stop_def race_late_def sample_track_def permutes_def)
  from close_race_loses[OF r(1) ok(1) r(2,3) s(1) ok(5) ts(1,2) r'(1) ok(2,3) r'(2,3) ok(4)]
  show ?thesis using r(5,6) s(2) ts unfolding Let_def r(1) r'(1,3) option.sel snd_conv by auto
qed

section \<open>The stop ends\<close>

text \<open>The steps of the stop: those of the deferred calls and of the workers.\<close>

fun is_stop :: "sv_action \<Rightarrow> bool" where
  "is_stop (CloseTake ord) \<longleftrightarrow> permutes ord"
| "is_stop CloseWrite \<longleftrightarrow> True"
| "is_stop CloseDone \<longleftrightarrow> True"
| "is_stop (Rec (RRecord x)) \<longleftrightarrow> False"
| "is_stop (Rec a) \<longleftrightarrow> True"
| "is_stop CloseStore \<longleftrightarrow> True"
| "is_stop a \<longleftrightarrow> False"

text \<open>What is left of it.\<close>

fun once_work :: "once \<Rightarrow> nat" where
  "once_work NotRun = 2"
| "once_work Running = 1"
| "once_work Finished = 0"

definition stop_work :: "server_state \<Rightarrow> nat" where
  "stop_work v =
    drain_work (sv_recorder v) + once_work (r_once (sv_recorder v)) +
    (case sv_stop v of
       Serving \<Rightarrow> 0
     | Closing \<Rightarrow> length (t_sessions (sv_tracker v)) + 3
     | CloseFlush ss \<Rightarrow> length ss + 2
     | TrackerClosed \<Rightarrow> 1
     | StoreClosed \<Rightarrow> 0)"

lemma drain_work_ledger [simp]: "drain_work (r\<lparr>r_ledger := db\<rparr>) = drain_work r" "drain_work (r\<lparr>r_once := x\<rparr>) = drain_work r"
  "drain_work (r\<lparr>ch_closed := b\<rparr>) = drain_work r"
  by (simp_all add: drain_work_def)

lemma collect_dirty_length: "permutes ord \<Longrightarrow> length (fst (collect_dirty ord t)) \<le> length (t_sessions t)"
proof -
  assume "permutes ord"
  then have "length (ord (t_sessions t)) = length (t_sessions t)" by (metis permutes_def size_mset)
  then show ?thesis using length_filter_le[of "\<lambda>(_, ts). dirty ts" "ord (t_sessions t)"] by (simp add: collect_dirty_def)
qed

lemma stop_step_less:
  assumes "sv_step st sf uf a v = Some (l, w)" and "is_stop a" and "sv_stop v \<noteq> Serving"
  shows "stop_work w < stop_work v \<and> sv_stop w \<noteq> Serving"
proof (cases a)
  case (CloseTake ord)
  then show ?thesis
    using assms collect_dirty_length[of ord "sv_tracker v"] by (auto simp: stop_work_def split: if_splits prod.splits)
next
  case CloseWrite
  then show ?thesis
    using assms(1) by (auto simp: stop_work_def elim!: sv_write_frame split: stop_phase.splits list.splits prod.splits)
next
  case (Rec b)
  show ?thesis
  proof (cases b)
    case (RWorker i)
    then obtain r where r: "worker_step (store_RecordUsage st (db_faults (sv_stop v) uf)) (sv_recorder v) i = Some r"
      "w = v\<lparr>sv_recorder := r\<rparr>" using assms(1) Rec by auto
    show ?thesis using worker_step_less[OF r(1)] worker_step_flags[OF r(1)] assms(3)
      by (simp add: stop_work_def r(2) split: stop_phase.split)
  qed (use assms Rec in \<open>auto simp: stop_work_def Close_begin_def Close_wait_def split: if_splits once.splits stop_phase.split\<close>)
qed (use assms in \<open>auto simp: stop_work_def split: if_splits\<close>)

lemma stop_run_less:
  "sv_run st sf uf as v = Some (ls, w) \<Longrightarrow> list_all is_stop as \<Longrightarrow> sv_stop v \<noteq> Serving \<Longrightarrow>
    length as + stop_work w \<le> stop_work v \<and> sv_stop w \<noteq> Serving"
proof (induction as arbitrary: v ls)
  case (Cons a as)
  obtain l x ls' where s: "sv_step st sf uf a v = Some (l, x)" "sv_run st sf uf as x = Some (ls', w)"
    using Cons.prems(1) by (auto split: option.splits)
  show ?case using Cons.IH[OF s(2)] stop_step_less[OF s(1)] Cons.prems(2,3) by fastforce
qed simp

lemma stop_not_stuck:
  assumes "r_inv (sv_recorder v) us" and "sv_stop v \<noteq> Serving" and "sv_stop v \<noteq> StoreClosed"
  shows "\<exists>a x. is_stop a \<and> sv_step st sf uf a v = Some x"
proof (cases "sv_stop v")
  case Closing
  then have "sv_step st sf uf (CloseTake id) v \<noteq> None" by (simp split: prod.split)
  then show ?thesis by (intro exI[of _ "CloseTake id"]) (auto simp: permutes_def)
next
  case (CloseFlush ss)
  show ?thesis
  proof (cases ss)
    case Nil
    then show ?thesis using CloseFlush by (intro exI[of _ CloseDone]) simp
  next
    case (Cons s ss')
    then show ?thesis using CloseFlush by (intro exI[of _ CloseWrite]) (simp split: prod.split)
  qed
next
  case TrackerClosed
  show ?thesis
  proof (cases "r_once (sv_recorder v)")
    case NotRun
    then show ?thesis using TrackerClosed by (intro exI[of _ "Rec RClose"]) (simp add: Close_begin_def)
  next
    case Running
    then have closed: "ch_closed (sv_recorder v)" using assms(1) by (simp add: r_inv_def)
    show ?thesis
    proof (cases "list_all (\<lambda>w. w = Returned) (r_workers (sv_recorder v))")
      case True
      then show ?thesis using Running by (intro exI[of _ "Rec RWait"]) (simp add: Close_wait_def)
    next
      case False
      obtain i r where "worker_step (store_RecordUsage st (db_faults (sv_stop v) uf)) (sv_recorder v) i = Some r"
        using worker_enabled[OF closed False] by blast
      then show ?thesis by (intro exI[of _ "Rec (RWorker i)"]) simp
    qed
  next
    case Finished
    then show ?thesis using TrackerClosed by (intro exI[of _ CloseStore]) simp
  qed
qed (use assms in auto)

text \<open>
  C9. The stop always ends. Whatever ran before and whatever the store refuses: once \<open>Close\<close> of the
  tracker has begun and no new records come, the deferred calls and the workers can take only as many
  steps, in whatever order they are scheduled, as there are sessions in memory and actions left to the
  workers, and five more; and as long as the store is not closed, one of them can take a step.
\<close>

theorem stop_terminates:
  assumes "sv_run st sf uf as (sv_start cfg metrics notify db bufSize workers) = Some (ls, v)" and "sv_stop v = Closing"
    and "sv_run st sf uf as' v = Some (ls', w)" and "list_all is_stop as'"
  shows "length as' \<le> length (t_sessions (sv_tracker v)) + drain_work (sv_recorder v) + 5 \<and>
    (sv_stop w = StoreClosed \<or> (\<exists>a x. is_stop a \<and> sv_step st sf uf a w = Some x))"
proof -
  have "once_work (r_once (sv_recorder v)) \<le> 2" by (cases "r_once (sv_recorder v)") simp_all
  then have "stop_work v \<le> length (t_sessions (sv_tracker v)) + drain_work (sv_recorder v) + 5"
    using assms(2) by (simp add: stop_work_def)
  moreover have less: "length as' + stop_work w \<le> stop_work v \<and> sv_stop w \<noteq> Serving"
    using stop_run_less[OF assms(3,4)] assms(2) by simp
  moreover have "rec_inv db w ([] @ usages ls @ usages ls')"
    using rec_inv_run[OF assms(3) rec_inv_run[OF assms(1) rec_inv_start[of db]]] by simp
  then have "sv_stop w = StoreClosed \<or> (\<exists>a x. is_stop a \<and> sv_step st sf uf a w = Some x)"
    using stop_not_stuck[of w] less by (auto simp: rec_inv_def)
  ultimately show ?thesis by simp
qed

definition stop_part :: "sv_action list" where
  "stop_part = [CloseTake id, Rec (RWorker 0), CloseWrite, CloseDone]"

theorem stop_terminates_witness:
  "let v = snd (the (quiet_run (SQLite 0) stop_before sample_start)); w = snd (the (quiet_run (SQLite 0) stop_part v))
   in sv_stop w = TrackerClosed \<and> length stop_part \<le> length (t_sessions (sv_tracker v)) + drain_work (sv_recorder v) + 5 \<and>
     (\<exists>a x. is_stop a \<and> sv_step (SQLite 0) no_faults no_faults a w = Some x)"
proof -
  have "case quiet_run (SQLite 0) stop_before sample_start of None \<Rightarrow> False
    | Some (ls, v) \<Rightarrow> sv_stop v = Closing \<and>
        (case quiet_run (SQLite 0) stop_part v of None \<Rightarrow> False | Some (ls', w) \<Rightarrow> sv_stop w = TrackerClosed)" by code_simp
  then obtain ls v ls' w where r: "quiet_run (SQLite 0) stop_before sample_start = Some (ls, v)" "sv_stop v = Closing"
    "quiet_run (SQLite 0) stop_part v = Some (ls', w)" "sv_stop w = TrackerClosed" by (auto split: option.splits)
  have stop: "list_all is_stop stop_part" by (simp add: stop_part_def permutes_def)
  show ?thesis using stop_terminates[OF r(1-3) stop] r(4) unfolding r(1,3) Let_def option.sel snd_conv by simp
qed

end
