(* ===== verification/Handlers.thy ===== *)
theory Handlers
  imports Shutdown Proxy
begin

text \<open>
  The requests of a running server: every handler of \<open>internal/proxy/proxy.go\<close> with its own progress,
  the background goroutine, the recorder and the stop of \<open>cmd/agentledger/serve.go\<close>, interleaved over
  one tracker, one recorder and one database.

  The handlers are those of \<open>Proxy\<close> and \<open>Streaming\<close>, unchanged; the rest of the server is \<open>Shutdown\<close>,
  whose steps the handlers' calls are shown to be.
\<close>

section \<open>Handlers\<close>

text \<open>
  A handler waits for the answer to the request it has sent, passes a stream on, or has returned.
\<close>

datatype handler =
    Awaiting req_context request
  | Passing streamInterceptor
  | Ended

text \<open>The tracker and the recorder are shared; the proxy holds references to them.\<close>

record 'enc live =
  lv_server :: server_state
  lv_proxy :: "('enc, database) proxy"
  lv_handlers :: "handler list"

text \<open>The store with the faults of its statements, the copy \<open>ReverseProxy\<close> makes, and \<open>url.Parse\<close>.\<close>

record surroundings =
  su_store :: store
  su_session_fault :: "Session \<Rightarrow> fault"
  su_usage_fault :: "UsageRecord \<Rightarrow> fault"
  su_outbound :: "request \<Rightarrow> request"
  su_parse_url :: "string \<Rightarrow> url option"

definition front :: "'enc live \<Rightarrow> ('enc, database) proxy" where
  "front a = (lv_proxy a)\<lparr>px_tracker := Some (sv_tracker (lv_server a)), px_recorder := sv_recorder (lv_server a)\<rparr>"

definition settle :: "('enc, database) proxy \<Rightarrow> handler list \<Rightarrow> 'enc live \<Rightarrow> 'enc live" where
  "settle p hs a =
    a\<lparr>lv_server := (lv_server a)\<lparr>sv_tracker := the (px_tracker p), sv_recorder := px_recorder p\<rparr>, lv_proxy := p, lv_handlers := hs\<rparr>"

text \<open>
  A request arrives and is checked; the upstream answers or fails; a stream is read or closed; the
  server stops serving, with \<open>Shutdown\<close> having waited for the handlers or not (it gives up after a
  minute, and is not called when the listener failed); the other parts take a step, among them a
  \<open>Record\<close> of the MCP proxy.
\<close>

datatype lv_action =
    Arrive serve_env request
  | Respond nat "string + response" "string option" string time
  | Pass nat stream_op
  | Stop bool
  | Step sv_action

datatype lv_label =
    LvChecked outcome
  | LvExchanged exchanged
  | LvBytes string
  | LvPanic string
  | LvServer sv_label

definition after_exchange :: "exchanged \<Rightarrow> handler" where
  "after_exchange x = (case x of Answered (Streamed resp s) \<Rightarrow> Passing s | _ \<Rightarrow> Ended)"

definition after_pass :: "stream_op \<Rightarrow> streamInterceptor \<Rightarrow> handler" where
  "after_pass op s = (case op of OpClose ulid now \<Rightarrow> Ended | OpRead chunk err ulid now \<Rightarrow> Passing s)"

fun is_server :: "sv_action \<Rightarrow> bool" where
  "is_server (Request e) \<longleftrightarrow> False"
| "is_server BeginClose \<longleftrightarrow> False"
| "is_server a \<longleftrightarrow> True"

abbreviation su_step :: "surroundings \<Rightarrow> sv_action \<Rightarrow> server_state \<Rightarrow> (sv_label \<times> server_state) option" where
  "su_step su \<equiv> sv_step (su_store su) (su_session_fault su) (su_usage_fault su)"

abbreviation su_run :: "surroundings \<Rightarrow> sv_action list \<Rightarrow> server_state \<Rightarrow> (sv_label list \<times> server_state) option" where
  "su_run su \<equiv> sv_run (su_store su) (su_session_fault su) (su_usage_fault su)"

text \<open>
  The checks of a request are one step: they use the tracker at most once and the recorder not at
  all. A panic ends its handler; \<open>net/http\<close> recovers it.
\<close>

fun live_step :: "surroundings \<Rightarrow> lv_action \<Rightarrow> 'enc live \<Rightarrow> (lv_label \<times> 'enc live) option" where
  "live_step su (Arrive env r) a =
    (if sv_stop (lv_server a) = Serving
     then (case ServeHTTP env (front a) r of (res, evs, p) \<Rightarrow>
       Some (LvChecked res, settle p (lv_handlers a @ (case res of Forwarded cx out \<Rightarrow> [Awaiting cx out] | Replied rep \<Rightarrow> [])) a))
     else None)"
| "live_step su (Respond i answer body_err ulid now) a =
    (if i < length (lv_handlers a)
     then (case lv_handlers a ! i of
         Awaiting cx r \<Rightarrow>
           (case exchange (su_outbound su) (su_parse_url su) (\<lambda>t _. (answer, t)) cx r body_err ulid now (front a, ()) of (x, p, _) \<Rightarrow>
              Some (LvExchanged x, settle p ((lv_handlers a)[i := after_exchange x]) a))
       | _ \<Rightarrow> None)
     else None)"
| "live_step su (Pass i op) a =
    (if i < length (lv_handlers a)
     then (case lv_handlers a ! i of
         Passing s \<Rightarrow>
           (case si_step (px_meter (lv_proxy a)) s op of (bytes, effs, m, s1) \<Rightarrow>
              (case apply_effects effs ((front a)\<lparr>px_meter := m\<rparr>) of
                 Inl err \<Rightarrow> Some (LvPanic err, settle ((front a)\<lparr>px_meter := m\<rparr>) ((lv_handlers a)[i := Ended]) a)
               | Inr p \<Rightarrow> Some (LvBytes bytes, settle p ((lv_handlers a)[i := after_pass op s1]) a)))
       | _ \<Rightarrow> None)
     else None)"
| "live_step su (Stop waited) a =
    (if waited \<and> \<not> list_all (\<lambda>h. h = Ended) (lv_handlers a) then None
     else map_option (\<lambda>(l, v). (LvServer l, a\<lparr>lv_server := v\<rparr>)) (su_step su BeginClose (lv_server a)))"
| "live_step su (Step act) a =
    (if is_server act then map_option (\<lambda>(l, v). (LvServer l, a\<lparr>lv_server := v\<rparr>)) (su_step su act (lv_server a)) else None)"

fun live_run :: "surroundings \<Rightarrow> lv_action list \<Rightarrow> 'enc live \<Rightarrow> (lv_label list \<times> 'enc live) option" where
  "live_run su [] a = Some ([], a)"
| "live_run su (x # xs) a =
    (case live_step su x a of
       None \<Rightarrow> None
     | Some (l, b) \<Rightarrow> map_option (\<lambda>(ls, c). (l # ls, c)) (live_run su xs b))"

definition live_start :: "agent_config \<Rightarrow> bool \<Rightarrow> bool \<Rightarrow> database \<Rightarrow> int \<Rightarrow> int \<Rightarrow> ('enc, database) proxy \<Rightarrow> 'enc live" where
  "live_start cfg metrics notify db bufSize workers p =
    \<lparr>lv_server = sv_start cfg metrics notify db bufSize workers, lv_proxy = p, lv_handlers = []\<rparr>"

section \<open>What the labels say\<close>

fun lv_errors :: "lv_label \<Rightarrow> string list" where
  "lv_errors (LvServer l) = errors_of l"
| "lv_errors l = []"

fun is_written :: "rlabel \<Rightarrow> bool" where
  "is_written (Written x err) \<longleftrightarrow> True"
| "is_written l \<longleftrightarrow> False"

fun lv_writes :: "lv_label \<Rightarrow> rlabel list" where
  "lv_writes (LvServer l) = filter is_written (usage_of l)"
| "lv_writes l = []"

fun panics :: "lv_label \<Rightarrow> bool" where
  "panics (LvExchanged (Panicked err)) \<longleftrightarrow> True"
| "panics (LvPanic err) \<longleftrightarrow> True"
| "panics l \<longleftrightarrow> False"

text \<open>An orderly action: loops go over the map in some order, and the stop waits for the handlers.\<close>

fun orderly :: "lv_action \<Rightarrow> bool" where
  "orderly (Arrive env r) \<longleftrightarrow> permutes (en_order env)"
| "orderly (Stop waited) \<longleftrightarrow> waited"
| "orderly (Step act) \<longleftrightarrow> action_ok act"
| "orderly x \<longleftrightarrow> True"

section \<open>The calls of the handlers are steps of the server\<close>

definition simulates :: "surroundings \<Rightarrow> server_state \<Rightarrow> rlabel list \<Rightarrow> string list \<Rightarrow> server_state \<Rightarrow> bool" where
  "simulates su v us es w \<longleftrightarrow>
    (\<exists>acts ls. su_run su acts v = Some (ls, w) \<and> list_all action_ok acts \<and> usages ls = us \<and> concat (map errors_of ls) = es)"

lemma simulates_refl: "simulates su v [] [] v"
  unfolding simulates_def by (rule exI[of _ "[]"]) simp

lemma simulates_trans:
  assumes "simulates su v us es w" and "simulates su w us' es' x"
  shows "simulates su v (us @ us') (es @ es') x"
proof -
  from assms obtain acts ls acts' ls' where r: "su_run su acts v = Some (ls, w)" "su_run su acts' w = Some (ls', x)"
    "list_all action_ok (acts @ acts')" "usages (ls @ ls') = us @ us'" "concat (map errors_of (ls @ ls')) = es @ es'"
    unfolding simulates_def by auto
  show ?thesis unfolding simulates_def using sv_run_append[OF r(1,2)] r(3-5) by blast
qed

lemma simulates_step:
  "su_step su act v = Some (l, w) \<Longrightarrow> action_ok act \<Longrightarrow> simulates su v (usage_of l) (errors_of l) w"
  unfolding simulates_def by (rule exI[of _ "[act]"]) simp

text \<open>What no request changes: the providers, the prices and the tenants.\<close>

definition same_parts :: "('enc, 'db) proxy \<Rightarrow> ('enc, 'db) proxy \<Rightarrow> bool" where
  "same_parts p q \<longleftrightarrow>
    px_registry q = px_registry p \<and> mt_pricing (px_meter q) = mt_pricing (px_meter p) \<and> px_resolver q = px_resolver p"

lemma same_parts_refl [simp]: "same_parts p p"
  by (simp add: same_parts_def)

lemma same_parts_trans: "same_parts p q \<Longrightarrow> same_parts q x \<Longrightarrow> same_parts p x"
  by (simp add: same_parts_def)

text \<open>The checks of a request.\<close>

lemma check_session_tracker:
  assumes "check_session env p ag sid u t e q path = (s, evs, p1)" and "px_tracker p = Some tr"
  shows "px_tracker p1 = Some tr \<or>
    (\<exists>ev. is_request ev \<and> (permutes (en_order env) \<longrightarrow> ev_ok ev) \<and> px_tracker p1 = Some (tk_step tr ev))"
proof (cases "t_Enabled tr \<and> sid \<noteq> ''''")
  case False
  then show ?thesis using assms by (auto simp: check_session_def)
next
  case on: True
  show ?thesis
  proof (cases e)
    case True
    then have "px_tracker p1 = Some (tk_step tr (End sid (en_end_clock env)))"
      using assms on by (auto simp: check_session_def split: prod.splits)
    then show ?thesis by (intro disjI2 exI[of _ "End sid (en_end_clock env)"]) simp
  next
    case False
    let ?ev = "Track (en_order env) sid ag u t (case q of None \<Rightarrow> '''' | Some q \<Rightarrow> rq_Model q) path (en_track_clocks env)"
    have "px_tracker p1 = Some (tk_step tr ?ev)"
      using assms on False by (auto simp: check_session_def split: prod.splits option.splits)
    then show ?thesis using on by (intro disjI2 exI[of _ ?ev]) simp
  qed
qed

lemma ServeHTTP_parts:
  assumes "ServeHTTP env p r = (res, evs, p1)" and "px_tracker p = Some tr"
  shows "px_recorder p1 = px_recorder p \<and> same_parts p p1 \<and>
    (px_tracker p1 = Some tr \<or>
     (\<exists>ev. is_request ev \<and> (permutes (en_order env) \<longrightarrow> ev_ok ev) \<and> px_tracker p1 = Some (tk_step tr ev)))"
proof (cases "Path r \<noteq> ''/health'' \<and> (\<exists>prov body. Detect (px_registry p) r = Some prov \<and> read_body env r = Inr body)")
  case False
  then have "p1 = p" using assms(1) by (auto simp: ServeHTTP_def split: if_splits option.splits sum.splits)
  then show ?thesis using assms(2) by simp
next
  case True
  then obtain prov body where pb: "Path r \<noteq> ''/health''" "Detect (px_registry p) r = Some prov" "read_body env r = Inr body"
    by blast
  define q where "q = pv_ParseRequest prov body"
  define k where "k = ExtractAPIKey r"
  define e where "e \<longleftrightarrow> header_Get (ReqHeader r) ''X-Agent-Session-End'' = ''true''"
  obtain ag sid u t where hd: "ExtractAgentHeaders r = (ag, sid, u, t)" by (cases "ExtractAgentHeaders r") auto
  obtain b ev1 q1 where c1: "check_blocklist env p k = (b, ev1, q1)" by (cases "check_blocklist env p k") auto
  obtain s ev2 q2 where c2: "check_session env q1 ag sid u t e q (Path r) = (s, ev2, q2)"
    by (cases "check_session env q1 ag sid u t e q (Path r)") auto
  obtain l ev3 q3 where c3: "check_limit env q2 k (HashAPIKey k) = (l, ev3, q3)"
    by (cases "check_limit env q2 k (HashAPIKey k)") auto
  obtain br c ev4 q4 where c4: "check_budget env q3 k (HashAPIKey k) (resolve_tenant q3 r) q = (br, c, ev4, q4)"
    by (cases "check_budget env q3 k (HashAPIKey k) (resolve_tenant q3 r) q") auto
  have in4: "p1 = q1 \<or> p1 = q2 \<or> p1 = q3 \<or> p1 = q4"
    using ServeHTTP_stages[OF pb q_def k_def refl hd e_def c1 c2 c3 c4] assms(1) by (auto split: option.splits)
  have f1: "q1 = p\<lparr>px_blocklist := px_blocklist q1\<rparr>" using check_blocklist_frame[of env p k] c1 by simp
  have f2: "q2 = q1\<lparr>px_tracker := px_tracker q2\<rparr>" using check_session_frame[of env q1 ag sid u t e q "Path r"] c2 by simp
  have f3: "q3 = q2\<lparr>px_limiter := px_limiter q3\<rparr>" using check_limit_frame[of env q2 k "HashAPIKey k"] c3 by simp
  have f4: "q4 = q3\<lparr>px_budget := px_budget q4\<rparr>" using c4 by (auto simp: check_budget_def split: option.splits prod.splits if_splits)
  define same :: "('a, 'b) proxy \<Rightarrow> bool"
    where "same x \<longleftrightarrow> px_recorder x = px_recorder p \<and> same_parts p x" for x
  have s1: "same q1" "px_tracker q1 = Some tr" by (subst f1, simp add: same_def same_parts_def assms(2))+
  have s2: "same q2" by (subst f2) (use s1 in \<open>simp add: same_def same_parts_def\<close>)
  have s3: "same q3" "px_tracker q3 = px_tracker q2" by (subst f3, use s2 in \<open>simp add: same_def same_parts_def\<close>)+
  have s4: "same q4" "px_tracker q4 = px_tracker q2" by (subst f4, use s3 in \<open>simp add: same_def same_parts_def\<close>)+
  show ?thesis using in4 s1 s2 s3 s4 check_session_tracker[OF c2 s1(2)] unfolding same_def by metis
qed

lemma front_fields [simp]:
  "px_tracker (front a) = Some (sv_tracker (lv_server a))" "px_recorder (front a) = sv_recorder (lv_server a)"
  "px_registry (front a) = px_registry (lv_proxy a)" "px_resolver (front a) = px_resolver (lv_proxy a)"
  "px_meter (front a) = px_meter (lv_proxy a)"
  by (simp_all add: front_def)

lemma same_front [simp]: "same_parts (front a) p = same_parts (lv_proxy a) p" "same_parts p (front a) = same_parts p (lv_proxy a)"
  by (simp_all add: same_parts_def)

lemma same_meter: "mt_pricing m = mt_pricing (px_meter q) \<Longrightarrow> same_parts p (q\<lparr>px_meter := m\<rparr>) = same_parts p q"
  "mt_pricing m = mt_pricing (px_meter q) \<Longrightarrow> same_parts (q\<lparr>px_meter := m\<rparr>) p = same_parts q p"
  by (simp_all add: same_parts_def)

lemma settle_fields [simp]:
  "lv_proxy (settle p hs a) = p" "lv_handlers (settle p hs a) = hs" "sv_stop (lv_server (settle p hs a)) = sv_stop (lv_server a)"
  by (simp_all add: settle_def)

lemma settle_same:
  "px_tracker p = Some (sv_tracker (lv_server a)) \<Longrightarrow> px_recorder p = sv_recorder (lv_server a) \<Longrightarrow>
    lv_server (settle p hs a) = lv_server a"
  by (simp add: settle_def)

text \<open>What a handler does to the recorder and to the tracker after an answer.\<close>

lemma usage_effects_steps:
  assumes "\<not> ch_closed (sv_recorder v)" and "px_tracker p = Some (sv_tracker v)" and "px_recorder p = sv_recorder v"
    and "sv_stop v = Serving"
  shows "\<exists>p1 acc. apply_effects (usage_effects ps streaming u) p = Inr p1 \<and> same_parts p p1 \<and>
    px_tracker p1 = Some (if with_tracker ps \<and> u_SessionID u \<noteq> ''''
      then RecordCost (sv_tracker v) (u_SessionID u) (u_CostUSD u) (u_TotalTokens u) else sv_tracker v) \<and>
    acc = (if length (r_buf (sv_recorder v)) < r_cap (sv_recorder v) then Accepted u else DroppedL u) \<and>
    simulates su v [acc] [] (v\<lparr>sv_tracker := the (px_tracker p1), sv_recorder := px_recorder p1\<rparr>)"
proof -
  obtain rec where rec: "Record (sv_recorder v) u = Inr rec" using assms(1) by (cases "length (r_buf (sv_recorder v)) < r_cap (sv_recorder v)") (auto simp: Record_def)
  define acc where "acc = (if length (r_buf (sv_recorder v)) < r_cap (sv_recorder v) then Accepted u else DroppedL u)"
  let ?v1 = "v\<lparr>sv_recorder := rec\<rparr>"
  have s1: "simulates su v [acc] [] ?v1"
    using simulates_step[of su "Rec (RRecord u)" v "SvUsage acc" ?v1] rec by (simp add: acc_def)
  show ?thesis
  proof (cases "with_tracker ps \<and> u_SessionID u \<noteq> ''''")
    case False
    then show ?thesis using s1 assms(2,3) rec by (auto simp: usage_effects_def acc_def[symmetric] same_parts_def)
  next
    case True
    let ?t = "RecordCost (sv_tracker v) (u_SessionID u) (u_CostUSD u) (u_TotalTokens u)"
    have swap: "?v1\<lparr>sv_tracker := ?t\<rparr> = v\<lparr>sv_tracker := ?t, sv_recorder := rec\<rparr>" by (cases v) simp
    have "simulates su ?v1 [] [] (v\<lparr>sv_tracker := ?t, sv_recorder := rec\<rparr>)"
      using simulates_step[of su "Request (Cost (u_SessionID u) (u_CostUSD u) (u_TotalTokens u))" ?v1 "SvErrors []"] assms(4) by (simp add: swap)
    from simulates_trans[OF s1 this] show ?thesis
      using True assms(2,3) rec by (auto simp: usage_effects_def acc_def[symmetric] same_parts_def)
  qed
qed

lemma modifyResponse_effects:
  "modifyResponse ps pr cx path body_err ulid now resp = (effs, d) \<Longrightarrow> effs = [] \<or> (\<exists>u. effs = usage_effects ps False u)"
  by (auto simp: modifyResponse_def Let_def split: if_splits option.splits)

lemma finalize_effects:
  "finalize m s ulid now = (effs, m1, s1) \<Longrightarrow> effs = [] \<or> (\<exists>u. effs = usage_effects (si_parts s) True u)"
  by (auto simp: finalize_def Let_def split: if_splits prod.splits)

lemma si_step_effects:
  assumes "si_step m s op = (bytes, effs, m1, s1)"
  shows "effs = [] \<or> (\<exists>u. effs = usage_effects (si_parts s) True u)"
proof (cases op)
  case (OpRead chunk err ulid now)
  define s0 where "s0 = (if chunk \<noteq> [] then processEvents (s\<lparr>parseBuf := parseBuf s @ chunk\<rparr>) else s)"
  have "si_parts s0 = si_parts s" by (simp add: s0_def processEvents_keeps)
  then show ?thesis
    using assms OpRead finalize_effects[of m s0 ulid now effs m1 s1]
    by (auto simp: si_Read_def Let_def s0_def[symmetric] split: if_splits)
qed (use assms in \<open>auto simp: si_Close_def dest!: finalize_effects\<close>)

lemma CountTokens_pricing: "EstimateTokens m model text = (n, m1) \<Longrightarrow> mt_pricing m1 = mt_pricing m"
  by (auto simp: EstimateTokens_def split: prod.splits)

lemma si_step_pricing: "si_step m s op = (bytes, effs, m1, s1) \<Longrightarrow> mt_pricing m1 = mt_pricing m"
  by (cases op)
     (auto simp: si_Read_def si_Close_def finalize_def final_output_def Let_def dest!: CountTokens_pricing split: if_splits prod.splits)

section \<open>The simulation\<close>

text \<open>
  While handlers are at work the server serves and the channel is open, if the stops wait; and a
  waiting handler's context is that of its request.
\<close>

definition context_of :: "('enc, 'db) proxy \<Rightarrow> handler \<Rightarrow> bool" where
  "context_of p h \<longleftrightarrow>
    (case h of
       Awaiting cx r \<Rightarrow> Detect (px_registry p) r = Some (cx_Provider cx) \<and> cx_APIKeyHash cx = HashAPIKey (ExtractAPIKey r) \<and>
         cx_TenantID cx = resolve_tenant p r \<and>
         (cx_AgentID cx, cx_SessionID cx, cx_UserID cx, cx_Task cx) = ExtractAgentHeaders r
     | _ \<Rightarrow> True)"

lemma same_context: "same_parts p q \<Longrightarrow> context_of q h = context_of p h"
  by (simp add: context_of_def same_parts_def resolve_tenant_def split: handler.split)

definition live_ok :: "('enc, database) proxy \<Rightarrow> 'enc live \<Rightarrow> bool" where
  "live_ok p0 a \<longleftrightarrow>
    (sv_stop (lv_server a) \<noteq> Serving \<longrightarrow> list_all (\<lambda>h. h = Ended) (lv_handlers a)) \<and>
    (sv_stop (lv_server a) \<noteq> TrackerClosed \<and> sv_stop (lv_server a) \<noteq> StoreClosed \<longrightarrow> \<not> ch_closed (sv_recorder (lv_server a))) \<and>
    same_parts p0 (lv_proxy a) \<and> list_all (context_of p0) (lv_handlers a)"

lemma live_ok_start: "live_ok p (live_start cfg metrics notify db bufSize workers p)"
  by (simp add: live_ok_def live_start_def sv_start_def NewRecorder_def Let_def)

lemma r_exec_closed: "r_exec save b r = Some (l, r') \<Longrightarrow> b \<noteq> RClose \<Longrightarrow> ch_closed r' = ch_closed r"
  by (cases b) (auto simp: Record_def worker_step_def Close_wait_def split: if_splits worker.splits list.splits once.splits)

lemma sv_step_channel:
  assumes "su_step su act v = Some (l, w)" and "sv_stop v \<noteq> TrackerClosed \<and> sv_stop v \<noteq> StoreClosed \<longrightarrow> \<not> ch_closed (sv_recorder v)"
  shows "(sv_stop w \<noteq> TrackerClosed \<and> sv_stop w \<noteq> StoreClosed \<longrightarrow> \<not> ch_closed (sv_recorder w)) \<and>
    (act \<noteq> BeginClose \<longrightarrow> sv_stop v = Serving \<longrightarrow> sv_stop w = Serving) \<and> (sv_stop v \<noteq> Serving \<longrightarrow> sv_stop w \<noteq> Serving)"
proof (cases act)
  case (Rec b)
  then show ?thesis
    using assms by (cases "b = RClose") (auto split: if_splits dest!: r_exec_closed)
qed (use assms in \<open>auto elim!: sv_write_frame split: if_splits prod.splits bg_phase.splits stop_phase.splits list.splits\<close>)

lemma ServeHTTP_context:
  assumes "ServeHTTP env p r = (Forwarded cx r', evs, p1)"
  shows "context_of p (Awaiting cx r')"
proof -
  have "Path r \<noteq> ''/health''" "\<exists>prov. Detect (px_registry p) r = Some prov" "\<exists>body. read_body env r = Inr body"
    using assms by (auto simp: ServeHTTP_def split: if_splits option.splits sum.splits)
  then show ?thesis
    using ServeHTTP_result[of r p _ env] assms by (auto simp: context_of_def resolve_tenant_def)
qed

lemma handlers_update: "list_all P xs \<Longrightarrow> P y \<Longrightarrow> list_all P (xs[i := y])"
  using set_update_subset_insert[of xs i y] by (auto simp: list_all_iff)

lemma live_ok_busy:
  assumes "live_ok p0 a" and "i < length (lv_handlers a)" and "lv_handlers a ! i \<noteq> Ended"
  shows "sv_stop (lv_server a) = Serving" and "\<not> ch_closed (sv_recorder (lv_server a))"
  using assms by (auto simp: live_ok_def list_all_length)

text \<open>A handler's step that is a few calls of the server's parts keeps everything else.\<close>

lemma live_ok_settle:
  assumes "live_ok p0 a" and "sv_stop (lv_server a) = Serving" and "\<not> ch_closed (px_recorder p)"
    and "same_parts p0 p" and "list_all (context_of p0) hs"
  shows "live_ok p0 (settle p hs a)"
  using assms by (simp add: live_ok_def settle_def)

lemma simulates_channel:
  assumes "simulates su v us es w" and "sv_stop v = Serving" and "sv_stop w = Serving" and "\<not> ch_closed (sv_recorder v)"
  shows "\<not> ch_closed (sv_recorder w)"
proof -
  have "su_run su acts v = Some (ls, w) \<Longrightarrow> sv_stop v \<noteq> TrackerClosed \<and> sv_stop v \<noteq> StoreClosed \<longrightarrow> \<not> ch_closed (sv_recorder v) \<Longrightarrow>
    sv_stop w \<noteq> TrackerClosed \<and> sv_stop w \<noteq> StoreClosed \<longrightarrow> \<not> ch_closed (sv_recorder w)" for acts ls v
  proof (induction acts arbitrary: v ls)
    case (Cons act acts)
    obtain l x ls' where s: "su_step su act v = Some (l, x)" "su_run su acts x = Some (ls', w)"
      using Cons.prems(1) by (auto split: option.splits)
    show ?case using Cons.IH[OF s(2)] sv_step_channel[OF s(1) Cons.prems(2)] by blast
  qed simp
  then show ?thesis using assms by (auto simp: simulates_def)
qed

lemma exchange_steps:
  assumes "exchange outbound parse_url (\<lambda>t _. (answer, t)) cx r body_err ulid now (front a, ()) = (x, p, t)"
    and "sv_stop (lv_server a) = Serving" and "\<not> ch_closed (sv_recorder (lv_server a))"
  shows "\<not> panics (LvExchanged x) \<and> same_parts (lv_proxy a) p \<and>
    (\<exists>us. simulates su (lv_server a) us [] (lv_server (settle p hs a)) \<and> filter is_written us = [])"
proof -
  have same: "\<exists>us. simulates su (lv_server a) us [] (lv_server (settle (front a) hs a)) \<and> filter is_written us = []"
    using simulates_refl[of su "lv_server a"] by (intro exI[of _ "[]"]) (simp add: settle_same)
  show ?thesis
  proof (cases answer)
    case (Inl err)
    then show ?thesis using assms(1) same by (auto simp: exchange_def Let_def)
  next
    case (Inr resp)
    define path where "path = Path (rewrite parse_url cx (outbound r))"
    obtain effs d where m: "modifyResponse (px_parts (front a)) (mt_pricing (px_meter (front a))) cx path body_err ulid now resp = (effs, d)"
      by fastforce
    show ?thesis
    proof (cases "effs = []")
      case True
      then show ?thesis using assms(1) same Inr m by (auto simp: exchange_def Let_def path_def)
    next
      case False
      then obtain u where u: "effs = usage_effects (px_parts (front a)) False u" using modifyResponse_effects[OF m] by blast
      obtain p1 acc where e: "apply_effects effs (front a) = Inr p1" "same_parts (lv_proxy a) p1"
        "acc = (if length (r_buf (sv_recorder (lv_server a))) < r_cap (sv_recorder (lv_server a)) then Accepted u else DroppedL u)"
        "simulates su (lv_server a) [acc] [] ((lv_server a)\<lparr>sv_tracker := the (px_tracker p1), sv_recorder := px_recorder p1\<rparr>)"
        using usage_effects_steps[of "lv_server a" "front a" "px_parts (front a)" False u su] assms(2,3) u by auto
      have "x = Answered d" "p = p1" using assms(1) Inr m e(1) by (auto simp: exchange_def Let_def path_def)
      then show ?thesis using e(2-4) by (auto simp: settle_def hist_def intro!: exI[of _ "[acc]"])
    qed
  qed
qed

lemma pass_steps:
  assumes "si_step (px_meter (lv_proxy a)) s op = (bytes, effs, m, s1)"
    and "sv_stop (lv_server a) = Serving" and "\<not> ch_closed (sv_recorder (lv_server a))"
  shows "\<exists>p us. apply_effects effs ((front a)\<lparr>px_meter := m\<rparr>) = Inr p \<and> same_parts (lv_proxy a) p \<and>
    simulates su (lv_server a) us [] (lv_server (settle p hs a)) \<and> filter is_written us = []"
proof (cases "effs = []")
  case True
  then show ?thesis
    using si_step_pricing[OF assms(1)] simulates_refl[of su "lv_server a"]
    by (intro exI[of _ "(front a)\<lparr>px_meter := m\<rparr>"] exI[of _ "[]"]) (simp add: settle_same same_meter)
next
  case False
  then obtain u where u: "effs = usage_effects (si_parts s) True u" using si_step_effects[OF assms(1)] by blast
  obtain p1 acc where e: "apply_effects effs ((front a)\<lparr>px_meter := m\<rparr>) = Inr p1" "same_parts (lv_proxy a) p1"
    "acc = (if length (r_buf (sv_recorder (lv_server a))) < r_cap (sv_recorder (lv_server a)) then Accepted u else DroppedL u)"
    "simulates su (lv_server a) [acc] [] ((lv_server a)\<lparr>sv_tracker := the (px_tracker p1), sv_recorder := px_recorder p1\<rparr>)"
    using usage_effects_steps[of "lv_server a" "(front a)\<lparr>px_meter := m\<rparr>" "si_parts s" True u su] assms(2,3) u
      si_step_pricing[OF assms(1)] by (auto simp: same_meter)
  then show ?thesis by (intro exI[of _ p1] exI[of _ "[acc]"]) (auto simp: settle_def)
qed

lemma live_step_simulates:
  assumes "live_step su x a = Some (l, b)" and "live_ok p0 a" and "orderly x"
  shows "\<not> panics l \<and> live_ok p0 b \<and>
    (\<exists>us. simulates su (lv_server a) us (lv_errors l) (lv_server b) \<and> filter is_written us = lv_writes l)"
proof (cases x)
  case (Arrive env r)
  then have srv: "sv_stop (lv_server a) = Serving" using assms(1) by (auto split: if_splits)
  obtain out evs p where sv: "ServeHTTP env (front a) r = (out, evs, p)" by (cases "ServeHTTP env (front a) r") auto
  define hs where "hs = lv_handlers a @ (case out of Forwarded cx r' \<Rightarrow> [Awaiting cx r'] | Replied rep \<Rightarrow> [])"
  have b: "l = LvChecked out" "b = settle p hs a" using assms(1) Arrive srv sv by (auto simp: hs_def)
  note pt = ServeHTTP_parts[OF sv front_fields(1)]
  have res: "same_parts p0 (lv_proxy a)" "\<not> ch_closed (sv_recorder (lv_server a))" "list_all (context_of p0) (lv_handlers a)"
    using assms(2) srv by (simp_all add: live_ok_def)
  have "list_all (context_of p0) hs" using ServeHTTP_context[of env "front a" r] sv res same_context[of p0 "front a"]
    by (auto simp: hs_def split: outcome.split)
  then have ok: "live_ok p0 b" unfolding b(2) by (intro live_ok_settle[OF assms(2) srv]) (use pt res in \<open>auto intro: same_parts_trans\<close>)
  have "simulates su (lv_server a) [] [] (lv_server b)"
  proof (cases "px_tracker p = Some (sv_tracker (lv_server a))")
    case True
    then show ?thesis using pt simulates_refl by (simp add: b(2) settle_same)
  next
    case False
    then obtain ev where ev: "is_request ev" "ev_ok ev" "px_tracker p = Some (tk_step (sv_tracker (lv_server a)) ev)"
      using pt assms(3) Arrive by auto
    then have "su_step su (Request ev) (lv_server a) = Some (SvErrors [], lv_server b)"
      using pt srv by (simp add: b(2) settle_def)
    from simulates_step[OF this] ev(2) show ?thesis by simp
  qed
  then show ?thesis using ok b(1) by (auto intro!: exI[of _ "[]"])
next
  case (Respond i answer body_err ulid now)
  obtain cx r where h: "i < length (lv_handlers a)" "lv_handlers a ! i = Awaiting cx r"
    using assms(1) Respond by (auto split: if_splits handler.splits)
  obtain y p t where ex: "exchange (su_outbound su) (su_parse_url su) (\<lambda>t _. (answer, t)) cx r body_err ulid now (front a, ()) = (y, p, t)"
    by (metis prod_cases3)
  define hs where "hs = (lv_handlers a)[i := after_exchange y]"
  have b: "l = LvExchanged y" "b = settle p hs a" using assms(1) Respond h ex by (auto simp: hs_def)
  note busy = live_ok_busy[OF assms(2) h(1)]
  have srv: "sv_stop (lv_server a) = Serving" "\<not> ch_closed (sv_recorder (lv_server a))" using busy h(2) by simp_all
  obtain us where us: "\<not> panics l" "same_parts (lv_proxy a) p" "simulates su (lv_server a) us [] (lv_server b)"
    "filter is_written us = []" using exchange_steps[OF ex srv] unfolding b by blast
  have "list_all (context_of p0) hs" unfolding hs_def using assms(2)
    by (intro handlers_update) (auto simp: live_ok_def after_exchange_def context_of_def split: exchanged.split delivered.split)
  moreover have "\<not> ch_closed (px_recorder p)"
    using simulates_channel[OF us(3) srv(1) _ srv(2)] srv(1) by (simp add: b(2) settle_def)
  ultimately have "live_ok p0 b" unfolding b(2) using us(2) assms(2)
    by (intro live_ok_settle[OF assms(2) srv(1)]) (auto simp: live_ok_def intro: same_parts_trans)
  then show ?thesis using us by (auto simp: b(1))
next
  case (Pass i op)
  obtain s where h: "i < length (lv_handlers a)" "lv_handlers a ! i = Passing s"
    using assms(1) Pass by (auto split: if_splits handler.splits)
  obtain bytes effs m s1 where st: "si_step (px_meter (lv_proxy a)) s op = (bytes, effs, m, s1)"
    by (metis prod_cases4)
  define hs where "hs = (lv_handlers a)[i := after_pass op s1]"
  note busy = live_ok_busy[OF assms(2) h(1)]
  have srv: "sv_stop (lv_server a) = Serving" "\<not> ch_closed (sv_recorder (lv_server a))" using busy h(2) by simp_all
  obtain p us where us: "apply_effects effs ((front a)\<lparr>px_meter := m\<rparr>) = Inr p" "same_parts (lv_proxy a) p"
    "simulates su (lv_server a) us [] (lv_server (settle p hs a))" "filter is_written us = []"
    using pass_steps[OF st srv] by blast
  have b: "l = LvBytes bytes" "b = settle p hs a" using assms(1) Pass h st us(1) by (auto simp: hs_def)
  have "list_all (context_of p0) hs" unfolding hs_def using assms(2)
    by (intro handlers_update) (auto simp: live_ok_def after_pass_def context_of_def split: stream_op.split)
  moreover have "\<not> ch_closed (px_recorder p)"
    using simulates_channel[OF us(3) srv(1) _ srv(2)] srv(1) by (simp add: settle_def)
  ultimately have "live_ok p0 b" unfolding b(2) using us(2) assms(2)
    by (intro live_ok_settle[OF assms(2) srv(1)]) (auto simp: live_ok_def intro: same_parts_trans)
  then show ?thesis using us by (auto simp: b)
next
  case (Stop waited)
  then obtain l' v where st: "su_step su BeginClose (lv_server a) = Some (l', v)" "l = LvServer l'" "b = a\<lparr>lv_server := v\<rparr>"
    and e: "list_all (\<lambda>h. h = Ended) (lv_handlers a)" using assms(1,3) by (auto split: if_splits)
  have "live_ok p0 b" using assms(2) st e by (auto simp: live_ok_def split: if_splits)
  then show ?thesis using simulates_step[OF st(1)] by (auto simp: st(2,3))
next
  case (Step act)
  then obtain l' v where st: "su_step su act (lv_server a) = Some (l', v)" "l = LvServer l'" "b = a\<lparr>lv_server := v\<rparr>" "is_server act"
    using assms(1) by (auto split: if_splits)
  have "live_ok p0 b" using assms(2) sv_step_channel[OF st(1)] st(3,4) by (auto simp: live_ok_def)
  then show ?thesis using simulates_step[OF st(1)] assms(3) Step by (auto simp: st(2,3))
qed

lemma live_run_simulates:
  "live_run su xs a = Some (ls, b) \<Longrightarrow> live_ok p0 a \<Longrightarrow> list_all orderly xs \<Longrightarrow>
    list_all (\<lambda>l. \<not> panics l) ls \<and> live_ok p0 b \<and>
    (\<exists>us. simulates su (lv_server a) us (concat (map lv_errors ls)) (lv_server b) \<and> filter is_written us = concat (map lv_writes ls))"
proof (induction xs arbitrary: a ls)
  case Nil
  then show ?case using simulates_refl by (auto intro!: exI[of _ "[]"])
next
  case (Cons x xs)
  obtain l c ls' where s: "live_step su x a = Some (l, c)" "live_run su xs c = Some (ls', b)" "ls = l # ls'"
    using Cons.prems(1) by (auto split: option.splits)
  obtain us where l: "\<not> panics l" "live_ok p0 c" "simulates su (lv_server a) us (lv_errors l) (lv_server c)"
    "filter is_written us = lv_writes l" using live_step_simulates[OF s(1) Cons.prems(2)] Cons.prems(3) by auto
  obtain us' where ls: "list_all (\<lambda>l. \<not> panics l) ls'" "live_ok p0 b"
    "simulates su (lv_server c) us' (concat (map lv_errors ls')) (lv_server b)"
    "filter is_written us' = concat (map lv_writes ls')" using Cons.IH[OF s(2) l(2)] Cons.prems(3) by auto
  show ?case using simulates_trans[OF l(3) ls(3)] l(1,4) ls(1,2,4) s(3) by (auto intro!: exI[of _ "us @ us'"])
qed

lemma lv_writes_label: "Written u err \<in> set (lv_writes l) \<longleftrightarrow> l = LvServer (SvUsage (Written u err))"
proof (cases l)
  case (LvServer x)
  then show ?thesis by (cases x) auto
qed auto

lemma simulates_rec_inv: "simulates su v us es w \<Longrightarrow> rec_inv db v us0 \<Longrightarrow> rec_inv db w (us0 @ us)"
  unfolding simulates_def using rec_inv_run by blast

lemma hist_writes: "hist written_of (filter is_written us) = hist written_of us" "hist saved_of (filter is_written us) = hist saved_of us"
proof -
  have "written_of l = [] \<and> saved_of l = []" if "\<not> is_written l" for l using that by (cases l) auto
  then show "hist written_of (filter is_written us) = hist written_of us" "hist saved_of (filter is_written us) = hist saved_of us"
    by (induction us) (auto simp: hist_def)
qed

text \<open>
  A record that is accepted now is handed to the ledger later, before the store is closed.
\<close>

lemma accepted_is_written:
  assumes "rec_inv db v us" and "simulates su v [Accepted u] es w" and "simulates su w us' es' z" and "sv_stop z = StoreClosed"
  shows "\<exists>err. Written u err \<in> set (filter is_written us') \<and> (err = None \<longrightarrow> u \<in> set (usage_records (r_ledger (sv_recorder z))))"
proof -
  have z: "rec_inv db z (us @ [Accepted u] @ us')"
    using simulates_rec_inv[OF assms(3) simulates_rec_inv[OF assms(2,1)]] by simp
  then have "r_inv (sv_recorder z) (us @ [Accepted u] @ us')" "r_once (sv_recorder z) = Finished" "r_workers (sv_recorder z) \<noteq> []"
    using assms(4) by (simp_all add: rec_inv_def)
  from r_inv_finished(2)[OF this] have fin: "mset (hist written_of us) + mset (hist written_of us') =
    mset (hist accepted_of us) + {#u#} + mset (hist accepted_of us')" by (simp add: hist_def)
  have "mset (hist accepted_of us) = mset (hist written_of us) + flying (r_workers (sv_recorder v)) + mset (r_buf (sv_recorder v))"
    using assms(1) by (simp add: rec_inv_def r_inv_def)
  then have "mset (hist written_of us') = flying (r_workers (sv_recorder v)) + mset (r_buf (sv_recorder v)) + {#u#} + mset (hist accepted_of us')"
    using fin by simp
  then have "u \<in># mset (hist written_of us')" by simp
  then have "u \<in> set (hist written_of us')" by simp
  then obtain l where l: "l \<in> set us'" "u \<in> set (written_of l)" by (auto simp: hist_def)
  obtain err where err: "l = Written u err" by (cases l) (use l(2) in auto)
  have "err = None \<Longrightarrow> u \<in> set (hist saved_of us')" using l(1) err by (force simp: hist_def)
  moreover have "set (hist saved_of us') \<subseteq> set (usage_records (r_ledger (sv_recorder z)))"
    using mset_eq_setD[of "usage_records (r_ledger (sv_recorder z))" "usage_records db @ hist saved_of (us @ [Accepted u] @ us')"] z
    by (auto simp: rec_inv_def hist_def)
  ultimately show ?thesis using l(1) err by (intro exI[of _ err]) auto
qed

section \<open>Properties\<close>

text \<open>
  C11. The handlers of the server implement its abstract steps. Whatever requests arrive, however their
  checks, the answers of the upstream and the reads of the streams are interleaved with the
  background goroutine, the recorder's workers and the stop, if the stop waits for the handlers: the
  server moves as in a run of \<open>sv_step\<close>, on which the guarantees of the stop rest, with the same
  errors of the session store and the same writes to the ledger, and no handler panics.
\<close>

theorem handlers_refine:
  assumes "live_run su xs (live_start cfg metrics notify db bufSize workers p) = Some (ls, b)" and "list_all orderly xs"
  shows "(\<exists>acts ls'. sv_run (su_store su) (su_session_fault su) (su_usage_fault su) acts (sv_start cfg metrics notify db bufSize workers) =
        Some (ls', lv_server b) \<and> list_all action_ok acts \<and> concat (map errors_of ls') = concat (map lv_errors ls) \<and>
      filter is_written (usages ls') = concat (map lv_writes ls)) \<and>
    list_all (\<lambda>l. \<not> panics l) ls"
  using live_run_simulates[OF assms(1) live_ok_start assms(2)] by (auto simp: simulates_def live_start_def)


text \<open>A request without a session, its answer, and a stop that waits.\<close>

definition sample_su :: surroundings where
  "sample_su = \<lparr>su_store = SQLite 0, su_session_fault = no_faults, su_usage_fault = no_faults, su_outbound = id,
     su_parse_url = (\<lambda>_. None)\<rparr>"

definition sample_live :: "unit live" where
  "sample_live = live_start loop_cfg True False empty_db 1 1 bare_proxy"

definition sample_finish :: "lv_action list" where
  "sample_finish = Stop True # map Step
     [CloseTake id, CloseDone, Rec RClose, Rec (RWorker 0), Rec (RWorker 0), Rec (RWorker 0), Rec RWait, CloseStore]"

lemma front_serve: "ServeHTTP quiet_env (front sample_live) groq_request = (Forwarded bare_cx groq_request, [], front sample_live)"
proof -
  have p: "oc_ParseRequest '''' = None" by code_simp
  have e: "header_Get (ReqHeader groq_request) ''X-Agent-Session-End'' \<noteq> ''true''" by code_simp
  have same: "groq_request\<lparr>ReqBody := []\<rparr> = groq_request" by (simp add: groq_request_def)
  have h: "ExtractAgentHeaders groq_request = ('''', '''', '''', '''')" by code_simp
  have "px_registry (front sample_live) = px_registry bare_proxy" "px_blocklist (front sample_live) = None"
    "px_limiter (front sample_live) = None" "px_budget (front sample_live) = None" "px_resolver (front sample_live) = None"
    by (simp_all add: front_def sample_live_def live_start_def bare_proxy_def)
  then show ?thesis
    using bare_facts(1-3) p h groq_key e same
    by (simp add: ServeHTTP_def Let_def check_blocklist_def check_session_def check_limit_def check_budget_def
        bare_cx_def resolve_tenant_def) (simp add: quiet_env_def)
qed

definition sample_waiting :: "unit live" where
  "sample_waiting = settle (front sample_live) [Awaiting bare_cx groq_request] sample_live"

lemma sample_arrived:
  "live_run sample_su [Arrive quiet_env groq_request] sample_live = Some ([LvChecked (Forwarded bare_cx groq_request)], sample_waiting)"
  by (simp add: front_serve sample_waiting_def) (simp add: sample_live_def live_start_def sv_start_def Let_def)

definition sample_answered :: "UsageRecord \<Rightarrow> unit live" where
  "sample_answered u = sample_waiting\<lparr>lv_server := (lv_server sample_live)\<lparr>sv_recorder := (NewRecorder empty_db 1 1)\<lparr>r_buf := [u]\<rparr>\<rparr>,
     lv_proxy := (front sample_live)\<lparr>px_recorder := (NewRecorder empty_db 1 1)\<lparr>r_buf := [u]\<rparr>\<rparr>, lv_handlers := [Ended]\<rparr>"

lemma sample_finished:
  "\<exists>ls z. live_run sample_su sample_finish (sample_answered u) = Some (ls, z) \<and> sv_stop (lv_server z) = StoreClosed \<and>
    usage_records (r_ledger (sv_recorder (lv_server z))) = [u]"
  by (simp add: sample_finish_def sample_answered_def sample_waiting_def sample_live_def live_start_def sv_start_def Let_def sample_su_def
      NewRecorder_def NewTracker_def collect_dirty_def Close_begin_def Close_wait_def worker_step_def db_faults_def no_faults_def
      sqlite_RecordUsage_def empty_db_def settle_def loop_cfg_def)

lemma front_waiting: "front sample_waiting = front sample_live"
  by (simp add: front_def sample_waiting_def settle_def sample_live_def live_start_def)

lemma sample_handlers: "lv_handlers sample_waiting = [Awaiting bare_cx groq_request]"
  by (simp add: sample_waiting_def)

lemma sample_responded:
  "\<exists>l u. live_step sample_su (Respond 0 (Inr groq_answer) None ''id'' 5) sample_waiting = Some (l, sample_answered u)"
proof -
  have w: "with_warning (cx_BudgetResult bare_cx) groq_answer = groq_answer" by (simp add: with_warning_def bare_cx_def)
  have s: "200 \<le> StatusCode groq_answer" "StatusCode groq_answer < 300" by (simp_all add: groq_answer_def)
  have c: "\<not> Contains (header_Get (RespHeader (with_warning (cx_BudgetResult bare_cx) groq_answer)) ''Content-Type'') ''text/event-stream''"
    using groq_answer_facts(2) by (simp add: w)
  have r: "px_recorder (front sample_live) = NewRecorder empty_db 1 1" "\<not> ch_closed (px_recorder (front sample_live))"
    "length (r_buf (px_recorder (front sample_live))) < r_cap (px_recorder (front sample_live))"
    by (simp_all add: sample_live_def live_start_def sv_start_def Let_def NewRecorder_def)
  define u where "u = response_record (mt_pricing (px_meter (front sample_live))) bare_cx
    (Path (rewrite (\<lambda>_. None) bare_cx (id groq_request))) (StatusCode groq_answer)
    \<lparr>rs_Model = ''m'', rs_InputTokens = 2, rs_OutputTokens = 1, rs_TotalTokens = 0\<rparr> ''id'' 5"
  obtain p2 resp' where ex: "exchange id (\<lambda>_. None) (\<lambda>t _. (Inr groq_answer, t)) bare_cx groq_request None ''id'' 5 (front sample_live, ()) =
      (Answered (Plain resp'), p2, ())" "apply_effects (usage_effects (px_parts (front sample_live)) False u) (front sample_live) = Inr p2"
    using exchange_metered[where transport = "\<lambda>t _. (Inr groq_answer, t)" and t = "()" and t' = "()" and outbound = id
        and parse_url = "\<lambda>_. None" and u = u, OF refl s groq_answer_facts(3) c groq_answer_facts(1) r(2,3) u_def] by auto
  have m: "with_metrics (px_parts (front sample_live)) = False"
    by (simp add: px_parts_def front_def sample_live_def live_start_def bare_proxy_def)
  have "u_SessionID u = ''''" by (simp add: u_def response_record_def Let_def bare_cx_def)
  then have "p2 = (front sample_live)\<lparr>px_recorder := (NewRecorder empty_db 1 1)\<lparr>r_buf := [u]\<rparr>\<rparr>"
    using ex(2) r m by (simp add: usage_effects_def Record_def) (simp add: NewRecorder_def)
  then have "settle p2 [Ended] sample_waiting = sample_answered u"
    by (simp add: settle_def sample_answered_def sample_waiting_def front_def sample_live_def live_start_def sv_start_def Let_def)
  moreover have "live_step sample_su (Respond 0 (Inr groq_answer) None ''id'' 5) sample_waiting =
      Some (LvExchanged (Answered (Plain resp')), settle p2 [Ended] sample_waiting)"
    using ex(1) by (simp add: front_waiting sample_su_def after_exchange_def sample_handlers)
  ultimately show ?thesis by auto
qed

lemma sample_orderly: "list_all orderly [Arrive quiet_env groq_request]" "list_all orderly sample_finish"
  by (simp_all add: quiet_env_def sample_finish_def permutes_def)

theorem handlers_refine_witness:
  "\<exists>xs ls b acts ls'. live_run sample_su xs sample_live = Some (ls, b) \<and> sv_stop (lv_server b) = StoreClosed \<and>
     usage_records (r_ledger (sv_recorder (lv_server b))) \<noteq> [] \<and>
     sv_run (SQLite 0) no_faults no_faults acts (sv_start loop_cfg True False empty_db 1 1) = Some (ls', lv_server b) \<and>
     list_all (\<lambda>l. \<not> panics l) ls"
proof -
  obtain l u ls z where r: "live_step sample_su (Respond 0 (Inr groq_answer) None ''id'' 5) sample_waiting = Some (l, sample_answered u)"
    "live_run sample_su sample_finish (sample_answered u) = Some (ls, z)" "sv_stop (lv_server z) = StoreClosed"
    "usage_records (r_ledger (sv_recorder (lv_server z))) = [u]"
    using sample_responded sample_finished by blast
  define xs where "xs = Arrive quiet_env groq_request # Respond 0 (Inr groq_answer) None ''id'' 5 # sample_finish"
  have "live_step sample_su (Arrive quiet_env groq_request) sample_live = Some (LvChecked (Forwarded bare_cx groq_request), sample_waiting)"
    using sample_arrived by (auto split: option.splits simp del: live_step.simps)
  then have run: "live_run sample_su xs sample_live = Some (LvChecked (Forwarded bare_cx groq_request) # l # ls, z)"
    using r(1,2) by (simp add: xs_def del: live_step.simps)
  have "list_all orderly xs" using sample_orderly by (simp add: xs_def)
  from handlers_refine[OF run[unfolded sample_live_def] this] obtain acts ls' where
    "sv_run (su_store sample_su) (su_session_fault sample_su) (su_usage_fault sample_su) acts (sv_start loop_cfg True False empty_db 1 1) =
      Some (ls', lv_server z)"
    "list_all (\<lambda>l. \<not> panics l) (LvChecked (Forwarded bare_cx groq_request) # l # ls)" by blast
  then show ?thesis using run r(3,4)
    by (intro exI[of _ xs] exI[of _ "LvChecked (Forwarded bare_cx groq_request) # l # ls"] exI[of _ z] exI[of _ acts] exI[of _ ls'])
      (simp add: sample_su_def)
qed


text \<open>
  A stop that has not waited: \<open>Shutdown\<close> gives up after a minute, and a listener that fails is not
  shut down. A stream that ends after the recorder was closed panics, and what it used is recorded nowhere.
\<close>

theorem late_stream_lost:
  assumes "i < length (lv_handlers a)" and "lv_handlers a ! i = Passing s" and "\<not> si_finalized s" and "op_ends op"
    and "ch_closed (sv_recorder (lv_server a))"
  shows "\<exists>b. live_step su (Pass i op) a = Some (LvPanic ''send on closed channel'', b) \<and> lv_server b = lv_server a"
proof -
  obtain bytes effs m s1 where st: "si_step (px_meter (lv_proxy a)) s op = (bytes, effs, m, s1)" by (metis prod_cases4)
  have "effs \<noteq> []" using si_step_count[OF st] assms(3,4) by auto
  then obtain u where u: "effs = usage_effects (si_parts s) True u" using si_step_effects[OF st] by blast
  have "apply_effects effs ((front a)\<lparr>px_meter := m\<rparr>) = Inl ''send on closed channel''"
    using assms(5) by (simp add: u usage_effects_def Record_def)
  then show ?thesis using assms(1,2) st by (simp add: settle_same)
qed

end
