(* ===== verification/Startup.thy ===== *)
theory Startup
  imports Commands Metrics Pages Handlers
begin

text \<open>
  What the commands do from their first line to their exit status: \<open>serve\<close> (\<open>runServe\<close> of
  \<open>cmd/agentledger/serve.go\<close>), \<open>costs\<close> and \<open>export\<close>. Each of them loads the configuration, opens the
  configured store, and runs its deferred calls on every way out. How the parts of the server behave is
  in the other theories; this one says in which order they are made and released, and on which errors.
\<close>

section \<open>The command serve\<close>

text \<open>
  What the parts outside the sources do: the errors of the file system, the drivers and the metrics
  library, how \<open>ListenAndServe\<close> or a signal ended the serving, and the error of \<open>Shutdown\<close>.
\<close>

datatype run_end = Signal | ServeEnded string

record run_env =
  sn_sql :: sql_env
  sn_exporter :: "string option"
  sn_register :: "instrument_kind \<Rightarrow> string \<Rightarrow> string option"
  sn_event :: run_end
  sn_shutdown :: "string option"

text \<open>The deferred calls of \<open>runServe\<close>.\<close>

datatype cleanup =
    CloseStoreC store
  | CloseRecorder
  | CloseBudget
  | ShutdownMetrics
  | CloseTracker
  | CloseLimiter

fun run_cleanup :: "cleanup \<Rightarrow> sql_system \<Rightarrow> sql_system" where
  "run_cleanup (CloseStoreC st) s = store_Close st s"
| "run_cleanup _ s = s"

text \<open>HTTPS when both files are configured, with TLS 1.2 at least.\<close>

datatype listener = ListenAndServeTLS string string string | ListenAndServe string

definition listener_of :: "server_config \<Rightarrow> listener" where
  "listener_of cfg =
    (case cfg_TLS cfg of (cert, key) \<Rightarrow>
       if cert \<noteq> '''' \<and> key \<noteq> '''' then ListenAndServeTLS (cfg_Listen cfg) cert key else ListenAndServe (cfg_Listen cfg))"

datatype exit = Exit "string option" | Panic string

record run_outcome =
  oc_exit :: exit
  oc_cleanups :: "cleanup list"
  oc_system :: sql_system
  oc_serving :: "(listener \<times> pattern list) option"

text \<open>Leaving \<open>runServe\<close>, by a return or a panic: the deferred calls run, the last one first.\<close>

definition leave_with :: "cleanup list \<Rightarrow> (listener \<times> pattern list) option \<Rightarrow> exit \<Rightarrow> sql_system \<Rightarrow> run_outcome" where
  "leave_with deferred serving e s =
    \<lparr>oc_exit = e, oc_cleanups = deferred, oc_system = fold run_cleanup deferred s, oc_serving = serving\<rparr>"

text \<open>Serving until a signal or the end of the listener, then \<open>Shutdown\<close>.\<close>

definition serve_result :: "run_end \<Rightarrow> string option \<Rightarrow> string option" where
  "serve_result ev shutdown =
    (case ev of
       ServeEnded err \<Rightarrow> if err \<noteq> ''http: Server closed'' then Some err else shutdown
     | Signal \<Rightarrow> shutdown)"

definition runServe :: "run_env \<Rightarrow> string + server_config \<Rightarrow> sql_system \<Rightarrow> run_outcome" where
  "runServe env loaded s =
    (case loaded of
       Inl err \<Rightarrow> leave_with [] None (Exit (Some err)) s
     | Inr cfg \<Rightarrow>
         (case open_store (sn_sql env) (st_Driver (cfg_Storage cfg)) (st_DSN (cfg_Storage cfg))
                 (st_MaxOpenConns (cfg_Storage cfg)) (st_MaxIdleConns (cfg_Storage cfg)) s of
            (Inl err, s1) \<Rightarrow> leave_with [] None (Exit (Some err)) s1
          | (Inr st, s1) \<Rightarrow>
              let deferred = [CloseBudget, CloseRecorder, CloseStoreC st] in
              (case SetupPrometheus (sn_exporter env) (sn_register env) of
                 Inl err \<Rightarrow> leave_with deferred None (Exit (Some (wrap ''setting up metrics'' err))) s1
               | Inr _ \<Rightarrow>
                   let deferred = CloseLimiter # CloseTracker # ShutdownMetrics # deferred in
                   (case register_all cfg of
                      Inl msg \<Rightarrow> leave_with deferred None (Panic msg) s1
                    | Inr pats \<Rightarrow>
                        leave_with deferred (Some (listener_of cfg, pats))
                          (Exit (serve_result (sn_event env) (sn_shutdown env))) s1))))"

text \<open>The exit status of the process: 1 for an error, which \<open>main\<close> prints, and 2 for a panic.\<close>

definition serve_status :: "run_outcome \<Rightarrow> int" where
  "serve_status o' = (case oc_exit o' of Exit None \<Rightarrow> 0 | Exit (Some err) \<Rightarrow> 1 | Panic msg \<Rightarrow> 2)"

text \<open>
  What serves then: the handlers, with the tracker, the recorder and the store \<open>runServe\<close> has made.
  The proxy they see is the one of the configuration.
\<close>

definition server_live :: "server_config \<Rightarrow> 'enc meter \<Rightarrow> database \<Rightarrow> 'enc live" where
  "server_live cfg m db =
    live_start (cfg_Agent cfg) True (alert_notifier (cfg_Alerts cfg) \<noteq> None) db (rc_BufferSize (cfg_Recording cfg))
      (rc_Workers (cfg_Recording cfg)) (server_proxy cfg m db)"

lemma server_live_front: "front (server_live cfg m db) = server_proxy cfg m db"
  by (simp add: server_live_def live_start_def front_def sv_start_def server_proxy_def session_tracker_def Let_def)

section \<open>The cleanup goroutines\<close>

text \<open>
  \<open>cleanupLoop\<close> of the limiter and \<open>cacheCleanupLoop\<close> of the budget manager: a tick evicts, and once
  \<open>done\<close> is closed the goroutine may return instead; while both are ready, the \<open>select\<close> may take
  either. Closing again does nothing.
\<close>

record 's looper =
  lp_state :: 's
  lp_closed :: bool
  lp_running :: bool

datatype loop_action = LoopTick time | LoopClose | LoopReturn

fun loop_step :: "('s \<Rightarrow> time \<Rightarrow> 's) \<Rightarrow> loop_action \<Rightarrow> 's looper \<Rightarrow> 's looper option" where
  "loop_step evict (LoopTick now) p = (if lp_running p then Some (p\<lparr>lp_state := evict (lp_state p) now\<rparr>) else None)"
| "loop_step evict LoopClose p = Some (p\<lparr>lp_closed := True\<rparr>)"
| "loop_step evict LoopReturn p = (if lp_running p \<and> lp_closed p then Some (p\<lparr>lp_running := False\<rparr>) else None)"

fun loop_run :: "('s \<Rightarrow> time \<Rightarrow> 's) \<Rightarrow> loop_action list \<Rightarrow> 's looper \<Rightarrow> 's looper option" where
  "loop_run evict [] p = Some p"
| "loop_run evict (a # as) p = (case loop_step evict a p of None \<Rightarrow> None | Some q \<Rightarrow> loop_run evict as q)"

definition limiter_loop :: "loop_action list \<Rightarrow> limiter looper \<Rightarrow> limiter looper option" where
  "limiter_loop = loop_run rl_evictExpired"

definition manager_loop :: "loop_action list \<Rightarrow> Manager looper \<Rightarrow> Manager looper option" where
  "manager_loop = loop_run evictStaleCache"

fun ticks :: "loop_action list \<Rightarrow> time list" where
  "ticks [] = []"
| "ticks (LoopTick now # as) = now # ticks as"
| "ticks (a # as) = ticks as"

text \<open>So the runs of the limiter and of the manager, with evictions as events, are what the goroutines do.\<close>

lemma limiter_loop_run: "limiter_loop as p = Some q \<Longrightarrow> lp_state q = rl_run (lp_state p) (map Evict (ticks as))"
  unfolding limiter_loop_def by (induction as arbitrary: p rule: ticks.induct) (auto split: if_splits)

lemma manager_loop_run: "manager_loop as p = Some q \<Longrightarrow> lp_state q = bm_run (lp_state p) (map Evicted (ticks as))"
  unfolding manager_loop_def by (induction as arbitrary: p rule: ticks.induct) (auto simp: bm_run_def split: if_splits)

section \<open>The commands costs and export\<close>

text \<open>The flags with their defaults, and the value of one given what the command line sets.\<close>

definition costs_flags :: "(string \<times> string) list" where
  "costs_flags = [(''config'', ''''), (''last'', ''24h''), (''by'', ''model''), (''tenant'', '''')]"

definition export_flags :: "(string \<times> string) list" where
  "export_flags = [(''config'', ''''), (''last'', ''30d''), (''by'', ''model''), (''tenant'', ''''), (''format'', ''csv'')]"

definition flag :: "(string \<times> string) list \<Rightarrow> (string \<rightharpoonup> string) \<Rightarrow> string \<Rightarrow> string" where
  "flag defaults given name =
    (case given name of Some v \<Rightarrow> v | None \<Rightarrow> (case map_of defaults name of Some v \<Rightarrow> v | None \<Rightarrow> ''''))"

text \<open>The queries of the store behind the interface.\<close>

fun store_api :: "sql_engine \<Rightarrow> database \<Rightarrow> fault \<Rightarrow> store \<Rightarrow> ledger_api" where
  "store_api eng db fault (SQLite _) = sqlite_api eng db fault"
| "store_api eng db fault (Postgres _) =
    \<lparr>la_QueryCosts = pg_QueryCosts eng db fault,
     la_QueryCostTimeseries = pg_QueryCostTimeseries eng db fault,
     la_QueryRecentExpensive = pg_QueryRecentExpensive db fault,
     la_QueryErrorStats = pg_QueryErrorStats eng db fault,
     la_QueryRecentSessions = pg_QueryRecentSessions db fault,
     la_QueryLatencyPercentiles = (\<lambda>since until tenant. map_sum id Some (pg_QueryLatencyPercentiles eng db (fault, None) fault since until tenant)),
     la_QueryTokenTimeseries = pg_QueryTokenTimeseries db fault\<rparr>"

text \<open>An error that is returned as it is, or one of the report.\<close>

datatype command_error = Returned_error string | Report_error report_error

definition with_store ::
  "sql_env \<Rightarrow> string + server_config \<Rightarrow> sql_system \<Rightarrow> (store \<Rightarrow> report_error + 'a) \<Rightarrow> (command_error + 'a) \<times> sql_system" where
  "with_store env loaded s body =
    (case loaded of
       Inl err \<Rightarrow> (Inl (Returned_error err), s)
     | Inr cfg \<Rightarrow>
         (case open_store env (st_Driver (cfg_Storage cfg)) (st_DSN (cfg_Storage cfg))
                 (st_MaxOpenConns (cfg_Storage cfg)) (st_MaxIdleConns (cfg_Storage cfg)) s of
            (Inl err, s1) \<Rightarrow> (Inl (Returned_error err), s1)
          | (Inr st, s1) \<Rightarrow> (map_sum Report_error id (body st), store_Close st s1)))"

definition costs_command ::
  "sql_env \<Rightarrow> (string \<Rightarrow> string + server_config) \<Rightarrow> (string \<Rightarrow> string + duration) \<Rightarrow> (store \<Rightarrow> ledger_api) \<Rightarrow> time \<Rightarrow>
   (string \<rightharpoonup> string) \<Rightarrow> sql_system \<Rightarrow> (command_error + cost_row list option) \<times> sql_system" where
  "costs_command env load parse api now given s =
    (let v = flag costs_flags given in
     with_store env (load (v ''config'')) s (\<lambda>st. runCosts parse (api st) now (v ''last'') (v ''by'') (v ''tenant'')))"

definition export_command ::
  "sql_env \<Rightarrow> (string \<Rightarrow> string + server_config) \<Rightarrow> (string \<Rightarrow> string + duration) \<Rightarrow> (store \<Rightarrow> ledger_api) \<Rightarrow> time \<Rightarrow>
   (string \<rightharpoonup> string) \<Rightarrow> sql_system \<Rightarrow> (command_error + dash_body) \<times> sql_system" where
  "export_command env load parse api now given s =
    (let v = flag export_flags given in
     with_store env (load (v ''config'')) s
       (\<lambda>st. runExport parse (api st) now (v ''last'') (v ''by'') (v ''tenant'') (v ''format'')))"

section \<open>Properties\<close>

definition all_cleanups :: "store \<Rightarrow> cleanup list" where
  "all_cleanups st = [CloseLimiter, CloseTracker, ShutdownMetrics, CloseBudget, CloseRecorder, CloseStoreC st]"

lemma open_store_result:
  assumes "open_store env driver dsn maxOpen maxIdle s = (r, s')"
  shows "case r of Inl err \<Rightarrow> open_handles s' = open_handles s | Inr st \<Rightarrow> open_handles (store_Close st s') = open_handles s"
proof (cases "driver = ''postgres''")
  case True
  obtain r1 s1 where n: "NewPostgres env dsn maxOpen maxIdle s = (r1, s1)" by fastforce
  from NewPostgres_result[OF n] show ?thesis using assms n True
    by (cases r1) (auto simp: open_store_def store_Close_def tops_Close open_handles_def[of s])
next
  case False
  obtain r1 s1 where n: "NewSQLite env dsn s = (r1, s1)" by fastforce
  from NewSQLite_result[OF n] show ?thesis using assms n False
    by (cases r1) (auto simp: open_store_def store_Close_def tops_Close open_handles_def[of s])
qed

lemma leave_with_sel [simp]:
  "oc_exit (leave_with ds v e s) = e" "oc_cleanups (leave_with ds v e s) = ds" "oc_serving (leave_with ds v e s) = v"
  "oc_system (leave_with ds v e s) = fold run_cleanup ds s"
  by (simp_all add: leave_with_def)

lemma with_store_releases: "open_handles (snd (with_store env loaded s body)) = open_handles s"
proof (cases loaded)
  case (Inr cfg)
  obtain r s' where o: "open_store env (st_Driver (cfg_Storage cfg)) (st_DSN (cfg_Storage cfg))
      (st_MaxOpenConns (cfg_Storage cfg)) (st_MaxIdleConns (cfg_Storage cfg)) s = (r, s')" by fastforce
  then show ?thesis using open_store_result[OF o] Inr by (cases r) (simp_all add: with_store_def)
qed (simp add: with_store_def)

lemma runMCPWrap_releases: "open_handles (snd (runMCPWrap loaded env getenv c s)) = open_handles s"
proof (cases loaded)
  case (Inr cfg)
  obtain r s' where o: "NewSQLite env (st_DSN (cfg_Storage cfg)) s = (r, s')" by fastforce
  then show ?thesis using NewSQLite_result[OF o] Inr
    by (cases r) (auto simp: runMCPWrap_def tops_Close open_handles_def[of s] split: prod.split)
qed (simp add: runMCPWrap_def)


text \<open>
  No command leaves the database open: whatever fails, after \<open>costs\<close>, \<open>export\<close> and \<open>mcp-wrap\<close> the
  open connection pools are those that were open before.
\<close>

theorem commands_release:
  "open_handles (snd (costs_command env load parse api now given s)) = open_handles s \<and>
   open_handles (snd (export_command env load parse api now given s)) = open_handles s \<and>
   open_handles (snd (runMCPWrap loaded env getenv c s)) = open_handles s"
  by (simp add: costs_command_def export_command_def Let_def with_store_releases runMCPWrap_releases)

lemma month_window: "parseDuration parse ''30d'' = Inr (720 * Hour)" "report_filter now (720 * Hour) g t = cost_filter (now - 720 * Hour) now g t"
proof -
  have "scan_days ''30d'' = Inr 30" "i64 (i64 (30 * 24) * Hour) = 720 * Hour" "i64 (- (720 * Hour)) = - (720 * Hour)" by code_simp+
  then show "parseDuration parse ''30d'' = Inr (720 * Hour)"
    "report_filter now (720 * Hour) g t = cost_filter (now - 720 * Hour) now g t"
    by (simp_all add: parseDuration_def report_filter_def time_Add_def)
qed

lemma export_flag_values:
  "flag export_flags Map.empty ''config'' = ''''" "flag export_flags Map.empty ''last'' = ''30d''"
  "flag export_flags Map.empty ''by'' = ''model''" "flag export_flags Map.empty ''tenant'' = ''''"
  "flag export_flags Map.empty ''format'' = ''csv''"
  by (simp_all add: flag_def export_flags_def)

lemma with_store_Inr:
  assumes "with_store env (Inr cfg) s body = (Inr x, s')" and "st_Driver (cfg_Storage cfg) \<noteq> ''postgres''"
  shows "\<exists>db. body (SQLite db) = Inr x"
  using assms by (auto simp: with_store_def open_store_def map_sum_def split: prod.splits sum.splits)



end
