(* ===== verification/Spec2Isabelle.thy ===== *)
theory Spec2Isabelle
  imports Startup
begin

text \<open>
  A model of Agent Ledger (Go), a reverse proxy that meters what AI agents spend, enforces budgets
  and detects runaway agents, with the theorems that make its parts correct.

  \<^bold>\<open>The program.\<close> A client sends its requests for a language model to the proxy instead of the
  provider. \<open>Proxy.ServeHTTP\<close> finds the provider (\<open>provider.Registry\<close>), reads the body, asks the
  blocklist (\<open>admin\<close>), the session tracker (\<open>agent\<close>), the rate limiter (\<open>ratelimit\<close>) and the budget
  manager (\<open>budget\<close>), and forwards the request through the circuit breaker. The answer, or the
  stream of events, is parsed for its token counts, priced (\<open>meter\<close>) and handed to the recorder, a
  bounded channel with workers that write to the ledger (SQLite or Postgres). The ledger in turn feeds
  the budget manager, the dashboard and the reports of the command line. Tool calls of MCP servers
  are metered by a second proxy (\<open>mcp\<close>), and budget and session events become alerts (\<open>alert\<close>).

  \<^bold>\<open>Theories and sources.\<close>
  \<^item> \<open>Go_Prelude\<close>, \<open>Runes\<close>, \<open>Float64\<close>, \<open>Glob\<close>, \<open>Http\<close>, \<open>Paths\<close>, \<open>Json\<close>, \<open>Sha256\<close>,
    \<open>Calendar\<close>: what the program uses of Go and
    its standard library: 64-bit integers and durations with their wrap-around, times, UTF-8, IEEE
    doubles with rounding, \<open>filepath.Match\<close>, headers and query strings, cleaned paths,
    \<open>encoding/json\<close> on bytes,
    SHA-256, the start of the day and of the month.
  \<^item> \<open>Meter\<close>: \<open>internal/meter\<close>. Prices, longest-prefix lookup, the cost of a call in doubles, the
    cache of tokenizers. The tokenizer is an argument.
  \<^item> \<open>RateLimit\<close>: \<open>internal/ratelimit\<close>. The locale \<open>window_limit\<close> is the contract of one kind of
    window, interpreted for the minute and for the hour counters.
  \<^item> \<open>Breaker\<close>: \<open>internal/budget/circuit_breaker.go\<close>, both sequentially and with concurrent calls
    interleaved at every atomic operation, against a specification automaton.
  \<^item> \<open>Keys\<close>, \<open>Tenant\<close>: API keys, agent headers (\<open>internal/provider/provider.go\<close>) and \<open>internal/tenant\<close>.
  \<^item> \<open>Budget\<close>: \<open>internal/budget/budget.go\<close>. Rules, spend cache, decisions and callbacks; the locale
    \<open>spend_ledger\<close> is what the manager needs of a ledger.
  \<^item> \<open>Agent\<close>: \<open>internal/agent\<close>. Sessions, loop and ghost detection, flushing to a \<open>session_store\<close>.
  \<^item> \<open>Ledger\<close>: \<open>internal/ledger\<close> on tables as lists of rows, every statement of both stores; it
    interprets \<open>usage_ledger\<close>, \<open>spend_ledger\<close> and \<open>session_store\<close>. How the engine adds floating-point
    numbers is an argument.
  \<^item> \<open>Recorder\<close>: \<open>internal/ledger/recorder.go\<close>, channel, workers and \<open>Close\<close> interleaved action by action;
    the locale \<open>record_sink\<close> is interpreted on both stores.
  \<^item> \<open>Storage\<close>: \<open>NewSQLite\<close> and \<open>NewPostgres\<close> (\<open>internal/ledger\<close>), their migrations, the limits of the
    connection pool, and the store behind the interface the server uses, on which \<open>session_store\<close> and
    \<open>record_sink\<close> are interpreted once for both.
  \<^item> \<open>Provider\<close>: \<open>internal/provider\<close>. Matching, path rewriting and the parsers of all providers, and the
    registry; the locale \<open>path_routed\<close> is the contract of the types with a path prefix.
  \<^item> \<open>Streaming\<close>, \<open>Proxy\<close>: \<open>internal/proxy\<close>. The stream interceptor for reads of any size; the checks of a
    request, rewriting, the response hook and the error handler, composed from the theories above.
  \<^item> \<open>Admin\<close>: \<open>internal/admin\<close>. The store, the cached blocklist, authentication and all routes.
  \<^item> \<open>MCP\<close>: \<open>internal/mcp\<close>. JSON-RPC on bytes, the interceptor, the HTTP proxy and the piped lines.
  \<^item> \<open>Alerting\<close>: \<open>internal/alert\<close> and the alerts made in \<open>cmd/agentledger/serve.go\<close>; the locale \<open>notifier\<close> is
    interpreted for a single target and for the fan-out.
  \<^item> \<open>Dashboard\<close>: \<open>internal/dashboard/handlers.go\<close>, \<open>cmd/agentledger/costs.go\<close> and \<open>export.go\<close>.
  \<^item> \<open>Serve\<close>: \<open>internal/config/config.go\<close> and \<open>cmd/agentledger/serve.go\<close>: what \<open>runServe\<close> builds from a
    configuration, routes, CORS, and the path of a budget event to the alert targets.
  \<^item> \<open>Commands\<close>: \<open>cmd/agentledger/mcpwrap.go\<close>, the health check of \<open>main.go\<close>, and the run of the stdio wrapper
    from the bytes of its pipes to the rows of the ledger.
  \<^item> \<open>Shutdown\<close>: the running server and its stop, step by step: requests, the background goroutine of the
    tracker (\<open>internal/agent/session.go\<close>) with its flush row by row, the recorder, and the closing of
    tracker, recorder and store, interleaved over one database.
  \<^item> \<open>Handlers\<close>: the handlers of the requests in that server, each with its own progress (checked, waiting
    for the upstream, passing a stream on), with the proxy of \<open>Proxy\<close> and \<open>Streaming\<close> as it is; its steps
    are simulated by those of \<open>Shutdown\<close>.
  \<^item> \<open>Pages\<close>: \<open>internal/dashboard/server.go\<close>, the embedded pages and the file server behind them.
  \<^item> \<open>Startup\<close>: \<open>runServe\<close> from its first line to its exit status, with its error paths and deferred
    calls, the cleanup goroutines, and the commands \<open>costs\<close> and \<open>export\<close>.
  \<^item> \<open>Metrics\<close>: \<open>internal/otel/metrics.go\<close>. The instruments and the updates each method makes.

  Structs are records whose fields carry a short prefix, methods are functions from the receiver's
  old value to its new one, errors are values of a sum or option type, and panics are \<open>Inl\<close>. What a
  call reads from the clock, from random ids, from the network or from a failing store is an
  argument. Go maps whose order is visible are lists in the order one iteration sees.

  \<^bold>\<open>What the theorems show.\<close>
  \<^item> Admission: a request is forwarded exactly when all checks pass, in their order; what is sent
    upstream; a detected request reaches the proxy under every configuration.
  \<^item> Metering: a parsed answer, in whatever state the server is, is recorded with the cost of its tokens,
    charged to its session, and handed to the ledger before the store is closed; a stream has the same
    usage however it is cut into reads and is recorded at most once; token counts are 64-bit values
    whatever the upstream sends; computed costs are close to the exact ones; MCP calls are billed
    once, as a specification over the whole history says, and \<open>mcp-wrap\<close> accounts for each of them;
    what the gauge of active sessions shows.
  \<^item> Recording: under every interleaving no accepted record is lost or duplicated, \<open>Close\<close> drains the
    channel; after a clean stop every session can be read back and every accepted record was handed
    to the ledger, and the request handlers implement the steps this is shown for; the stop ends under
    every schedule; what is lost when it meets a flush in progress or a stream that has outlived it; reports partition the records.
  \<^item> Resources: the server and the commands release what they have acquired on every way out, in the
    reverse order; opening a store that fails leaves no connection behind.
  \<^item> Enforcement: budgets block within the life of the cache and every decision is justified by the
    ledger; rate limits bound every window and a refusal names a time after which requests pass;
    loops are detected exactly; the breaker refines its specification and does not trip early.
  \<^item> Administration and alerting: nothing happens without the token, a block takes effect at once
    and is seen within ten seconds; alerts are deduplicated exactly, reach every target, and a block
    of a budget is alerted.
  \<^item> Reports and pages: the CSV text reads back, \<open>export\<close> covers the records of the days asked for, and
    every path of the dashboard gets its file or the index page.
  \<^item> Errors: failing stores, transports, deliveries and oversized inputs, each with what the code
    does; where that is not what is meant or documented the theorem states the actual behaviour.

  \<^bold>\<open>Bounds and fuel.\<close> The JSON scanner recurses with fuel \<open>2 * length + 2\<close> for its input, which is more
  than the number of calls on it, each of which consumes a byte or closes a level; nesting is
  limited to 10000 as in Go. All other recursion is structural or has a termination proof. Integers
  wrap at 64 bits where the code can overflow them.

  \<^bold>\<open>Not modelled.\<close> Viper and the environment (arguments of \<open>Load\<close>); SQL engines below the level of
  statements on rows, and what a migration does (which were run, and whether they failed, is);
  the operating system's part of starting the child process and of forwarding signals, and of
  listening with or without TLS, whose outcomes are arguments; when a timer fires; the inside of
  OpenTelemetry, whose calls are values; log lines; the tokenizer library; Cobra's parsing of the
  command line and its help texts. NaN and infinite floats do not occur in the model: prices are
  finite and JSON has none.
\<close>

end
